(* ===== verification/Prelude.thy ===== *)
theory Prelude
  imports Main "HOL-Library.Word"
begin

text \<open>
  Shared vocabulary of the development: the byte strings the proxy moves around, the
  reading of a C \<open>char\<close> as a signed integer, slices of a buffer, the collections of
  lemmas the component theories fill, and generic facts on lists and association lists
  that more than one component uses.
\<close>

section \<open>Collections\<close>

named_theorems chars \<open>character classes and conversions of the C locale\<close>
named_theorems slices \<open>taking, dropping and updating byte ranges\<close>
named_theorems wp \<open>weakest-precondition rules of the handler monad\<close>
named_theorems wp_def \<open>definitions that wp proofs unfold\<close>

section \<open>Bytes\<close>

type_synonym bytes = string

abbreviation NUL :: char where "NUL \<equiv> CHR 0x00"
abbreviation TAB :: char where "TAB \<equiv> CHR 0x09"
abbreviation LF :: char where "LF \<equiv> CHR 0x0A"
abbreviation CR :: char where "CR \<equiv> CHR 0x0D"
abbreviation SP :: char where "SP \<equiv> CHR 0x20"
abbreviation CRLF :: bytes where "CRLF \<equiv> [CR, LF]"

text \<open>The value of a byte as an unsigned number, and as the (signed) \<open>char\<close> of the target.\<close>

definition byte_val :: "char \<Rightarrow> nat" where
  "byte_val c = of_char c"

definition c_int :: "char \<Rightarrow> int" where
  "c_int c = (if byte_val c < 128 then int (byte_val c) else int (byte_val c) - 256)"

lemma byte_val_less [simp]: "byte_val c < 256"
  by (simp add: byte_val_def)

lemma char_of_byte_val [simp]: "char_of (byte_val c) = c"
  by (simp add: byte_val_def)

lemma byte_val_char_of [simp]: "n < 256 \<Longrightarrow> byte_val (char_of n) = n"
  by (simp add: byte_val_def)

lemma byte_val_char_of_mod: "byte_val (char_of (n :: nat)) = n mod 256"
  by (simp add: byte_val_def)

lemma byte_val_inject [simp]: "byte_val c = byte_val d \<longleftrightarrow> c = d"
  by (metis char_of_byte_val)

text \<open>A property of all bytes is checked on the 256 of them.\<close>

lemma all_bytes:
  assumes "list_all P (map char_of [0..<256::nat])"
  shows "P (c :: char)"
proof -
  have "c = char_of (byte_val c)" by simp
  moreover have "byte_val c \<in> set [0..<256]" by simp
  ultimately have "c \<in> set (map char_of [0..<256::nat])" by (metis image_eqI list.set_map)
  with assms show ?thesis by (simp only: list_all_iff)
qed

section \<open>Slices\<close>

text \<open>The bytes a pair of pointers \<open>[beg, end)\<close> or a pointer and a length denote.\<close>

definition slice :: "'a list \<Rightarrow> nat \<Rightarrow> nat \<Rightarrow> 'a list" where
  "slice xs beg n = take n (drop beg xs)"

lemma slice_length [slices]: "beg + n \<le> length xs \<Longrightarrow> length (slice xs beg n) = n"
  by (simp add: slice_def)

lemma slice_all [slices]: "slice xs 0 (length xs) = xs"
  by (simp add: slice_def)

lemma slice_rest [slices]: "slice xs p (length xs - p) = drop p xs"
  by (simp add: slice_def)

lemma slice_zero [slices, simp]: "slice xs beg 0 = []"
  by (simp add: slice_def)

lemma slice_append_mid [slices]:
  "length pre = beg \<Longrightarrow> length mid = n \<Longrightarrow> slice (pre @ mid @ post) beg n = mid"
  by (simp add: slice_def)

lemma drop_Cons_nth [slices]: "p < length xs \<Longrightarrow> drop p xs = xs ! p # drop (Suc p) xs"
  by (simp add: Cons_nth_drop_Suc)

text \<open>
  A C string: the bytes before the first NUL.
\<close>

definition cstr :: "bytes \<Rightarrow> bytes" where
  "cstr s = takeWhile (\<lambda>c. c \<noteq> NUL) s"

lemma cstr_id [simp]: "NUL \<notin> set s \<Longrightarrow> cstr s = s"
  by (simp add: cstr_def takeWhile_eq_all_conv) (metis)

lemma cstr_no_NUL [simp]: "NUL \<notin> set (cstr s)"
  by (auto simp: cstr_def dest: set_takeWhileD)

lemma length_cstr_le: "length (cstr s) \<le> length s"
  by (simp add: cstr_def length_takeWhile_le)

section \<open>Association lists\<close>

text \<open>
  A container with unique keys, in iteration order: \<open>insert\<close> of the standard
  containers keeps the value that is already there.
\<close>

definition al_insert :: "('k \<times> 'v) list \<Rightarrow> 'k \<Rightarrow> 'v \<Rightarrow> ('k \<times> 'v) list" where
  "al_insert m k v = (case map_of m k of None \<Rightarrow> m @ [(k, v)] | Some _ \<Rightarrow> m)"

lemma map_of_al_insert [simp]:
  "map_of (al_insert m k v) k' =
     (case map_of m k' of Some x \<Rightarrow> Some x | None \<Rightarrow> if k' = k then Some v else None)"
  by (auto simp: al_insert_def map_add_def split: option.splits)

lemma distinct_al_insert [simp]:
  "distinct (map fst m) \<Longrightarrow> distinct (map fst (al_insert m k v))"
  by (auto simp: al_insert_def map_of_eq_None_iff split: option.splits)

lemma al_insert_fresh: "k \<notin> fst ` set m \<Longrightarrow> al_insert m k v = m @ [(k, v)]"
  by (simp add: al_insert_def map_of_eq_None_iff [symmetric])

fun al_update :: "('k \<times> 'v) list \<Rightarrow> 'k \<Rightarrow> 'v \<Rightarrow> ('k \<times> 'v) list" where
  "al_update [] k v = [(k, v)]"
| "al_update ((a, b) # m) k v = (if a = k then (a, v) # m else (a, b) # al_update m k v)"

definition al_erase :: "('k \<times> 'v) list \<Rightarrow> 'k \<Rightarrow> ('k \<times> 'v) list" where
  "al_erase m k = filter (\<lambda>(k', _). k' \<noteq> k) m"

lemma map_of_al_update [simp]: "map_of (al_update m k v) = (map_of m)(k \<mapsto> v)"
  by (induction m k v rule: al_update.induct) (auto simp: fun_upd_twist)

lemma fst_set_al_update [simp]: "fst ` set (al_update m k v) = insert k (fst ` set m)"
  by (induction m k v rule: al_update.induct) auto

lemma distinct_al_update [simp]:
  "distinct (map fst m) \<Longrightarrow> distinct (map fst (al_update m k v))"
  by (induction m k v rule: al_update.induct) auto

lemma map_of_al_erase [simp]: "map_of (al_erase m k) = (map_of m)(k := None)"
proof
  fix k'
  show "map_of (al_erase m k) k' = ((map_of m)(k := None)) k'"
    by (induction m) (auto simp: al_erase_def)
qed

lemma distinct_al_erase [simp]:
  "distinct (map fst m) \<Longrightarrow> distinct (map fst (al_erase m k))"
  by (induction m) (auto simp: al_erase_def)

end
