(* ===== verification/CLib.thy ===== *)
theory CLib
  imports Prelude
begin

text \<open>
  The parts of the C library the program calls, in the C locale: character classes,
  case conversion, string search and comparison, \<open>strtol\<close>, \<open>strtoul\<close>, \<open>atoi\<close>, and the
  \<open>printf\<close> conversions \<open>%d\<close>, \<open>%u\<close> and \<open>%02X\<close>. \<open>unsigned long\<close> and \<open>size_t\<close> have 64 bits,
  \<open>int\<close> has 32 (the target of the repository's makefiles).
\<close>

section \<open>Characters\<close>

definition c_isspace :: "char \<Rightarrow> bool" where
  "c_isspace c \<longleftrightarrow> c = SP \<or> (9 \<le> byte_val c \<and> byte_val c \<le> 13)"

definition c_isdigit :: "char \<Rightarrow> bool" where
  "c_isdigit c \<longleftrightarrow> 48 \<le> byte_val c \<and> byte_val c \<le> 57"

definition c_tolower :: "char \<Rightarrow> char" where
  "c_tolower c = (if 65 \<le> byte_val c \<and> byte_val c \<le> 90 then char_of (byte_val c + 32) else c)"

definition c_toupper :: "char \<Rightarrow> char" where
  "c_toupper c = (if 97 \<le> byte_val c \<and> byte_val c \<le> 122 then char_of (byte_val c - 32) else c)"

text \<open>The value of a digit in bases up to 36.\<close>

definition digit_val :: "char \<Rightarrow> nat option" where
  "digit_val c = (let v = byte_val c in
     if 48 \<le> v \<and> v \<le> 57 then Some (v - 48)
     else if 65 \<le> v \<and> v \<le> 90 then Some (v - 55)
     else if 97 \<le> v \<and> v \<le> 122 then Some (v - 87) else None)"

definition is_digit_of :: "nat \<Rightarrow> char \<Rightarrow> bool" where
  "is_digit_of b c = (case digit_val c of None \<Rightarrow> False | Some d \<Rightarrow> d < b)"

definition c_isxdigit :: "char \<Rightarrow> bool" where
  "c_isxdigit c = is_digit_of 16 c"

lemma c_isdigit_iff [chars]: "c_isdigit c \<longleftrightarrow> is_digit_of 10 c"
  by (auto simp: c_isdigit_def is_digit_of_def digit_val_def Let_def)

lemma c_tolower_idem [chars, simp]: "c_tolower (c_tolower c) = c_tolower c"
  by (auto simp: c_tolower_def)

lemma c_toupper_idem [chars, simp]: "c_toupper (c_toupper c) = c_toupper c"
  by (auto simp: c_toupper_def)

lemma c_toupper_tolower [chars, simp]: "c_toupper (c_tolower c) = c_toupper c"
  by (auto simp: c_tolower_def c_toupper_def)

lemma c_tolower_toupper [chars, simp]: "c_tolower (c_toupper c) = c_tolower c"
  by (auto simp: c_tolower_def c_toupper_def)

lemma tolower_eq_iff_toupper_eq [chars]:
  "c_tolower c = c_tolower d \<longleftrightarrow> c_toupper c = c_toupper d"
  by (metis c_toupper_tolower c_tolower_toupper)

section \<open>Comparison and search\<close>

text \<open>\<open>strcasecmp(s,t) == 0\<close> on the bytes of two C strings.\<close>

definition strcaseeq :: "bytes \<Rightarrow> bytes \<Rightarrow> bool" where
  "strcaseeq s t \<longleftrightarrow> map c_tolower s = map c_tolower t"

lemma strcaseeq_refl [simp]: "strcaseeq s s"
  by (simp add: strcaseeq_def)

lemma strcaseeq_sym: "strcaseeq s t \<longleftrightarrow> strcaseeq t s"
  by (auto simp: strcaseeq_def)

lemma strcaseeq_trans: "strcaseeq s t \<Longrightarrow> strcaseeq t u \<Longrightarrow> strcaseeq s u"
  by (simp add: strcaseeq_def)

fun strcasestr :: "bytes \<Rightarrow> bytes \<Rightarrow> nat option" where
  "strcasestr [] n = (if n = [] then Some 0 else None)"
| "strcasestr (c # cs) n =
     (if strcaseeq (take (length n) (c # cs)) n then Some 0 else map_option Suc (strcasestr cs n))"

fun strchr :: "bytes \<Rightarrow> char \<Rightarrow> nat option" where
  "strchr [] x = None"
| "strchr (c # cs) x = (if c = x then Some 0 else map_option Suc (strchr cs x))"

text \<open>The last occurrence: \<open>strrchr\<close> and \<open>std::string::rfind\<close>.\<close>

definition strrchr :: "bytes \<Rightarrow> char \<Rightarrow> nat option" where
  "strrchr s x = map_option (\<lambda>i. length s - Suc i) (strchr (rev s) x)"

lemma strcasestr_SomeD:
  "strcasestr s n = Some i \<Longrightarrow> i + length n \<le> length s \<and> strcaseeq (slice s i (length n)) n"
proof (induction s n arbitrary: i rule: strcasestr.induct)
  case (2 c cs n)
  show ?case
  proof (cases "strcaseeq (take (length n) (c # cs)) n")
    case True
    then have "length (take (length n) (c # cs)) = length n"
      by (metis length_map strcaseeq_def)
    with True "2.prems" show ?thesis by (auto simp: slice_def)
  next
    case False
    with 2 show ?thesis by (fastforce simp: slice_def)
  qed
qed (auto split: if_splits)

lemma strchr_Some_iff:
  "strchr s x = Some i \<longleftrightarrow> i < length s \<and> s ! i = x \<and> x \<notin> set (take i s)"
proof (induction s x arbitrary: i rule: strchr.induct)
  case (2 c cs x)
  then show ?case by (cases i) auto
qed simp

lemma strchr_None_iff: "strchr s x = None \<longleftrightarrow> x \<notin> set s"
  by (induction s x rule: strchr.induct) auto

lemma strrchr_SomeD:
  assumes "strrchr s x = Some i"
  shows "i < length s" and "s ! i = x" and "x \<notin> set (drop (Suc i) s)"
proof -
  from assms obtain j where j: "strchr (rev s) x = Some j" and i: "i = length s - Suc j"
    by (auto simp: strrchr_def)
  then have *: "j < length s" "rev s ! j = x" "x \<notin> set (take j (rev s))"
    by (auto simp: strchr_Some_iff)
  then show "i < length s" "s ! i = x" using i by (auto simp: rev_nth)
  show "x \<notin> set (drop (Suc i) s)" using * i by (simp add: take_rev Suc_diff_Suc)
qed

lemma strrchr_None_iff: "strrchr s x = None \<longleftrightarrow> x \<notin> set s"
  by (simp add: strrchr_def strchr_None_iff)

section \<open>Numbers\<close>

definition ULONG_MAX :: nat where "ULONG_MAX = 2 ^ 64 - 1"
definition LONG_MAX :: int where "LONG_MAX = 2 ^ 63 - 1"
definition LONG_MIN :: int where "LONG_MIN = - (2 ^ 63)"

definition num_val :: "nat \<Rightarrow> bytes \<Rightarrow> nat" where
  "num_val b ds = foldl (\<lambda>a c. a * b + (case digit_val c of Some d \<Rightarrow> d | None \<Rightarrow> 0)) 0 ds"

text \<open>The prefix \<open>0x\<close> is skipped in base 16 when a hexadecimal digit follows it.\<close>

fun strip_0x :: "bytes \<Rightarrow> bytes" where
  "strip_0x (z # x # h # r) =
     (if z = CHR ''0'' \<and> (x = CHR ''x'' \<or> x = CHR ''X'') \<and> c_isxdigit h then h # r
      else z # x # h # r)"
| "strip_0x s = s"

text \<open>
  What \<open>strtol\<close> and \<open>strtoul\<close> read: white space, a sign, the digits. \<open>None\<close> when there is
  no digit; else the sign, the magnitude and the offset of the end pointer.
\<close>

definition scan_int :: "nat \<Rightarrow> bytes \<Rightarrow> (bool \<times> nat \<times> nat) option" where
  "scan_int b s =
     (let s1 = dropWhile c_isspace s;
          neg = (case s1 of c # _ \<Rightarrow> c = CHR ''-'' | [] \<Rightarrow> False);
          s2 = (case s1 of c # r \<Rightarrow> if c = CHR ''-'' \<or> c = CHR ''+'' then r else s1 | [] \<Rightarrow> []);
          s3 = (if b = 16 then strip_0x s2 else s2);
          ds = takeWhile (is_digit_of b) s3
      in if ds = [] then None
         else Some (neg, num_val b ds, length s - length s3 + length ds))"

text \<open>Value, offset of the end pointer, and whether \<open>errno\<close> is \<open>ERANGE\<close>.\<close>

definition c_strtoul :: "nat \<Rightarrow> bytes \<Rightarrow> nat \<times> nat \<times> bool" where
  "c_strtoul b s = (case scan_int b s of None \<Rightarrow> (0, 0, False)
     | Some (neg, m, e) \<Rightarrow> if m > ULONG_MAX then (ULONG_MAX, e, True)
         else (if neg then (2 ^ 64 - m) mod 2 ^ 64 else m, e, False))"

definition c_strtol :: "nat \<Rightarrow> bytes \<Rightarrow> int \<times> nat \<times> bool" where
  "c_strtol b s = (case scan_int b s of None \<Rightarrow> (0, 0, False)
     | Some (neg, m, e) \<Rightarrow>
         let v = (if neg then - int m else int m)
         in if v > LONG_MAX then (LONG_MAX, e, True)
            else if v < LONG_MIN then (LONG_MIN, e, True) else (v, e, False))"

text \<open>\<open>atoi\<close> is \<open>strtol\<close> in base 10, cut to an \<open>int\<close>.\<close>

definition c_atoi :: "bytes \<Rightarrow> int" where
  "c_atoi s = signed_take_bit 31 (fst (c_strtol 10 s))"

definition digit_char :: "nat \<Rightarrow> char" where
  "digit_char d = char_of (if d < 10 then 48 + d else 55 + d)"

text \<open>\<open>%u\<close>, \<open>%lu\<close> and \<open>%d\<close>.\<close>

fun dec_nat :: "nat \<Rightarrow> bytes" where
  "dec_nat n = (if n < 10 then [digit_char n] else dec_nat (n div 10) @ [digit_char (n mod 10)])"

declare dec_nat.simps [simp del]

definition dec_int :: "int \<Rightarrow> bytes" where
  "dec_int i = (if i < 0 then CHR ''-'' # dec_nat (nat (- i)) else dec_nat (nat i))"

text \<open>\<open>%02X\<close> of an unsigned char.\<close>

definition hex2 :: "char \<Rightarrow> bytes" where
  "hex2 c = [digit_char (byte_val c div 16), digit_char (byte_val c mod 16)]"

lemma digit_val_digit_char [chars, simp]: "d < 36 \<Longrightarrow> digit_val (digit_char d) = Some d"
  by (auto simp: digit_val_def digit_char_def Let_def)

lemma is_digit_of_digit_char [chars, simp]: "d < 36 \<Longrightarrow> is_digit_of b (digit_char d) \<longleftrightarrow> d < b"
  by (simp add: is_digit_of_def)

lemma byte_val_digit_char: "d < 36 \<Longrightarrow> byte_val (digit_char d) = (if d < 10 then 48 + d else 55 + d)"
  by (simp add: digit_char_def)

lemma c_isspace_small: "c_isspace c \<Longrightarrow> byte_val c \<le> 32"
  by (auto simp: c_isspace_def byte_val_def)

lemma digit_char_not_space [chars, simp]: "d < 36 \<Longrightarrow> \<not> c_isspace (digit_char d)"
  using c_isspace_small [of "digit_char d"] by (auto simp: byte_val_digit_char split: if_splits)

lemma digit_char_not_sign [chars, simp]:
  "d < 36 \<Longrightarrow> digit_char d \<noteq> CHR ''-''" "d < 36 \<Longrightarrow> digit_char d \<noteq> CHR ''+''"
  using byte_val_digit_char [of d] by (auto simp: byte_val_def split: if_splits)

text \<open>Printing a number in decimal and reading it back.\<close>

lemma dec_nat_nonempty [simp]: "dec_nat n \<noteq> []"
  by (subst dec_nat.simps) simp

lemma dec_nat_digits: "c \<in> set (dec_nat n) \<Longrightarrow> \<exists>d < 10. c = digit_char d"
proof (induction n rule: dec_nat.induct)
  case (1 n)
  then show ?case
    by (cases "n < 10") (auto simp: dec_nat.simps [of n] intro: exI [of _ "n mod 10"])
qed

lemma dec_nat_is_digit: "c \<in> set (dec_nat n) \<Longrightarrow> is_digit_of 10 c"
  using dec_nat_digits by fastforce

lemma num_val_snoc [simp]:
  "num_val b (ds @ [c]) = num_val b ds * b + (case digit_val c of Some d \<Rightarrow> d | None \<Rightarrow> 0)"
  by (simp add: num_val_def)

lemma num_val_single [simp]: "num_val b [c] = (case digit_val c of Some d \<Rightarrow> d | None \<Rightarrow> 0)"
  by (simp add: num_val_def)

lemma num_val_dec_nat [simp]: "num_val 10 (dec_nat n) = n"
proof (induction n rule: dec_nat.induct)
  case (1 n)
  then show ?case by (cases "n < 10") (auto simp: dec_nat.simps [of n])
qed

lemma takeWhile_digits_dec_nat:
  assumes "r = [] \<or> \<not> is_digit_of 10 (hd r)"
  shows "takeWhile (is_digit_of 10) (dec_nat n @ r) = dec_nat n"
proof -
  have "takeWhile (is_digit_of 10) (dec_nat n @ r) = dec_nat n @ takeWhile (is_digit_of 10) r"
    by (rule takeWhile_append2) (rule dec_nat_is_digit)
  moreover have "takeWhile (is_digit_of 10) r = []" using assms by (cases r) auto
  ultimately show ?thesis by simp
qed

lemma scan_int_dec_nat:
  assumes "r = [] \<or> \<not> is_digit_of 10 (hd r)"
  shows "scan_int 10 (dec_nat n @ r) = Some (False, n, length (dec_nat n))"
proof -
  obtain c cs where d: "dec_nat n = c # cs" by (cases "dec_nat n") auto
  then obtain k where "k < 10" "c = digit_char k" using dec_nat_digits [of c n] by auto
  then have "\<not> c_isspace c" "c \<noteq> CHR ''-''" "c \<noteq> CHR ''+''" by simp_all
  then show ?thesis
    using takeWhile_digits_dec_nat [OF assms, of n] by (simp add: scan_int_def d Let_def)
      (metis d num_val_dec_nat)
qed

lemma c_strtoul_dec_nat:
  assumes "r = [] \<or> \<not> is_digit_of 10 (hd r)" and "n \<le> ULONG_MAX"
  shows "c_strtoul 10 (dec_nat n @ r) = (n, length (dec_nat n), False)"
  using assms by (simp add: c_strtoul_def scan_int_dec_nat)

lemma c_strtoul_bound: "fst (c_strtoul b s) \<le> ULONG_MAX"
proof -
  have "(m :: nat) mod 2 ^ 64 \<le> 2 ^ 64 - 1" for m
    using mod_less_divisor [of "2 ^ 64" m] by simp
  then show ?thesis by (auto simp: c_strtoul_def ULONG_MAX_def split: option.splits)
qed

end
