(* ===== verification/Base_String.thy ===== *)
theory Base_String
  imports CLib
begin

text \<open>
  The string helpers of \<open>base/cstring.h\<close>, \<open>base/cstring.cpp\<close> and \<open>base/util.cpp\<close>: the checked
  number conversions, case conversion in place, trimming, the number of digits of a
  size, and the directory and file part of the path of the executable.
\<close>

section \<open>Number conversion\<close>

text \<open>
  Success and the value stored in \<open>val\<close>, which is written in either case. The C library
  sets \<open>errno\<close> to \<open>ERANGE\<close> only, for the bases in use.
\<close>

definition base_strtol :: "bytes \<Rightarrow> nat \<Rightarrow> bool \<Rightarrow> bool \<times> int" where
  "base_strtol str base check_safe =
     (case c_strtol base str of (val, end, erange) \<Rightarrow>
        if erange then (False, val)
        else if end = 0 then (False, val)
        else if check_safe \<and> end < length str then (False, val)
        else (True, val))"

definition base_strtoul :: "bytes \<Rightarrow> nat \<Rightarrow> bool \<Rightarrow> bool \<times> nat" where
  "base_strtoul str base check_safe =
     (case c_strtoul base str of (val, end, erange) \<Rightarrow>
        if erange then (False, val)
        else if end = 0 then (False, val)
        else if check_safe \<and> end < length str then (False, val)
        else (True, val))"

section \<open>Case conversion\<close>

text \<open>On a buffer: the bytes before the terminator change, the rest stays.\<close>

fun strupr :: "bytes \<Rightarrow> bytes" where
  "strupr [] = []"
| "strupr (c # s) = (if c = NUL then c # s else c_toupper c # strupr s)"

fun strupr_n :: "bytes \<Rightarrow> nat \<Rightarrow> bytes" where
  "strupr_n [] len = []"
| "strupr_n (c # s) 0 = c # s"
| "strupr_n (c # s) (Suc len) = (if c = NUL then c # s else c_toupper c # strupr_n s len)"

fun strlwr :: "bytes \<Rightarrow> bytes" where
  "strlwr [] = []"
| "strlwr (c # s) = (if c = NUL then c # s else c_tolower c # strlwr s)"

fun strlwr_n :: "bytes \<Rightarrow> nat \<Rightarrow> bytes" where
  "strlwr_n [] len = []"
| "strlwr_n (c # s) 0 = c # s"
| "strlwr_n (c # s) (Suc len) = (if c = NUL then c # s else c_tolower c # strlwr_n s len)"

section \<open>Trimming\<close>

definition is_trim_space :: "char \<Rightarrow> bool" where
  "is_trim_space c \<longleftrightarrow> c = SP \<or> c = TAB \<or> c = CR \<or> c = LF \<or> c = CHR 0x0C \<or> c = CHR 0x0B"

fun trim_left :: "bytes \<Rightarrow> bytes" where
  "trim_left [] = []"
| "trim_left (c # s) = (if is_trim_space c then trim_left s else c # s)"

text \<open>The reverse iterator erases the last character while it is white space.\<close>

definition trim_right :: "bytes \<Rightarrow> bytes" where
  "trim_right s = rev (trim_left (rev s))"

definition trim :: "bytes \<Rightarrow> bytes" where
  "trim s = trim_right (trim_left s)"

definition trim_copy :: "bytes \<Rightarrow> bytes" where
  "trim_copy s = trim s"

section \<open>Digits and paths\<close>

text \<open>
  \<open>None\<close> when the assertion fails (base 0) or the loop does not end (base 1, digit not 0).
\<close>

function get_digit_len :: "nat \<Rightarrow> nat \<Rightarrow> nat option" where
  "get_digit_len digit base =
     (if base = 0 then None
      else if digit div base = 0 then Some 1
      else if base = 1 then None
      else map_option Suc (get_digit_len (digit div base) base))"
  by pat_completeness auto
termination
proof (relation "measure fst")
  fix digit base :: nat
  assume "base \<noteq> 0" "digit div base \<noteq> 0" "base \<noteq> 1"
  then have "1 < base" "0 < digit" by (auto intro: Nat.gr0I)
  then show "((digit div base, base), digit, base) \<in> measure fst" by simp
qed simp

declare get_digit_len.simps [simp del]

text \<open>
  \<open>readlink\<close> is the operating system's: its result, a path or a failure, is a parameter.
  \<open>str\<close> has \<open>PATH_MAX + 1\<close> characters (4097), all NUL before the call: \<open>get_exe_path\<close>
  leaves it at that size with the path in front.
\<close>

definition PATH_MAX :: nat where "PATH_MAX = 4096"

definition get_exe_path :: "bytes option \<Rightarrow> bytes option" where
  "get_exe_path link = (case link of None \<Rightarrow> None
     | Some path \<Rightarrow> if length path \<ge> PATH_MAX + 1 then None
         else Some (path @ replicate (PATH_MAX + 1 - length path) NUL))"

definition get_exe_name :: "bytes option \<Rightarrow> bytes option" where
  "get_exe_name link = (case get_exe_path link of None \<Rightarrow> None
     | Some str \<Rightarrow> (case strrchr str (CHR ''/'') of Some pos \<Rightarrow> Some (drop (pos + 1) str) | None \<Rightarrow> Some str))"

definition get_exe_dir :: "bytes option \<Rightarrow> bool \<Rightarrow> bytes option" where
  "get_exe_dir link except_backslash = (case get_exe_path link of None \<Rightarrow> None
     | Some str \<Rightarrow> (case strrchr str (CHR ''/'') of None \<Rightarrow> None
         | Some pos \<Rightarrow> Some (take (if except_backslash then pos else pos + 1) str)))"

section \<open>Lemmas\<close>

lemma trim_left_decomp: "\<exists>ws. s = ws @ trim_left s \<and> list_all is_trim_space ws"
proof (induction s)
  case (Cons c s)
  then obtain ws where "s = ws @ trim_left s" "list_all is_trim_space ws" by blast
  then show ?case by (cases "is_trim_space c") (auto intro: exI [of _ "c # ws"])
qed simp

lemma trim_left_hd: "trim_left s = c # r \<Longrightarrow> \<not> is_trim_space c"
  by (induction s) (auto split: if_splits)

lemma trim_left_id: "s = [] \<or> \<not> is_trim_space (hd s) \<Longrightarrow> trim_left s = s"
  by (cases s) auto

lemma trim_right_decomp: "\<exists>ws. s = trim_right s @ ws \<and> list_all is_trim_space ws"
proof -
  obtain ws where ws: "rev s = ws @ trim_left (rev s)" "list_all is_trim_space ws"
    using trim_left_decomp by blast
  have "s = trim_right s @ rev ws" using arg_cong [OF ws(1), of rev] by (simp add: trim_right_def)
  then show ?thesis using ws(2) by (intro exI [of _ "rev ws"]) (simp add: list_all_iff)
qed

lemma trim_right_last:
  assumes "trim_right s = r @ [c]"
  shows "\<not> is_trim_space c"
proof -
  have "trim_left (rev s) = c # rev r" using arg_cong [OF assms, of rev] by (simp add: trim_right_def)
  then show ?thesis by (rule trim_left_hd)
qed

lemma trim_right_id: "s = [] \<or> \<not> is_trim_space (last s) \<Longrightarrow> trim_right s = s"
  by (simp add: trim_right_def trim_left_id hd_rev)

lemma trim_right_hd: "trim_right s \<noteq> [] \<Longrightarrow> hd (trim_right s) = hd s"
  using trim_right_decomp [of s] by (cases "trim_right s") auto

text \<open>Nothing to trim: both ends are no white space.\<close>

definition trimmed :: "bytes \<Rightarrow> bool" where
  "trimmed s \<longleftrightarrow> s = [] \<or> (\<not> is_trim_space (hd s) \<and> \<not> is_trim_space (last s))"

lemma trim_trimmed: "trimmed (trim s)"
proof (cases "trim s" rule: rev_cases)
  case (snoc r c)
  then have "\<not> is_trim_space c" using trim_right_last by (simp add: trim_def)
  moreover have "trim_left s \<noteq> []" using snoc by (auto simp: trim_def trim_right_def)
  then have "\<not> is_trim_space (hd (trim_left s))" using trim_left_hd by (cases "trim_left s") auto
  then have "\<not> is_trim_space (hd (trim s))" using snoc trim_right_hd [of "trim_left s"] by (simp add: trim_def)
  ultimately show ?thesis using snoc by (simp add: trimmed_def)
qed (simp add: trimmed_def)

lemma trim_id [simp]: "trimmed s \<Longrightarrow> trim s = s"
  by (auto simp: trim_def trimmed_def trim_left_id trim_right_id)

lemma trim_idem [simp]: "trim (trim s) = trim s"
  using trim_trimmed by simp

lemma trim_left_all: "list_all is_trim_space a \<Longrightarrow> trim_left (a @ b) = trim_left b"
  by (induction a) auto

lemma trim_surround:
  assumes "trimmed s" and "list_all is_trim_space a" and "list_all is_trim_space b"
  shows "trim (a @ s @ b) = s"
proof (cases "s = []")
  case True
  have "trim_left (a @ b) = []"
    using trim_left_all [OF assms(2), of b] trim_left_all [OF assms(3), of "[]"] by simp
  then show ?thesis using True by (simp add: trim_def trim_right_def)
next
  case False
  have l: "trim_left (a @ s @ b) = s @ b"
    using assms(1,2) False by (simp add: trim_left_all trimmed_def trim_left_id)
  have "list_all is_trim_space (rev b)" using assms(3) by (simp add: list_all_iff)
  then have "trim_left (rev b @ rev s) = rev s"
    using assms(1) False by (simp add: trim_left_all trimmed_def trim_left_id hd_rev)
  then show ?thesis using l by (simp add: trim_def trim_right_def)
qed

lemma get_digit_len_dec: "get_digit_len n 10 = Some (length (dec_nat n))"
proof (induction n rule: dec_nat.induct)
  case (1 n)
  then show ?case
    by (cases "n < 10") (simp_all add: get_digit_len.simps [of n] dec_nat.simps [of n])
qed

lemma base_strtoul_dec_nat:
  assumes "r = [] \<or> \<not> is_digit_of 10 (hd r)" and "n \<le> ULONG_MAX"
  shows "base_strtoul (dec_nat n @ r) 10 False = (True, n)"
  using c_strtoul_dec_nat [OF assms] by (simp add: base_strtoul_def)

end
