(* ===== verification/Str_Hash.thy ===== *)
theory Str_Hash
  imports CLib
begin

unbundle bit_operations_syntax

text \<open>
  The string hash functions of \<open>base/str_hash.h\<close> and \<open>base/str_hash.cpp\<close>, on 32-bit
  unsigned words that wrap around. The conversion \<open>func\<close> is a parameter, as in the
  code: \<open>default_char_conv\<close> keeps the (sign-extended) character, \<open>toupper\<close> folds its case.
  \<open>core/typedef.h\<close> keys every string-hashed container with \<open>bkdr_hash(s, toupper)\<close>.
\<close>

type_synonym u32 = "32 word"

section \<open>The hash functions\<close>

definition default_char_conv :: "char \<Rightarrow> u32" where
  "default_char_conv c = word_of_int (c_int c)"

definition toupper_conv :: "char \<Rightarrow> u32" where
  "toupper_conv c = word_of_int (c_int (c_toupper c))"

definition mask31 :: "u32 \<Rightarrow> u32" where
  "mask31 h = h AND 0x7fffffff"

definition simple_hash :: "(char \<Rightarrow> u32) \<Rightarrow> bytes \<Rightarrow> u32" where
  "simple_hash f s = mask31 (foldl (\<lambda>h c. 31 * h + f c) 0 (cstr s))"

definition rs_step :: "(char \<Rightarrow> u32) \<Rightarrow> u32 \<times> u32 \<Rightarrow> char \<Rightarrow> u32 \<times> u32" where
  "rs_step f = (\<lambda>(h, a) c. (h * a + f c, a * 378551))"

definition rs_hash :: "(char \<Rightarrow> u32) \<Rightarrow> bytes \<Rightarrow> u32" where
  "rs_hash f s = mask31 (fst (foldl (rs_step f) (0, 63689) (cstr s)))"

definition js_hash :: "(char \<Rightarrow> u32) \<Rightarrow> bytes \<Rightarrow> u32" where
  "js_hash f s =
     mask31 (foldl (\<lambda>h c. h XOR (push_bit 5 h + f c + drop_bit 2 h)) 1315423911 (cstr s))"

definition pjw_step :: "(char \<Rightarrow> u32) \<Rightarrow> u32 \<Rightarrow> char \<Rightarrow> u32" where
  "pjw_step f h c =
     (let highbits = push_bit (32 - 4) (0xffffffff :: u32);
          h1 = push_bit 4 h + f c;
          test = h1 AND highbits
      in if test \<noteq> 0 then (h1 XOR drop_bit 24 test) AND NOT highbits else h1)"

definition pjw_hash :: "(char \<Rightarrow> u32) \<Rightarrow> bytes \<Rightarrow> u32" where
  "pjw_hash f s = mask31 (foldl (pjw_step f) 0 (cstr s))"

definition elf_step :: "(char \<Rightarrow> u32) \<Rightarrow> u32 \<Rightarrow> char \<Rightarrow> u32" where
  "elf_step f h c =
     (let h1 = push_bit 4 h + f c;
          x = h1 AND 0xf0000000
      in if x \<noteq> 0 then (h1 XOR drop_bit 24 x) AND NOT x else h1)"

definition elf_hash :: "(char \<Rightarrow> u32) \<Rightarrow> bytes \<Rightarrow> u32" where
  "elf_hash f s = mask31 (foldl (elf_step f) 0 (cstr s))"

definition bkdr_hash :: "(char \<Rightarrow> u32) \<Rightarrow> bytes \<Rightarrow> u32" where
  "bkdr_hash f s = mask31 (foldl (\<lambda>h c. h * 131 + f c) 0 (cstr s))"

definition sdbm_hash :: "(char \<Rightarrow> u32) \<Rightarrow> bytes \<Rightarrow> u32" where
  "sdbm_hash f s = mask31 (foldl (\<lambda>h c. f c + push_bit 6 h + push_bit 16 h - h) 0 (cstr s))"

definition djb_hash :: "(char \<Rightarrow> u32) \<Rightarrow> bytes \<Rightarrow> u32" where
  "djb_hash f s = mask31 (foldl (\<lambda>h c. h + (push_bit 5 h + f c)) 5381 (cstr s))"

definition ap_step :: "(char \<Rightarrow> u32) \<Rightarrow> u32 \<times> nat \<Rightarrow> char \<Rightarrow> u32 \<times> nat" where
  "ap_step f = (\<lambda>(h, i) c.
     (if i mod 2 = 0 then h XOR (push_bit 7 h XOR f c XOR drop_bit 3 h)
      else h XOR NOT (push_bit 11 h XOR f c XOR drop_bit 5 h), Suc i))"

definition ap_hash :: "(char \<Rightarrow> u32) \<Rightarrow> bytes \<Rightarrow> u32" where
  "ap_hash f s = mask31 (fst (foldl (ap_step f) (0, 0) (cstr s)))"

text \<open>
  \<open>crc_hash\<close> sums the 16-bit little-endian words of the string in 64 bits, folds the
  carries back and complements.
\<close>

fun crc_sum :: "bytes \<Rightarrow> 64 word" where
  "crc_sum (a # b # r) = of_nat (byte_val a + 256 * byte_val b) + crc_sum r"
| "crc_sum [a] = of_nat (byte_val a)"
| "crc_sum [] = 0"

definition crc_hash :: "bytes \<Rightarrow> u32" where
  "crc_hash s =
     (let sum = crc_sum (cstr s);
          sum1 = drop_bit 16 sum + (sum AND 0xffff);
          sum2 = sum1 + drop_bit 16 sum1;
          answer = (ucast (NOT sum2) :: 16 word)
      in ucast answer AND 0xffffffff)"

text \<open>The hasher of every string-keyed container (\<open>struct hash\<close> of \<open>core/typedef.h\<close>).\<close>

definition str_hash_fun :: "bytes \<Rightarrow> u32" where
  "str_hash_fun s = bkdr_hash toupper_conv s"

section \<open>Bounds\<close>

lemma mask31_take_bit: "mask31 h = take_bit 31 h"
proof -
  have "(0x7fffffff :: u32) = mask 31" by (simp add: mask_eq_exp_minus_1)
  then show ?thesis by (simp add: mask31_def take_bit_eq_mask)
qed

lemma unat_take_bit_less: "unat (take_bit n (h :: u32)) < 2 ^ n"
  by (simp add: unsigned_take_bit_eq)

lemma unat_mask31_less: "unat (mask31 h) < 2 ^ 31"
  unfolding mask31_take_bit by (rule unat_take_bit_less)

lemmas hash_defs = simple_hash_def rs_hash_def js_hash_def pjw_hash_def elf_hash_def bkdr_hash_def
  sdbm_hash_def djb_hash_def ap_hash_def

section \<open>Case folding\<close>

lemma map_toupper_eq: "strcaseeq s t \<longleftrightarrow> map c_toupper s = map c_toupper t"
  unfolding strcaseeq_def
proof (induction s arbitrary: t)
  case (Cons c s)
  then show ?case by (cases t) (auto simp: tolower_eq_iff_toupper_eq)
qed simp

lemma foldl_toupper:
  "foldl (\<lambda>h c. g h (toupper_conv c)) a s
     = foldl (\<lambda>h c. g h (word_of_int (c_int c))) a (map c_toupper s)"
  by (induction s arbitrary: a) (simp_all add: toupper_conv_def)

lemma c_toupper_NUL_iff [simp]: "c_toupper c = NUL \<longleftrightarrow> c = NUL"
  by (auto simp: c_toupper_def byte_val_def of_char_def char_of_def) 

section \<open>The ELF and PJW hashes are the same function\<close>

lemma high_nibble: "(0xf0000000 :: u32) = NOT (mask 28)"
  by (simp add: mask_eq_exp_minus_1)

lemma pjw_high_nibble: "push_bit (32 - 4) (0xffffffff :: u32) = NOT (mask 28)"
  by (simp add: mask_eq_exp_minus_1)

lemma elf_step_take_bit: "take_bit 28 (elf_step f h c) = elf_step f h c"
proof (rule bit_eqI)
  fix n assume n: "possible_bit TYPE(u32) n"
  let ?h = "push_bit 4 h + f c"
  have z: "\<not> bit ?h n" if "?h AND NOT (mask 28) = 0" "28 \<le> n"
    using that n by (metis bit_0_eq bit_and_iff bit_mask_iff bit_not_iff bot_apply bot_bool_def not_less)
  show "bit (take_bit 28 (elf_step f h c)) n = bit (elf_step f h c) n"
    using n z by (cases "n < 28") (auto simp: elf_step_def Let_def high_nibble bit_simps not_less)
qed

lemma pjw_step_eq_elf_step: "pjw_step f h c = elf_step f h c"
proof -
  let ?h = "push_bit 4 h + f c"
  have "(?h XOR drop_bit 24 (?h AND NOT (mask 28))) AND NOT (NOT (mask 28))
      = (?h XOR drop_bit 24 (?h AND NOT (mask 28))) AND NOT (?h AND NOT (mask 28))"
    by (rule bit_eqI) (auto simp: bit_simps)
  then show ?thesis
    unfolding pjw_step_def elf_step_def Let_def high_nibble pjw_high_nibble by simp
qed

lemma elf_fold_take_bit: "take_bit 28 h = h \<Longrightarrow> take_bit 28 (foldl (elf_step f) h s) = foldl (elf_step f) h s"
  by (induction s arbitrary: h) (simp_all add: elf_step_take_bit)

lemma pjw_fold_eq_elf_fold: "foldl (pjw_step f) h s = foldl (elf_step f) h s"
  by (induction s arbitrary: h) (simp_all add: pjw_step_eq_elf_step)

text \<open>
  The two hashes of the code agree on every string, and neither sets one of the four
  high bits: the final mask \<open>0x7fffffff\<close> changes nothing.
\<close>

lemma elf_hash_28: "elf_hash f s = foldl (elf_step f) 0 (cstr s)" "unat (elf_hash f s) < 2 ^ 28"
proof -
  let ?h = "foldl (elf_step f) 0 (cstr s)"
  have t: "take_bit 28 ?h = ?h" by (rule elf_fold_take_bit) simp
  have "take_bit 31 (take_bit 28 ?h) = take_bit 28 ?h" by simp
  then show *: "elf_hash f s = ?h" by (simp add: elf_hash_def mask31_take_bit t)
  show "unat (elf_hash f s) < 2 ^ 28" using unat_take_bit_less [of 28 ?h] t * by simp
qed

lemma pjw_hash_eq_elf_hash: "pjw_hash f s = elf_hash f s"
  by (simp add: pjw_hash_def elf_hash_def pjw_fold_eq_elf_fold)

text \<open>The hasher of the containers folds case.\<close>

lemma map_toupper_cstr: "map c_toupper (cstr s) = cstr (map c_toupper s)"
  by (simp add: cstr_def takeWhile_map comp_def)

lemma str_hash_fun_strcaseeq:
  assumes "strcaseeq (cstr s) (cstr t)"
  shows "str_hash_fun s = str_hash_fun t"
  using assms
  by (simp add: str_hash_fun_def bkdr_hash_def foldl_toupper [where g = "\<lambda>h x. h * 131 + x"]
      map_toupper_eq)

lemma crc_hash_less: "unat (crc_hash s) < 2 ^ 16"
proof -
  have "unat (ucast (a :: 16 word) AND 0xffffffff :: u32) < 2 ^ 16" for a
  proof -
    have "(0xffffffff :: u32) = -1" by simp
    then have "(ucast a AND 0xffffffff :: u32) = ucast a" by (simp only: bit.conj_one_right)
    moreover have "take_bit 32 (unat a) < 2 ^ 16"
      using order_le_less_trans [OF take_bit_nat_less_eq_self [of 32 "unat a"], of "2 ^ 16"]
        unsigned_less [of a] by simp
    ultimately show ?thesis by (simp add: unsigned_ucast_eq)
  qed
  then show ?thesis by (simp add: crc_hash_def Let_def)
qed

end
