(* ===== verification/Timeval.thy ===== *)
theory Timeval
  imports Prelude
begin

text \<open>
  Time values, \<open>base/timeval.h\<close> and \<open>base/timeval.cpp\<close>: normalisation, arithmetic and the
  comparison operators, against the lexicographic order of seconds and microseconds. The
  two members are mathematical integers: the code adds small numbers to \<open>long\<close>s.
\<close>

section \<open>Operations\<close>

datatype timeval = Timeval (tv_sec: int) (tv_usec: int)

definition ONE_SECOND_IN_USECS :: int where "ONE_SECOND_IN_USECS = 1000000"

function carry_up :: "timeval \<Rightarrow> timeval" where
  "carry_up t = (if tv_usec t \<ge> ONE_SECOND_IN_USECS
     then carry_up (Timeval (tv_sec t + 1) (tv_usec t - ONE_SECOND_IN_USECS)) else t)"
  by auto
termination
  by (relation "measure (\<lambda>t. nat (tv_usec t))") (auto simp: ONE_SECOND_IN_USECS_def)

function carry_down :: "timeval \<Rightarrow> timeval" where
  "carry_down t = (if tv_usec t \<le> - ONE_SECOND_IN_USECS
     then carry_down (Timeval (tv_sec t - 1) (tv_usec t + ONE_SECOND_IN_USECS)) else t)"
  by auto
termination
  by (relation "measure (\<lambda>t. nat (- tv_usec t))") (auto simp: ONE_SECOND_IN_USECS_def)

declare carry_up.simps [simp del] carry_down.simps [simp del]

definition timeval_normalize :: "timeval \<Rightarrow> timeval" where
  "timeval_normalize t =
     (let t1 = (if tv_usec t \<ge> ONE_SECOND_IN_USECS then carry_up t
                else if tv_usec t \<le> - ONE_SECOND_IN_USECS then carry_down t else t)
      in if tv_sec t1 \<ge> 1 \<and> tv_usec t1 < 0
         then Timeval (tv_sec t1 - 1) (tv_usec t1 + ONE_SECOND_IN_USECS) else t1)"

definition timeval_t :: "int \<Rightarrow> int \<Rightarrow> timeval" where
  "timeval_t sec usec = timeval_normalize (Timeval sec usec)"

definition tv_add_assign :: "timeval \<Rightarrow> timeval \<Rightarrow> timeval" where
  "tv_add_assign t1 t2 = timeval_normalize (Timeval (tv_sec t1 + tv_sec t2) (tv_usec t1 + tv_usec t2))"

definition tv_sub_assign :: "timeval \<Rightarrow> timeval \<Rightarrow> timeval" where
  "tv_sub_assign t1 t2 = timeval_normalize (Timeval (tv_sec t1 - tv_sec t2) (tv_usec t1 - tv_usec t2))"

definition tv_add :: "timeval \<Rightarrow> timeval \<Rightarrow> timeval" where
  "tv_add t1 t2 = timeval_t (tv_sec t1 + tv_sec t2) (tv_usec t1 + tv_usec t2)"

definition tv_sub :: "timeval \<Rightarrow> timeval \<Rightarrow> timeval" where
  "tv_sub t1 t2 = timeval_t (tv_sec t1 - tv_sec t2) (tv_usec t1 - tv_usec t2)"

definition tv_eq :: "timeval \<Rightarrow> timeval \<Rightarrow> bool" where
  "tv_eq t1 t2 = (let t = timeval_t (tv_sec t1 - tv_sec t2) (tv_usec t1 - tv_usec t2) in 0 = tv_sec t \<and> 0 = tv_usec t)"

definition tv_neq :: "timeval \<Rightarrow> timeval \<Rightarrow> bool" where
  "tv_neq t1 t2 = (\<not> tv_eq t1 t2)"

definition tv_less :: "timeval \<Rightarrow> timeval \<Rightarrow> bool" where
  "tv_less t1 t2 = (let t = tv_sub t1 t2 in tv_sec t < 0)"

definition tv_greater :: "timeval \<Rightarrow> timeval \<Rightarrow> bool" where
  "tv_greater t1 t2 = (let t = tv_sub t1 t2 in (0 = tv_sec t \<and> tv_usec t > 0) \<or> tv_sec t > 0)"

definition tv_le :: "timeval \<Rightarrow> timeval \<Rightarrow> bool" where
  "tv_le t1 t2 = (\<not> tv_greater t1 t2)"

definition tv_ge :: "timeval \<Rightarrow> timeval \<Rightarrow> bool" where
  "tv_ge t1 t2 = (\<not> tv_less t1 t2)"

section \<open>Normal form\<close>

text \<open>The number of microseconds a value stands for, and the values with a proper fraction.\<close>

definition tv_total :: "timeval \<Rightarrow> int" where
  "tv_total t = tv_sec t * ONE_SECOND_IN_USECS + tv_usec t"

definition tv_proper :: "timeval \<Rightarrow> bool" where
  "tv_proper t \<longleftrightarrow> 0 \<le> tv_usec t \<and> tv_usec t < ONE_SECOND_IN_USECS"

lemma carry_up_facts:
  "tv_total (carry_up t) = tv_total t \<and> tv_usec (carry_up t) < ONE_SECOND_IN_USECS \<and>
   (0 \<le> tv_usec t \<longrightarrow> 0 \<le> tv_usec (carry_up t))"
proof (induction t rule: carry_up.induct)
  case (1 t)
  then show ?case
    by (subst carry_up.simps, subst (2) carry_up.simps, subst (3) carry_up.simps)
       (auto simp: tv_total_def algebra_simps)
qed

lemma carry_down_facts:
  "tv_total (carry_down t) = tv_total t \<and> - ONE_SECOND_IN_USECS < tv_usec (carry_down t) \<and>
   (tv_usec t \<le> 0 \<longrightarrow> tv_usec (carry_down t) \<le> 0)"
proof (induction t rule: carry_down.induct)
  case (1 t)
  then show ?case
    by (subst carry_down.simps, subst (2) carry_down.simps, subst (3) carry_down.simps)
       (auto simp: tv_total_def algebra_simps)
qed

text \<open>
  Normalising keeps the time a value stands for, brings the microseconds below one
  second in absolute value, and makes them non-negative when the seconds are positive.
\<close>

theorem timeval_normalize_correct:
  "tv_total (timeval_normalize t) = tv_total t \<and> \<bar>tv_usec (timeval_normalize t)\<bar> < ONE_SECOND_IN_USECS \<and>
   (tv_sec (timeval_normalize t) < 1 \<or> 0 \<le> tv_usec (timeval_normalize t))"
  using carry_up_facts [of t] carry_down_facts [of t]
  by (auto simp: timeval_normalize_def Let_def tv_total_def algebra_simps ONE_SECOND_IN_USECS_def)

section \<open>The intended order\<close>

instantiation timeval :: linorder
begin

definition less_eq_timeval :: "timeval \<Rightarrow> timeval \<Rightarrow> bool" where
  "less_eq_timeval s t \<longleftrightarrow> tv_sec s < tv_sec t \<or> tv_sec s = tv_sec t \<and> tv_usec s \<le> tv_usec t"

definition less_timeval :: "timeval \<Rightarrow> timeval \<Rightarrow> bool" where
  "less_timeval s t \<longleftrightarrow> tv_sec s < tv_sec t \<or> tv_sec s = tv_sec t \<and> tv_usec s < tv_usec t"

instance
  by standard (auto simp: less_eq_timeval_def less_timeval_def timeval.expand)

end

lemma tv_sub_proper:
  assumes "tv_proper t1" "tv_proper t2"
  shows "tv_sub t1 t2 =
     (let s = tv_sec t1 - tv_sec t2; u = tv_usec t1 - tv_usec t2
      in if s \<ge> 1 \<and> u < 0 then Timeval (s - 1) (u + ONE_SECOND_IN_USECS) else Timeval s u)"
  using assms by (auto simp: tv_sub_def timeval_t_def timeval_normalize_def tv_proper_def Let_def)

text \<open>
  On proper values \<open>>\<close>, \<open><=\<close>, \<open>==\<close> and \<open>!=\<close> are the order they stand for, while \<open><\<close> and
  \<open>>=\<close> compare whole seconds only.
\<close>

theorem timeval_comparisons:
  assumes "tv_proper t1" "tv_proper t2"
  shows "(tv_greater t1 t2 \<longleftrightarrow> t2 < t1) \<and> (tv_le t1 t2 \<longleftrightarrow> t1 \<le> t2) \<and> (tv_eq t1 t2 \<longleftrightarrow> t1 = t2) \<and>
    (tv_neq t1 t2 \<longleftrightarrow> t1 \<noteq> t2) \<and> (tv_less t1 t2 \<longleftrightarrow> tv_sec t1 < tv_sec t2) \<and>
    (tv_ge t1 t2 \<longleftrightarrow> tv_sec t2 \<le> tv_sec t1)"
proof -
  obtain s1 u1 s2 u2 where t: "t1 = Timeval s1 u1" "t2 = Timeval s2 u2" by (cases t1; cases t2)
  have sub: "timeval_t (s1 - s2) (u1 - u2) =
     (if s1 - s2 \<ge> 1 \<and> u1 - u2 < 0 then Timeval (s1 - s2 - 1) (u1 - u2 + ONE_SECOND_IN_USECS) else Timeval (s1 - s2) (u1 - u2))"
    using tv_sub_proper [OF assms] by (simp add: t tv_sub_def Let_def)
  have g: "tv_greater t1 t2 \<longleftrightarrow> t2 < t1"
    using assms by (auto simp: t tv_greater_def tv_sub_def sub less_timeval_def tv_proper_def Let_def)
  have e: "tv_eq t1 t2 \<longleftrightarrow> t1 = t2"
    using assms by (auto simp: t tv_eq_def sub tv_proper_def Let_def)
  have l: "tv_less t1 t2 \<longleftrightarrow> tv_sec t1 < tv_sec t2"
    using assms by (auto simp: t tv_less_def tv_sub_def sub tv_proper_def Let_def)
  show ?thesis using g e l by (auto simp: tv_le_def tv_ge_def tv_neq_def)
qed

theorem timeval_comparisons_witness:
  "\<not> tv_less (Timeval 0 100) (Timeval 0 200) \<and> Timeval 0 100 < Timeval 0 200 \<and>
   tv_greater (Timeval 0 200) (Timeval 0 100)"
  using timeval_comparisons [of "Timeval 0 100" "Timeval 0 200"] timeval_comparisons [of "Timeval 0 200" "Timeval 0 100"]
  by (simp add: tv_proper_def ONE_SECOND_IN_USECS_def less_timeval_def)

end
