(* ===== verification/Http_Uri.thy ===== *)
theory Http_Uri
  imports CLib
begin

text \<open>
  The URI codec of \<open>core/http.cpp\<close>: the table of unreserved bytes, the encoder, the
  copying decoder and the decoder that works in place. Memory is the list of bytes that
  starts at the pointer argument: it holds the \<open>len\<close> bytes of the string and whatever
  follows them, because the decoders look up to two bytes ahead. A read past the
  memory, or a \<open>memmove\<close> whose length wraps around, is \<open>None\<close>.
\<close>

section \<open>The table of unreserved bytes\<close>

definition http_uri_table :: "nat list" where
  "http_uri_table = [
    0, 0, 0, 0, 0, 0, 0, 0,   0, 0, 0, 0, 0, 0, 0, 0,
    0, 0, 0, 0, 0, 0, 0, 0,   0, 0, 0, 0, 0, 0, 0, 0,
    0, 0, 0, 0, 0, 0, 0, 0,   0, 0, 0, 0, 0, 1, 1, 0,
    1, 1, 1, 1, 1, 1, 1, 1,   1, 1, 0, 0, 0, 0, 0, 0,

    0, 1, 1, 1, 1, 1, 1, 1,   1, 1, 1, 1, 1, 1, 1, 1,
    1, 1, 1, 1, 1, 1, 1, 1,   1, 1, 1, 0, 0, 0, 0, 1,
    0, 1, 1, 1, 1, 1, 1, 1,   1, 1, 1, 1, 1, 1, 1, 1,
    1, 1, 1, 1, 1, 1, 1, 1,   1, 1, 1, 0, 0, 0, 1, 0,

    0, 0, 0, 0, 0, 0, 0, 0,   0, 0, 0, 0, 0, 0, 0, 0,
    0, 0, 0, 0, 0, 0, 0, 0,   0, 0, 0, 0, 0, 0, 0, 0,
    0, 0, 0, 0, 0, 0, 0, 0,   0, 0, 0, 0, 0, 0, 0, 0,
    0, 0, 0, 0, 0, 0, 0, 0,   0, 0, 0, 0, 0, 0, 0, 0,

    0, 0, 0, 0, 0, 0, 0, 0,   0, 0, 0, 0, 0, 0, 0, 0,
    0, 0, 0, 0, 0, 0, 0, 0,   0, 0, 0, 0, 0, 0, 0, 0,
    0, 0, 0, 0, 0, 0, 0, 0,   0, 0, 0, 0, 0, 0, 0, 0,
    0, 0, 0, 0, 0, 0, 0, 0,   0, 0, 0, 0, 0, 0, 0, 0]"

definition char_is_unreserved :: "char \<Rightarrow> bool" where
  "char_is_unreserved c \<longleftrightarrow> http_uri_table ! byte_val c \<noteq> 0"

section \<open>Encoding\<close>

fun http_encode_uri_impl :: "bytes \<Rightarrow> bool \<Rightarrow> bytes" where
  "http_encode_uri_impl [] space_as_plus = []"
| "http_encode_uri_impl (c # uri) space_as_plus =
     (if char_is_unreserved c then c # http_encode_uri_impl uri space_as_plus
      else if c = SP \<and> space_as_plus then CHR ''+'' # http_encode_uri_impl uri space_as_plus
      else CHR ''%'' # hex2 c @ http_encode_uri_impl uri space_as_plus)"

text \<open>The two overloads append to \<open>str\<close>; the second takes a C string.\<close>

definition http_encode_uri :: "bytes \<Rightarrow> nat \<Rightarrow> bytes \<Rightarrow> bool \<Rightarrow> bytes" where
  "http_encode_uri uri len str space_as_plus = str @ http_encode_uri_impl (take len uri) space_as_plus"

definition http_encode_uri_cstr :: "bytes \<Rightarrow> bytes \<Rightarrow> bool \<Rightarrow> bytes" where
  "http_encode_uri_cstr uri str space_as_plus = str @ http_encode_uri_impl (cstr uri) space_as_plus"

section \<open>Decoding\<close>

text \<open>\<open>(char)strtol(tmp, NULL, 16)\<close> of two hexadecimal digits.\<close>

definition hex_byte :: "char \<Rightarrow> char \<Rightarrow> char" where
  "hex_byte h1 h2 = char_of (num_val 16 [h1, h2])"

text \<open>
  The copying decoder: \<open>mem\<close> is the memory from \<open>uri + i\<close> on, \<open>n\<close> is \<open>len - i\<close>.
\<close>

fun http_decode_uri_impl :: "bytes \<Rightarrow> nat \<Rightarrow> int \<Rightarrow> bytes option" where
  "http_decode_uri_impl mem 0 decode_plus = Some []"
| "http_decode_uri_impl [] (Suc n) decode_plus = None"
| "http_decode_uri_impl (c # mem) (Suc n) decode_plus =
     (if c = CHR ''?'' then
        map_option (Cons c) (http_decode_uri_impl mem n (if decode_plus < 0 then 1 else decode_plus))
      else if c = CHR ''+'' \<and> decode_plus \<noteq> 0 then
        map_option (Cons SP) (http_decode_uri_impl mem n decode_plus)
      else if c = CHR ''%'' then
        (case mem of [] \<Rightarrow> None
         | h1 # mem1 \<Rightarrow>
             if c_isxdigit h1 then
               (case mem1 of [] \<Rightarrow> None
                | h2 # mem2 \<Rightarrow>
                    if c_isxdigit h2 then
                      map_option (Cons (hex_byte h1 h2))
                        (http_decode_uri_impl mem2 (n - 2) decode_plus)
                    else map_option (Cons c) (http_decode_uri_impl mem n decode_plus))
             else map_option (Cons c) (http_decode_uri_impl mem n decode_plus))
      else map_option (Cons c) (http_decode_uri_impl mem n decode_plus))"

definition http_decode_uri :: "bytes \<Rightarrow> nat \<Rightarrow> bytes \<Rightarrow> int \<Rightarrow> bytes option" where
  "http_decode_uri uri len str decode_plus =
     map_option (\<lambda>d. str @ d) (http_decode_uri_impl uri len decode_plus)"

definition http_decode_uri_cstr :: "bytes \<Rightarrow> bytes \<Rightarrow> int \<Rightarrow> bytes option" where
  "http_decode_uri_cstr uri str decode_plus =
     map_option (\<lambda>d. str @ d) (http_decode_uri_impl uri (length (cstr uri)) decode_plus)"

text \<open>
  The in-place decoder: the byte under the cursor is replaced, and after an escape the
  rest of the string moves down by two bytes
  (\<open>memmove(&uri[i+1], &uri[i+3], len-i-3)\<close>, whose length is a \<open>size_t\<close>).
\<close>

definition memmove_down :: "bytes \<Rightarrow> nat \<Rightarrow> nat \<Rightarrow> nat \<Rightarrow> bytes" where
  "memmove_down mem dst src n =
     take dst mem @ take n (drop src mem) @ drop (dst + n) mem"

function (sequential) decode_inplace_loop :: "bytes \<Rightarrow> nat \<Rightarrow> nat \<Rightarrow> int \<Rightarrow> (bytes \<times> nat) option" where
  "decode_inplace_loop mem i len decode_plus =
     (if \<not> i < len then Some (mem, len)
      else if \<not> i < length mem then None
      else let c = mem ! i in
        if c = CHR ''?'' then
          decode_inplace_loop (mem[i := c]) (Suc i) len (if decode_plus < 0 then 1 else decode_plus)
        else if c = CHR ''+'' \<and> decode_plus \<noteq> 0 then
          decode_inplace_loop (mem[i := SP]) (Suc i) len decode_plus
        else if c = CHR ''%'' then
          (if \<not> i + 1 < length mem then None
           else if c_isxdigit (mem ! (i + 1)) then
             (if \<not> i + 2 < length mem then None
              else if c_isxdigit (mem ! (i + 2)) then
                (if len < i + 3 then None
                 else decode_inplace_loop
                        ((memmove_down mem (i + 1) (i + 3) (len - i - 3))
                           [i := hex_byte (mem ! (i + 1)) (mem ! (i + 2))])
                        (Suc i) (len - 2) decode_plus)
              else decode_inplace_loop (mem[i := c]) (Suc i) len decode_plus)
           else decode_inplace_loop (mem[i := c]) (Suc i) len decode_plus)
        else decode_inplace_loop (mem[i := c]) (Suc i) len decode_plus)"
  by pat_completeness auto
termination
  by (relation "measure (\<lambda>(mem, i, len, p). len - i)") auto

declare decode_inplace_loop.simps [simp del]

text \<open>The memory after the call and the new length.\<close>

definition http_decode_uri_inplace :: "bytes \<Rightarrow> nat \<Rightarrow> int \<Rightarrow> (bytes \<times> nat) option" where
  "http_decode_uri_inplace uri len decode_plus = decode_inplace_loop uri 0 len decode_plus"

definition http_decode_uri_inplace_cstr :: "bytes \<Rightarrow> int \<Rightarrow> (bytes \<times> nat) option" where
  "http_decode_uri_inplace_cstr uri decode_plus =
     http_decode_uri_inplace uri (length (cstr uri)) decode_plus"

section \<open>The table and the encoder\<close>

lemma http_uri_table_map:
  "http_uri_table = map (\<lambda>v. if (48 \<le> v \<and> v \<le> 57) \<or> (65 \<le> v \<and> v \<le> 90) \<or> (97 \<le> v \<and> v \<le> 122)
     \<or> v = 45 \<or> v = 46 \<or> v = 95 \<or> v = 126 then 1 else 0) [0..<256]"
  by (simp add: http_uri_table_def upt_conv_Cons)

lemma char_is_unreserved_iff:
  "char_is_unreserved c \<longleftrightarrow>
     c_isdigit c \<or> (65 \<le> byte_val c \<and> byte_val c \<le> 90) \<or> (97 \<le> byte_val c \<and> byte_val c \<le> 122)
     \<or> byte_val c \<in> {45, 46, 95, 126}"
  by (simp add: char_is_unreserved_def http_uri_table_map c_isdigit_def)

lemma unreserved_plain [simp]:
  assumes "char_is_unreserved c"
  shows "c \<noteq> CHR ''%''" "c \<noteq> CHR ''+''" "c \<noteq> CHR ''?''" "c \<noteq> SP" "c \<noteq> CHR ''&''"
  using assms by (auto simp: char_is_unreserved_iff c_isdigit_def byte_val_def)

lemma hex2_digits:
  "hex2 c = [digit_char (byte_val c div 16), digit_char (byte_val c mod 16)]"
  "byte_val c div 16 < 16" "byte_val c mod 16 < 16"
proof -
  have "byte_val c < 256" by simp
  then show "byte_val c div 16 < 16" by linarith
qed (simp_all add: hex2_def)

lemma hex_byte_hex2:
  "hex_byte (digit_char (byte_val c div 16)) (digit_char (byte_val c mod 16)) = c"
proof -
  have "byte_val c div 16 < 36" "byte_val c mod 16 < 36" using hex2_digits(2,3) [of c] by simp_all
  then have "num_val 16 [digit_char (byte_val c div 16), digit_char (byte_val c mod 16)]
      = byte_val c div 16 * 16 + byte_val c mod 16"
    by (simp add: num_val_def)
  then show ?thesis by (simp add: hex_byte_def)
qed

lemma isxdigit_hex2 [simp]:
  "c_isxdigit (digit_char (byte_val c div 16))" "c_isxdigit (digit_char (byte_val c mod 16))"
  using hex2_digits(2,3) [of c] by (simp_all add: c_isxdigit_def)

lemma percent_not_xdigit [simp]: "\<not> c_isxdigit (CHR ''%'')"
  by (simp add: c_isxdigit_def is_digit_of_def digit_val_def byte_val_def Let_def)

text \<open>What the encoder writes: unreserved bytes, escapes of two upper-case digits, \<open>+\<close>.\<close>

lemma digit_char_hex_unreserved: "d < 16 \<Longrightarrow> char_is_unreserved (digit_char d)"
  by (auto simp: char_is_unreserved_iff c_isdigit_def byte_val_digit_char)

lemma encode_alphabet:
  "set (http_encode_uri_impl s sp) \<subseteq>
     {c. char_is_unreserved c} \<union> {CHR ''%''} \<union> (if sp then {CHR ''+''} else {})"
  by (induction s) (auto simp: hex2_digits digit_char_hex_unreserved)

section \<open>A reference decoder\<close>

text \<open>
  The decoder without a look past the end: an escape needs its two digits inside the
  string, otherwise the percent sign stands for itself.
\<close>

fun uri_decode :: "bytes \<Rightarrow> int \<Rightarrow> bytes" where
  "uri_decode [] p = []"
| "uri_decode (c # r) p =
     (if c = CHR ''?'' then c # uri_decode r (if p < 0 then 1 else p)
      else if c = CHR ''+'' \<and> p \<noteq> 0 then SP # uri_decode r p
      else if c = CHR ''%'' then
        (case r of h1 # h2 # r2 \<Rightarrow>
            if c_isxdigit h1 \<and> c_isxdigit h2 then hex_byte h1 h2 # uri_decode r2 p
            else c # uri_decode r p
         | _ \<Rightarrow> c # uri_decode r p)
      else c # uri_decode r p)"

declare uri_decode.simps(2) [simp del]

text \<open>The three shapes of a step: a plain byte, a query mark or plus, an escape.\<close>

definition uri_plain :: "char \<Rightarrow> int \<Rightarrow> char \<times> int" where
  "uri_plain c p = (if c = CHR ''?'' then (c, if p < 0 then 1 else p)
     else if c = CHR ''+'' \<and> p \<noteq> 0 then (SP, p) else (c, p))"

definition is_escape :: "bytes \<Rightarrow> bool" where
  "is_escape s \<longleftrightarrow> (\<exists>h1 h2 r. s = CHR ''%'' # h1 # h2 # r \<and> c_isxdigit h1 \<and> c_isxdigit h2)"

lemma uri_decode_plain:
  "\<not> is_escape (c # r) \<Longrightarrow> uri_decode (c # r) p = (case uri_plain c p of (d, q) \<Rightarrow> d # uri_decode r q)"
  unfolding uri_decode.simps(2) [of c r p]
  by (auto simp: is_escape_def uri_plain_def split: list.split)

lemma uri_decode_escape:
  "c_isxdigit h1 \<Longrightarrow> c_isxdigit h2 \<Longrightarrow>
     uri_decode (CHR ''%'' # h1 # h2 # r) p = hex_byte h1 h2 # uri_decode r p"
  by (simp add: uri_decode.simps(2))

lemma uri_induct [case_names Nil Plain Escape]:
  assumes "\<And>p. P [] p"
    and "\<And>c r p. \<not> is_escape (c # r) \<Longrightarrow> P r (snd (uri_plain c p)) \<Longrightarrow> P (c # r) p"
    and "\<And>h1 h2 r p. c_isxdigit h1 \<Longrightarrow> c_isxdigit h2 \<Longrightarrow> P r p \<Longrightarrow> P (CHR ''%'' # h1 # h2 # r) p"
  shows "P s p"
proof (induction "length s" arbitrary: s p rule: less_induct)
  case less
  show ?case
  proof (cases s)
    case Nil
    then show ?thesis using assms(1) by simp
  next
    case (Cons c r)
    show ?thesis
    proof (cases "is_escape s")
      case True
      then obtain h1 h2 t where "s = CHR ''%'' # h1 # h2 # t" "c_isxdigit h1" "c_isxdigit h2"
        by (auto simp: is_escape_def)
      then show ?thesis using assms(3) less by simp
    next
      case False
      then show ?thesis using assms(2) less Cons by simp
    qed
  qed
qed

lemma length_uri_decode: "length (uri_decode s p) \<le> length s"
  by (induction s p rule: uri_induct) (auto simp: uri_decode_plain uri_decode_escape split: prod.splits)

text \<open>The copying decoder computes it when the byte after the string is not a digit.\<close>

lemma decode_copy_plain:
  assumes "\<not> is_escape (c # r)" and rest: "rest = a # rest'" "\<not> c_isxdigit a"
  shows "http_decode_uri_impl ((c # r) @ rest) (length (c # r)) p
    = (case uri_plain c p of (d, q) \<Rightarrow> map_option (Cons d) (http_decode_uri_impl (r @ rest) (length r) q))"
proof (cases "c = CHR ''%''")
  case False
  then show ?thesis by (simp add: uri_plain_def)
next
  case True
  consider "r = []" | h where "r = [h]" | h1 h2 r2 where "r = h1 # h2 # r2"
    by (metis neq_Nil_conv)
  then show ?thesis
    using assms True by cases (simp_all add: uri_plain_def is_escape_def del: http_decode_uri_impl.simps
        add: http_decode_uri_impl.simps(3) [where c = "CHR ''%''"])
qed

lemma decode_copy_eq:
  assumes "rest \<noteq> []" and "\<not> c_isxdigit (hd rest)"
  shows "http_decode_uri_impl (s @ rest) (length s) p = Some (uri_decode s p)"
proof -
  obtain a rest' where rest: "rest = a # rest'" "\<not> c_isxdigit a" using assms by (cases rest) auto
  show ?thesis
  proof (induction s p rule: uri_induct)
    case (Plain c r p)
    then show ?case
      unfolding decode_copy_plain [OF Plain.hyps rest] uri_decode_plain [OF Plain.hyps]
      by (cases "uri_plain c p") simp
  qed (simp_all add: uri_decode_escape)
qed

section \<open>The in-place decoder computes it too\<close>

text \<open>
  No escape straddles the end of the string \<open>s\<close> into the bytes \<open>rest\<close> behind it.
\<close>

definition end_ok :: "bytes \<Rightarrow> bytes \<Rightarrow> bool" where
  "end_ok s rest \<longleftrightarrow>
     (\<forall>s'. s = s' @ [CHR ''%''] \<longrightarrow>
        (\<exists>a r. rest = a # r \<and> (c_isxdigit a \<longrightarrow> (\<exists>b r'. r = b # r' \<and> \<not> c_isxdigit b)))) \<and>
     (\<forall>s' h. s = s' @ [CHR ''%'', h] \<longrightarrow> c_isxdigit h \<longrightarrow>
        (\<exists>a r. rest = a # r \<and> \<not> c_isxdigit a))"

lemma end_ok_terminated: "rest \<noteq> [] \<Longrightarrow> \<not> c_isxdigit (hd rest) \<Longrightarrow> end_ok s rest"
  by (cases rest) (auto simp: end_ok_def)

lemma end_ok_tail: "end_ok (c # s) rest \<Longrightarrow> end_ok s rest"
  unfolding end_ok_def by (metis append_Cons)

lemma last2: "length s = Suc (Suc n) \<Longrightarrow> \<exists>s' x y. s = s' @ [x, y]"
  by (metis append_Cons append_Nil append_assoc length_Suc_conv_rev)

text \<open>After an escape the two last bytes of the old string stand behind the new one.\<close>

lemma end_ok_shift:
  assumes s: "s = CHR ''%'' # h1 # h2 # r" and z: "s = s' @ [x, y]"
    and hex: "c_isxdigit h1" "c_isxdigit h2"
  shows "end_ok r (x # y # rest)"
proof -
  have A: "y = CHR ''%''" if "r = r' @ [CHR ''%'']" for r'
  proof -
    have "(CHR ''%'' # h1 # h2 # r') @ [CHR ''%''] = (s' @ [x]) @ [y]" using s z that by simp
    then show ?thesis by (simp only: append1_eq_conv)
  qed
  have B: "x = CHR ''%''" if "r = r' @ [CHR ''%'', h]" for r' h
  proof -
    have "((CHR ''%'' # h1 # h2 # r') @ [CHR ''%'']) @ [h] = (s' @ [x]) @ [y]" using s z that by simp
    then show ?thesis by (simp only: append1_eq_conv)
  qed
  show ?thesis
    unfolding end_ok_def by (intro conjI allI impI) (use A B in \<open>force+\<close>)
qed

text \<open>The bytes behind the result are what is left of the string, then what was there.\<close>

lemma end_ok_single:
  assumes "end_ok [CHR ''%''] rest"
  shows "\<exists>a t. rest = a # t \<and> (c_isxdigit a \<longrightarrow> (\<exists>b r'. t = b # r' \<and> \<not> c_isxdigit b))"
proof -
  have "[CHR ''%''] = [] @ [CHR ''%'']" by simp
  with assms show ?thesis unfolding end_ok_def by blast
qed

lemma end_ok_double:
  assumes "end_ok [CHR ''%'', h] rest" and "c_isxdigit h"
  shows "\<exists>a t. rest = a # t \<and> \<not> c_isxdigit a"
proof -
  have "[CHR ''%'', h] = [] @ [CHR ''%'', h]" by simp
  with assms show ?thesis unfolding end_ok_def by blast
qed

lemma inplace_plain:
  assumes "\<not> is_escape (c # r)" and "end_ok (c # r) rest" and "uri_plain c p = (d, q)"
  shows "decode_inplace_loop (pre @ c # r @ rest) (length pre) (length pre + Suc (length r)) p
      = decode_inplace_loop (pre @ d # r @ rest) (Suc (length pre)) (length pre + Suc (length r)) q"
proof -
  note unf = decode_inplace_loop.simps [of "pre @ c # r @ rest" "length pre" "length pre + Suc (length r)" p]
  show ?thesis
  proof (cases "c = CHR ''%''")
    case False
    with assms(3) show ?thesis unfolding unf by (auto simp: uri_plain_def split: if_splits)
  next
    case True
    then have dq: "d = c" "q = p" using assms(3) by (auto simp: uri_plain_def)
    consider "r = []" | h where "r = [h]" | h1 h2 r2 where "r = h1 # h2 # r2"
      by (metis neq_Nil_conv)
    then show ?thesis
    proof cases
      case 1
      obtain a t where "rest = a # t" "c_isxdigit a \<longrightarrow> (\<exists>b r'. t = b # r' \<and> \<not> c_isxdigit b)"
        using end_ok_single assms(2) True 1 by blast
      then show ?thesis unfolding unf using 1 True dq by (auto simp: nth_append Let_def)
    next
      case 2
      show ?thesis
      proof (cases "c_isxdigit h")
        case True
        then obtain a t where "rest = a # t" "\<not> c_isxdigit a"
          using end_ok_double assms(2) \<open>c = CHR ''%''\<close> 2 by blast
        then show ?thesis unfolding unf using 2 \<open>c = CHR ''%''\<close> dq by (auto simp: nth_append Let_def)
      next
        case False
        then show ?thesis unfolding unf using 2 \<open>c = CHR ''%''\<close> dq by (auto simp: nth_append Let_def)
      qed
    next
      case 3
      then show ?thesis unfolding unf using assms(1) True dq by (auto simp: nth_append is_escape_def Let_def)
    qed
  qed
qed

lemma inplace_escape:
  assumes "c_isxdigit h1" and "c_isxdigit h2" and "CHR ''%'' # h1 # h2 # r = s' @ [x, y]"
  shows "decode_inplace_loop (pre @ CHR ''%'' # h1 # h2 # r @ rest) (length pre) (length pre + Suc (Suc (Suc (length r)))) p
      = decode_inplace_loop (pre @ hex_byte h1 h2 # r @ x # y # rest) (Suc (length pre)) (Suc (length pre + length r)) p"
proof -
  let ?m = "pre @ CHR ''%'' # h1 # h2 # r @ rest"
  have l: "length s' = Suc (length r)" using arg_cong [OF assms(3), of length] by simp
  have "?m = pre @ (CHR ''%'' # h1 # h2 # r) @ rest" by simp
  then have "?m = (pre @ s') @ x # y # rest" by (simp only: assms(3)) simp
  then have "drop (length pre + Suc (length r)) ?m = x # y # rest"
    by (simp only:) (simp add: l)
  then have "memmove_down ?m (length pre + 1) (length pre + 3) (length r)
      = pre @ CHR ''%'' # r @ x # y # rest"
    by (simp add: memmove_down_def)
  then show ?thesis
    by (subst decode_inplace_loop.simps) (simp add: nth_append assms)
qed

lemma decode_inplace_eq:
  assumes "end_ok s rest"
  shows "\<exists>left. decode_inplace_loop (pre @ s @ rest) (length pre) (length pre + length s) p
      = Some (pre @ uri_decode s p @ left @ rest, length pre + length (uri_decode s p))
    \<and> length left = length s - length (uri_decode s p)"
  using assms
proof (induction s p arbitrary: pre rest rule: uri_induct)
  case (Nil p)
  then show ?case by (simp add: decode_inplace_loop.simps)
next
  case (Plain c r p)
  obtain d q where dq: "uri_plain c p = (d, q)" by fastforce
  have "end_ok r rest" using Plain.prems by (rule end_ok_tail)
  from Plain.IH [OF this, of "pre @ [d]"] dq show ?case
    using inplace_plain [OF Plain.hyps Plain.prems dq, of pre] Plain.hyps
    by (simp add: uri_decode_plain)
next
  case (Escape h1 h2 r p)
  obtain s' x y where z: "CHR ''%'' # h1 # h2 # r = s' @ [x, y]"
    using last2 [of "CHR ''%'' # h1 # h2 # r"] by auto
  then have "end_ok r (x # y # rest)" using end_ok_shift [OF refl z] Escape.hyps by simp
  from Escape.IH [OF this, of "pre @ [hex_byte h1 h2]"] obtain left where
    "decode_inplace_loop (pre @ hex_byte h1 h2 # r @ x # y # rest) (Suc (length pre)) (Suc (length pre + length r)) p
      = Some (pre @ hex_byte h1 h2 # uri_decode r p @ left @ x # y # rest, Suc (length pre + length (uri_decode r p)))"
    "length left = length r - length (uri_decode r p)" by auto
  then show ?case
    using inplace_escape [OF Escape.hyps z, of pre rest p] Escape.hyps length_uri_decode [of r p]
    by (intro exI [of _ "left @ [x, y]"]) (simp add: uri_decode_escape)
qed

section \<open>Round trip\<close>

lemma plain_not_escape: "c \<noteq> CHR ''%'' \<Longrightarrow> \<not> is_escape (c # r)"
  by (auto simp: is_escape_def)

lemma uri_decode_encode:
  assumes "sp \<Longrightarrow> p \<noteq> 0"
  shows "uri_decode (http_encode_uri_impl s sp) p = s"
proof (induction s)
  case (Cons c s)
  consider "char_is_unreserved c" | "\<not> char_is_unreserved c" "c = SP" "sp"
    | "\<not> char_is_unreserved c" "\<not> (c = SP \<and> sp)" by blast
  then show ?case
  proof cases
    case 1
    then show ?thesis using Cons by (simp add: uri_decode_plain plain_not_escape uri_plain_def)
  next
    case 2
    then show ?thesis using Cons assms by (simp add: uri_decode_plain plain_not_escape uri_plain_def)
  next
    case 3
    then have "http_encode_uri_impl (c # s) sp = CHR ''%'' # hex2 c @ http_encode_uri_impl s sp" by auto
    then show ?thesis
      using Cons by (simp only:) (simp add: hex2_digits(1) uri_decode_escape hex_byte_hex2)
  qed
qed simp

lemma encode_no_NUL: "NUL \<notin> set (http_encode_uri_impl s sp)"
proof
  assume "NUL \<in> set (http_encode_uri_impl s sp)"
  then show False
    using encode_alphabet [of s sp]
    by (auto simp: char_is_unreserved_iff c_isdigit_def byte_val_def split: if_splits)
qed

lemma NUL_not_xdigit [simp]: "\<not> c_isxdigit NUL"
  by (simp add: c_isxdigit_def is_digit_of_def digit_val_def byte_val_def Let_def)

lemma cstr_append_NUL [simp]: "NUL \<notin> set s \<Longrightarrow> cstr (s @ NUL # junk) = s"
  by (simp add: cstr_def takeWhile_append)

section \<open>Properties\<close>



text \<open>
  C39: the in-place decoder and the copying decoder agree on every string whose next byte
  is not a hexadecimal digit: both succeed with the same text, and the in-place one
  changes no byte behind the string.
\<close>

theorem uri_inplace_equiv:
  assumes "\<not> c_isxdigit t"
  shows "\<exists>d left. http_decode_uri (s @ t # rest) (length s) [] p = Some d
    \<and> http_decode_uri_inplace (s @ t # rest) (length s) p = Some (d @ left @ t # rest, length d)
    \<and> length d + length left = length s"
proof -
  have "end_ok s (t # rest)" using assms by (simp add: end_ok_terminated)
  from decode_inplace_eq [OF this, of "[]" p] obtain left where
    "decode_inplace_loop (s @ t # rest) 0 (length s) p
       = Some (uri_decode s p @ left @ t # rest, length (uri_decode s p))"
    "length left = length s - length (uri_decode s p)" by auto
  moreover have "http_decode_uri_impl (s @ t # rest) (length s) p = Some (uri_decode s p)"
    using assms by (simp add: decode_copy_eq)
  ultimately show ?thesis
    using length_uri_decode [of s p]
    by (auto simp: http_decode_uri_def http_decode_uri_inplace_def)
qed

theorem uri_inplace_equiv_witness:
  "\<exists>d left. http_decode_uri (''%41%2'' @ CHR ''&'' # ''5'') (length ''%41%2'') [] 0 = Some d
    \<and> http_decode_uri_inplace (''%41%2'' @ CHR ''&'' # ''5'') (length ''%41%2'') 0
        = Some (d @ left @ CHR ''&'' # ''5'', length d)
    \<and> length d + length left = length ''%41%2''"
  by (rule uri_inplace_equiv) code_simp

text \<open>
  When a string of plain bytes ends in a percent sign and the memory behind it
  happens to hold two hexadecimal digits, the length of the \<open>memmove\<close> wraps around: the
  in-place decoder leaves its buffer. \<open>connection::handle_uri\<close> calls it on a local array
  whose bytes behind the copied device id are not initialised.
\<close>

theorem uri_inplace_overrun:
  assumes "CHR ''%'' \<notin> set s" and "c_isxdigit h1" and "c_isxdigit h2"
  shows "http_decode_uri_inplace (s @ CHR ''%'' # h1 # h2 # rest) (Suc (length s)) p = None"
proof -
  have "decode_inplace_loop (pre @ s @ CHR ''%'' # h1 # h2 # rest) (length pre) (length pre + Suc (length s)) p
      = None" for pre
    using assms(1)
  proof (induction s arbitrary: pre p)
    case Nil
    then show ?case using assms by (subst decode_inplace_loop.simps) (simp add: nth_append)
  next
    case (Cons c s)
    have "decode_inplace_loop (pre @ d # s @ CHR ''%'' # h1 # h2 # rest) (Suc (length pre))
        (Suc (Suc (length pre + length s))) q = None" for d q
      using Cons.IH [of "pre @ [d]" q] Cons.prems by simp
    moreover have "c \<noteq> CHR ''%''" using Cons.prems by auto
    ultimately show ?case by (subst decode_inplace_loop.simps) simp
  qed
  from this [of "[]"] show ?thesis by (simp add: http_decode_uri_inplace_def)
qed

theorem uri_inplace_overrun_witness:
  "http_decode_uri_inplace (''abc'' @ CHR ''%'' # CHR ''4'' # CHR ''1'' # []) (Suc (length ''abc'')) 0 = None"
  by (rule uri_inplace_overrun) (simp, code_simp, code_simp)

text \<open>
  A negative \<open>decode_plus\<close> is no different from a positive one: a plus before the
  first question mark is decoded too, although the header says it is only decoded after
  a question mark was seen.
\<close>

theorem uri_plus_negative:
  assumes "\<not> c_isxdigit t"
  shows "http_decode_uri (s @ t # rest) (length s) [] (-1) = http_decode_uri (s @ t # rest) (length s) [] 1"
proof -
  have "uri_decode s (-1) = uri_decode s 1"
  proof (rule uri_induct [where P = "\<lambda>s (p :: int). uri_decode s (-1) = uri_decode s 1" and p = 0])
    fix c r and p :: int
    assume *: "\<not> is_escape (c # r)" "uri_decode r (-1) = uri_decode r 1"
    show "uri_decode (c # r) (-1) = uri_decode (c # r) 1"
      using * by (simp add: uri_decode_plain uri_plain_def)
  qed (simp_all add: uri_decode_escape)
  then show ?thesis using assms by (simp add: http_decode_uri_def decode_copy_eq)
qed

theorem uri_plus_negative_witness:
  "http_decode_uri (''a+b?'' @ NUL # []) (length ''a+b?'') [] (-1)
     = http_decode_uri (''a+b?'' @ NUL # []) (length ''a+b?'') [] 1"
  by (rule uri_plus_negative) simp

end
