(* ===== verification/Http_Status.thy ===== *)
theory Http_Status
  imports CLib
begin

text \<open>
  Message types, methods, status codes and the table of status lines of \<open>core/http.h\<close>
  and \<open>core/http.cpp\<close>. \<open>int\<close> fields are HOL integers here: none of them is computed with.
\<close>

section \<open>Constants\<close>

definition HTTP_REQUEST :: int where "HTTP_REQUEST = 0"
definition HTTP_RESPONSE :: int where "HTTP_RESPONSE = 1"

definition HTTP_GET :: int where "HTTP_GET = 0x0001"
definition HTTP_HEAD :: int where "HTTP_HEAD = 0x0002"
definition HTTP_POST :: int where "HTTP_POST = 0x0004"
definition HTTP_PUT :: int where "HTTP_PUT = 0x0008"
definition HTTP_DELETE :: int where "HTTP_DELETE = 0x0010"
definition HTTP_OPTIONS :: int where "HTTP_OPTIONS = 0x0100"
definition HTTP_PATCH :: int where "HTTP_PATCH = 0x2000"
definition HTTP_TRACE :: int where "HTTP_TRACE = 0x4000"
definition HTTP_CONNECT :: int where "HTTP_CONNECT = 0x8000"

definition HTTP_CONTINUE :: int where "HTTP_CONTINUE = 100"
definition HTTP_OK :: int where "HTTP_OK = 200"
definition HTTP_MOVED_PERMANENTLY :: int where "HTTP_MOVED_PERMANENTLY = 301"
definition HTTP_BAD_REQUEST :: int where "HTTP_BAD_REQUEST = 400"
definition HTTP_EXPECTATIONFAILED :: int where "HTTP_EXPECTATIONFAILED = 417"
definition HTTP_INTERNAL_SERVER_ERROR :: int where "HTTP_INTERNAL_SERVER_ERROR = 500"
definition HTTP_ORIGINAL_SERVER_TIMEOUT :: int where "HTTP_ORIGINAL_SERVER_TIMEOUT = 550"
definition HTTP_PROXY_SERVER_INTERNAL_ERROR :: int where "HTTP_PROXY_SERVER_INTERNAL_ERROR = 551"
definition HTTP_NULL_CONNECTION :: int where "HTTP_NULL_CONNECTION = 552"
definition HTTP_INVALID_CONNECTION :: int where "HTTP_INVALID_CONNECTION = 553"
definition HTTP_MATCHED_CONNECTION :: int where "HTTP_MATCHED_CONNECTION = 554"
definition HTTP_CONFLICT_CONNECTION :: int where "HTTP_CONFLICT_CONNECTION = 555"
definition HTTP_DEVICE_ID_DIFFERENT :: int where "HTTP_DEVICE_ID_DIFFERENT = 556"
definition HTTP_INVALID_MATCH :: int where "HTTP_INVALID_MATCH = 557"

lemmas http_method_defs = HTTP_GET_def HTTP_HEAD_def HTTP_POST_def HTTP_PUT_def HTTP_DELETE_def
  HTTP_OPTIONS_def HTTP_PATCH_def HTTP_TRACE_def HTTP_CONNECT_def

lemmas http_code_defs = HTTP_CONTINUE_def HTTP_OK_def HTTP_MOVED_PERMANENTLY_def HTTP_BAD_REQUEST_def
  HTTP_EXPECTATIONFAILED_def HTTP_INTERNAL_SERVER_ERROR_def HTTP_ORIGINAL_SERVER_TIMEOUT_def
  HTTP_PROXY_SERVER_INTERNAL_ERROR_def HTTP_NULL_CONNECTION_def HTTP_INVALID_CONNECTION_def
  HTTP_MATCHED_CONNECTION_def HTTP_CONFLICT_CONNECTION_def HTTP_DEVICE_ID_DIFFERENT_def
  HTTP_INVALID_MATCH_def

definition HTTP_INIT_HEADER_SIZE :: nat where "HTTP_INIT_HEADER_SIZE = 1024"
definition HTTP_MAX_CHUNK_SIZE_LEN :: nat where "HTTP_MAX_CHUNK_SIZE_LEN = 18"
definition HTTP_CHUNK_SIZE_LEN :: nat where "HTTP_CHUNK_SIZE_LEN = 10"
definition HTTP_EACH_BODY_SIZE :: nat where "HTTP_EACH_BODY_SIZE = 65536"

lemmas http_size_defs = HTTP_INIT_HEADER_SIZE_def HTTP_MAX_CHUNK_SIZE_LEN_def HTTP_CHUNK_SIZE_LEN_def
  HTTP_EACH_BODY_SIZE_def

section \<open>The status lines\<close>

definition HTTP_LAST_1XX :: int where "HTTP_LAST_1XX = 102"
definition HTTP_OFF_2XX :: int where "HTTP_OFF_2XX = HTTP_LAST_1XX - 100"
definition HTTP_LAST_2XX :: int where "HTTP_LAST_2XX = 207"
definition HTTP_OFF_3XX :: int where "HTTP_OFF_3XX = HTTP_LAST_2XX - 200 + HTTP_OFF_2XX"
definition HTTP_LAST_3XX :: int where "HTTP_LAST_3XX = 308"
definition HTTP_OFF_4XX :: int where "HTTP_OFF_4XX = HTTP_LAST_3XX - 301 + HTTP_OFF_3XX"
definition HTTP_LAST_4XX :: int where "HTTP_LAST_4XX = 418"
definition HTTP_OFF_5XX :: int where "HTTP_OFF_5XX = HTTP_LAST_4XX - 400 + HTTP_OFF_4XX"
definition HTTP_LAST_5XX :: int where "HTTP_LAST_5XX = 508"
definition HTTP_OFF_EXTENDED :: int where "HTTP_OFF_EXTENDED = 0"
definition HTTP_LAST_EXTENDED :: int where "HTTP_LAST_EXTENDED = 558"

lemmas http_off_defs = HTTP_LAST_1XX_def HTTP_OFF_2XX_def HTTP_LAST_2XX_def HTTP_OFF_3XX_def
  HTTP_LAST_3XX_def HTTP_OFF_4XX_def HTTP_LAST_4XX_def HTTP_OFF_5XX_def HTTP_LAST_5XX_def
  HTTP_OFF_EXTENDED_def HTTP_LAST_EXTENDED_def

definition http_normal_status_lines :: "bytes list" where
  "http_normal_status_lines = [
    ''100 Continue'', ''101 Switch Protocol'',
    ''200 OK'', ''201 Created'', ''202 Accepted'', [], ''204 No Content'', [], ''206 Partial Content'',
    ''301 Moved Permanently'', ''302 Moved Temporarily'', ''303 See Other'', ''304 Not Modified'',
    [], [], ''307 Temporary Redirect'',
    ''400 Bad Request'', ''401 Unauthorized'', ''402 Payment Required'', ''403 Forbidden'',
    ''404 Not Found'', ''405 Not Allowed'', ''406 Not Acceptable'', [], ''408 Request Time-out'',
    ''409 Conflict'', ''410 Gone'', ''411 Length Required'', ''412 Precondition Failed'',
    ''413 Request Entity Too Large'', [], ''415 Unsupported Media Type'',
    ''416 Requested Range Not Satisfiable'', ''417 Expectation Failed'',
    ''500 Internal Server Error'', ''501 Method Not Implemented'', ''502 Bad Gateway'',
    ''503 Service Temporarily Unavailable'', ''504 Gateway Time-out'', [], [],
    ''507 Insufficient Storage'']"

definition http_extended_status_line :: "bytes list" where
  "http_extended_status_line = [
    ''550 Other Connection Timeout'', ''551 Proxy Server Internal Error'', ''552 Null Connection'',
    ''553 Invalid Connection'', ''554 Matched Connection'', ''555 Conflict Connection'',
    ''556 Device ID difference'', ''557 Invalid match'']"

text \<open>\<open>NULL\<close> is \<open>None\<close>.\<close>

definition http_get_status_line :: "int \<Rightarrow> bytes option" where
  "http_get_status_line status =
     (if status \<ge> HTTP_CONTINUE \<and> status < HTTP_LAST_1XX then
        Some (http_normal_status_lines ! nat (status - HTTP_CONTINUE))
      else if status \<ge> HTTP_OK \<and> status < HTTP_LAST_2XX then
        Some (http_normal_status_lines ! nat (status - HTTP_OK + HTTP_OFF_2XX))
      else if status \<ge> HTTP_MOVED_PERMANENTLY \<and> status < HTTP_LAST_3XX then
        Some (http_normal_status_lines ! nat (status - HTTP_MOVED_PERMANENTLY + HTTP_OFF_3XX))
      else if status \<ge> HTTP_BAD_REQUEST \<and> status < HTTP_LAST_4XX then
        Some (http_normal_status_lines ! nat (status - HTTP_BAD_REQUEST + HTTP_OFF_4XX))
      else if status \<ge> HTTP_INTERNAL_SERVER_ERROR \<and> status < HTTP_LAST_5XX then
        Some (http_normal_status_lines ! nat (status - HTTP_INTERNAL_SERVER_ERROR + HTTP_OFF_5XX))
      else if status \<ge> HTTP_ORIGINAL_SERVER_TIMEOUT \<and> status < HTTP_LAST_EXTENDED then
        Some (http_extended_status_line ! nat (status - HTTP_ORIGINAL_SERVER_TIMEOUT + HTTP_OFF_EXTENDED))
      else None)"

text \<open>The codes the connection and parser code throws or answers with.\<close>

definition answered_codes :: "int list" where
  "answered_codes = [HTTP_CONTINUE, HTTP_OK, HTTP_BAD_REQUEST, HTTP_EXPECTATIONFAILED,
     HTTP_ORIGINAL_SERVER_TIMEOUT, HTTP_PROXY_SERVER_INTERNAL_ERROR, HTTP_NULL_CONNECTION,
     HTTP_INVALID_CONNECTION, HTTP_MATCHED_CONNECTION, HTTP_CONFLICT_CONNECTION,
     HTTP_DEVICE_ID_DIFFERENT, HTTP_INVALID_MATCH]"

section \<open>Lemmas\<close>

definition line_ok :: "int \<Rightarrow> bool" where
  "line_ok st = (case http_get_status_line st of None \<Rightarrow> False
     | Some line \<Rightarrow> line = [] \<or> take 4 line = dec_int st @ [SP])"

definition listed_codes :: "int list" where
  "listed_codes = [100..101] @ [200..206] @ [301..307] @ [400..417] @ [500..507] @ [550..557]"

lemma listed_line_ok: "list_all line_ok listed_codes"
  by code_simp

lemma status_line_listed: "http_get_status_line st = Some line \<Longrightarrow> st \<in> set listed_codes"
  by (auto simp: http_get_status_line_def listed_codes_def http_off_defs http_code_defs
      simp del: upto_rec_numeral split: if_splits)

section \<open>Properties\<close>

text \<open>
  A status line that exists is blank or starts with its own code in decimal and a
  space: the offsets of the five blocks of the table agree with its gaps, and no index
  leaves the tables.
\<close>

theorem status_line_code:
  assumes "http_get_status_line st = Some line" and "line \<noteq> []"
  shows "\<exists>text. line = dec_int st @ SP # text"
proof -
  have "line_ok st" using status_line_listed [OF assms(1)] listed_line_ok by (simp add: list_all_iff)
  then have t: "take 4 line = dec_int st @ [SP]" using assms by (simp add: line_ok_def)
  have "line = take 4 line @ drop 4 line" by simp
  then show ?thesis unfolding t by auto
qed

theorem status_line_code_witness:
  "http_get_status_line 417 = Some ''417 Expectation Failed''
     \<and> (\<exists>text. ''417 Expectation Failed'' = dec_int 417 @ SP # text)"
proof -
  have h: "http_get_status_line 417 = Some ''417 Expectation Failed''" by code_simp
  show ?thesis using h status_line_code [OF h] by simp
qed

text \<open>
  Every code the server itself answers with has a non-blank line, so the assertion
  in \<open>http_stream::send_error\<close> never fails on them.
\<close>

theorem answered_codes_have_lines:
  "list_all (\<lambda>st. \<exists>line. http_get_status_line st = Some line \<and> line \<noteq> []) answered_codes"
proof -
  have "list_all (\<lambda>st. http_get_status_line st \<noteq> None \<and> http_get_status_line st \<noteq> Some []) answered_codes"
    by code_simp
  then show ?thesis by (auto simp: list_all_iff)
qed

end
