(* ===== verification/Http_Parser.thy ===== *)
theory Http_Parser
  imports Http_Status Base_String
begin

text \<open>
  The incremental message parser \<open>http_parser\<close> of \<open>core/http.h\<close> and \<open>core/http.cpp\<close>: one
  step function per parsing routine, run over the bytes from \<open>off_\<close> to \<open>len\<close>, exactly as
  the two \<open>for\<close>/\<open>switch\<close> loops do. Pointers into the input are offsets into \<open>data\<close>; the
  name pointers also carry the identity of the buffer they point into, because a
  trailer is parsed in another buffer than the header. Logging is left out.
\<close>

section \<open>Data\<close>

datatype parse_state =
    start_st | check_st | space_before_uri_st | uri_st
  | http_version_h_st | http_version_t_1_st | http_version_t_2_st | http_version_p_st
  | http_version_slash_st | http_version_major_st | http_version_minor_st
  | status_code_st | status_text_st
  | header_lws_st | header_name_st | space_before_header_value_st | header_value_st
  | almost_done_st | header_almost_done_st

text \<open>
  \<open>major\<close> and \<open>minor\<close> are signed 8-bit \<open>char\<close>s. The union of the request and the response
  is three shared fields: \<open>h_code\<close> is \<open>request.verb\<close> and \<open>response.code\<close>, \<open>h_ptr\<close> is
  \<open>request.uri\<close> and \<open>response.text\<close>, \<open>h_len\<close> is the length of either.
\<close>

record http_header =
  h_type :: int
  h_major :: int
  h_minor :: int
  h_code :: int
  h_ptr :: nat
  h_len :: nat
  h_headers :: "(bytes \<times> bytes) list"

record http_parser =
  p_state :: parse_state
  p_line_beg :: nat
  p_line_end :: nat
  p_name_beg :: "nat option"
  p_name_end :: nat
  p_name_buf :: nat
  p_off :: nat
  p_hdr :: http_header
  p_hdr_len :: nat

text \<open>The return values -1, 0 and 1, and a read through a pointer into another buffer.\<close>

datatype parse_ret = PFail | POk | PMore | PDangling

datatype 'a step = Cont 'a | Ret parse_ret 'a

text \<open>The members the constructor leaves uninitialised are 0 here.\<close>

definition new_header :: http_header where
  "new_header = \<lparr>h_type = 0, h_major = 0, h_minor = 0, h_code = 0, h_ptr = 0, h_len = 0, h_headers = []\<rparr>"

definition new_parser :: http_parser where
  "new_parser = \<lparr>p_state = start_st, p_line_beg = 0, p_line_end = 0, p_name_beg = None, p_name_end = 0,
     p_name_buf = 0, p_off = 0, p_hdr = new_header, p_hdr_len = 0\<rparr>"

definition parser_reset :: "http_parser \<Rightarrow> http_parser" where
  "parser_reset ps = ps\<lparr>p_off := 0, p_name_beg := None, p_state := start_st,
     p_hdr := (p_hdr ps)\<lparr>h_headers := []\<rparr>\<rparr>"

section \<open>Character classes\<close>

definition is_char :: "char \<Rightarrow> bool" where
  "is_char c \<longleftrightarrow> c_int c \<ge> 0 \<and> c_int c \<le> 127"

definition is_ctl :: "char \<Rightarrow> bool" where
  "is_ctl c \<longleftrightarrow> (c_int c \<ge> 0 \<and> c_int c \<le> 31) \<or> c_int c = 127"

definition is_tspecial :: "char \<Rightarrow> bool" where
  "is_tspecial c \<longleftrightarrow> c \<in> set [CHR ''('', CHR '')'', CHR ''<'', CHR ''>'', CHR ''@'',
     CHR '','', CHR '';'', CHR '':'', CHR 0x5C, CHR 0x22,
     CHR ''/'', CHR ''['', CHR '']'', CHR ''?'', CHR ''='',
     CHR ''{'', CHR ''}'', SP, TAB]"

definition is_digit :: "char \<Rightarrow> bool" where
  "is_digit c \<longleftrightarrow> c_int c \<ge> 48 \<and> c_int c \<le> 57"

text \<open>A byte that may start or continue a method or a field name.\<close>

definition is_token :: "char \<Rightarrow> bool" where
  "is_token c \<longleftrightarrow> \<not> (\<not> is_char c \<or> is_ctl c \<or> is_tspecial c)"

section \<open>The first line\<close>

definition set_verb :: "http_parser \<Rightarrow> int \<Rightarrow> http_parser" where
  "set_verb ps v = ps\<lparr>p_hdr := (p_hdr ps)\<lparr>h_code := v\<rparr>, p_state := space_before_uri_st\<rparr>"

text \<open>\<open>k\<close> is \<open>p - line_beg_\<close>, \<open>w\<close> the \<open>k+1\<close> bytes from \<open>line_beg_\<close>.\<close>

definition check_word :: "http_parser \<Rightarrow> nat \<Rightarrow> bytes \<Rightarrow> http_parser" where
  "check_word ps k w =
     (if k = 2 then
        (if w = ''GET'' then set_verb ps HTTP_GET
         else if w = ''PUT'' then set_verb ps HTTP_PUT else ps)
      else if k = 3 then
        (if w = ''HEAD'' then set_verb ps HTTP_HEAD
         else if w = ''POST'' then set_verb ps HTTP_POST
         else if w = ''HTTP'' then
           ps\<lparr>p_hdr := (p_hdr ps)\<lparr>h_type := HTTP_RESPONSE\<rparr>, p_state := http_version_slash_st\<rparr>
         else ps)
      else if k = 4 then
        (if w = ''TRACE'' then set_verb ps HTTP_TRACE
         else if w = ''PATCH'' then set_verb ps HTTP_PATCH else ps)
      else if k = 5 then
        (if w = ''DELETE'' then set_verb ps HTTP_DELETE else ps)
      else if k = 6 then
        (if w = ''OPTIONS'' then set_verb ps HTTP_OPTIONS
         else if w = ''CONNECT'' then set_verb ps HTTP_CONNECT else ps)
      else ps)"

definition first_line_step :: "bytes \<Rightarrow> nat \<Rightarrow> char \<Rightarrow> http_parser \<Rightarrow> http_parser step" where
  "first_line_step data p c ps =
     (case p_state ps of
        start_st \<Rightarrow>
          if \<not> is_char c \<or> is_ctl c \<or> is_tspecial c then Ret PFail ps
          else Cont (ps\<lparr>p_state := check_st, p_hdr := (p_hdr ps)\<lparr>h_type := HTTP_REQUEST\<rparr>, p_line_beg := p\<rparr>)
      | check_st \<Rightarrow>
          if c = SP then Ret PFail ps
          else Cont (check_word ps (p - p_line_beg ps) (slice data (p_line_beg ps) (Suc (p - p_line_beg ps))))
      | space_before_uri_st \<Rightarrow>
          if c \<noteq> SP then Ret PFail ps
          else Cont (ps\<lparr>p_state := uri_st, p_hdr := (p_hdr ps)\<lparr>h_ptr := p + 1\<rparr>\<rparr>)
      | uri_st \<Rightarrow>
          if is_ctl c then Ret PFail ps
          else if c = SP then
            Cont (ps\<lparr>p_hdr := (p_hdr ps)\<lparr>h_len := p - h_ptr (p_hdr ps)\<rparr>, p_state := http_version_h_st\<rparr>)
          else Cont ps
      | http_version_h_st \<Rightarrow>
          if c \<noteq> CHR ''H'' then Ret PFail ps else Cont (ps\<lparr>p_state := http_version_t_1_st\<rparr>)
      | http_version_t_1_st \<Rightarrow>
          if c \<noteq> CHR ''T'' then Ret PFail ps else Cont (ps\<lparr>p_state := http_version_t_2_st\<rparr>)
      | http_version_t_2_st \<Rightarrow>
          if c \<noteq> CHR ''T'' then Ret PFail ps else Cont (ps\<lparr>p_state := http_version_p_st\<rparr>)
      | http_version_p_st \<Rightarrow>
          if c \<noteq> CHR ''P'' then Ret PFail ps else Cont (ps\<lparr>p_state := http_version_slash_st\<rparr>)
      | http_version_slash_st \<Rightarrow>
          if c \<noteq> CHR ''/'' then Ret PFail ps
          else Cont (ps\<lparr>p_hdr := (p_hdr ps)\<lparr>h_major := 0\<rparr>, p_state := http_version_major_st\<rparr>)
      | http_version_major_st \<Rightarrow>
          if is_digit c then
            Cont (ps\<lparr>p_hdr := (p_hdr ps)\<lparr>h_major := signed_take_bit 7 (h_major (p_hdr ps) * 10 + c_int c - 48)\<rparr>\<rparr>)
          else if c = CHR ''.'' then
            Cont (ps\<lparr>p_hdr := (p_hdr ps)\<lparr>h_minor := 0\<rparr>, p_state := http_version_minor_st\<rparr>)
          else Ret PFail ps
      | http_version_minor_st \<Rightarrow>
          if is_digit c then
            Cont (ps\<lparr>p_hdr := (p_hdr ps)\<lparr>h_minor := signed_take_bit 7 (h_minor (p_hdr ps) * 10 + c_int c - 48)\<rparr>\<rparr>)
          else if c = CR then Cont (ps\<lparr>p_state := almost_done_st\<rparr>)
          else if c = SP then Cont (ps\<lparr>p_hdr := (p_hdr ps)\<lparr>h_code := 0\<rparr>, p_state := status_code_st\<rparr>)
          else Ret PFail ps
      | status_code_st \<Rightarrow>
          if is_digit c then
            Cont (ps\<lparr>p_hdr := (p_hdr ps)\<lparr>h_code := signed_take_bit 31 (h_code (p_hdr ps) * 10 + c_int c - 48)\<rparr>\<rparr>)
          else if c = SP then Cont (ps\<lparr>p_state := status_text_st, p_hdr := (p_hdr ps)\<lparr>h_ptr := p + 1\<rparr>\<rparr>)
          else Ret PFail ps
      | status_text_st \<Rightarrow>
          if c = CR then
            Cont (ps\<lparr>p_hdr := (p_hdr ps)\<lparr>h_len := p - h_ptr (p_hdr ps)\<rparr>, p_state := almost_done_st\<rparr>)
          else if is_ctl c then Ret PFail ps
          else Cont ps
      | almost_done_st \<Rightarrow>
          if c \<noteq> LF then Ret PFail ps
          else Ret POk (ps\<lparr>p_state := start_st, p_line_end := p + 1\<rparr>)
      | _ \<Rightarrow> Cont ps)"

text \<open>The loop: \<open>cs\<close> are the bytes from \<open>p\<close> to \<open>end\<close>; every byte read increments \<open>off_\<close>.\<close>

primrec first_line_loop :: "bytes \<Rightarrow> nat \<Rightarrow> bytes \<Rightarrow> http_parser \<Rightarrow> parse_ret \<times> http_parser" where
  "first_line_loop data p [] ps = (PMore, ps)"
| "first_line_loop data p (c # cs) ps =
     (case first_line_step data p c (ps\<lparr>p_off := Suc (p_off ps)\<rparr>) of
        Ret r ps' \<Rightarrow> (r, ps')
      | Cont ps' \<Rightarrow> first_line_loop data (Suc p) cs ps')"

definition parse_first_line :: "bytes \<Rightarrow> nat \<Rightarrow> http_parser \<Rightarrow> parse_ret \<times> http_parser" where
  "parse_first_line data len ps =
     first_line_loop data (p_off ps) (slice data (p_off ps) (len - p_off ps)) ps"

section \<open>The header lines\<close>

text \<open>
  \<open>bid\<close> is the identity of the buffer \<open>data\<close> lies in; \<open>value\<close> is the local string of the
  routine, empty when it is entered.
\<close>

definition insert_header :: "nat \<Rightarrow> bytes \<Rightarrow> http_parser \<Rightarrow> bytes \<Rightarrow> http_parser option" where
  "insert_header bid data ps value =
     (case p_name_beg ps of
        None \<Rightarrow> Some ps
      | Some nb \<Rightarrow>
          if p_name_buf ps \<noteq> bid then None
          else Some (ps\<lparr>p_hdr := (p_hdr ps)\<lparr>h_headers :=
                 al_insert (h_headers (p_hdr ps)) (slice data nb (p_name_end ps - nb)) value\<rparr>\<rparr>))"

definition header_line_step ::
  "nat \<Rightarrow> bytes \<Rightarrow> nat \<Rightarrow> char \<Rightarrow> http_parser \<times> bytes \<Rightarrow> (http_parser \<times> bytes) step" where
  "header_line_step bid data p c = (\<lambda>(ps, value).
     (case p_state ps of
        start_st \<Rightarrow>
          if c = CR then Cont (ps\<lparr>p_state := header_almost_done_st\<rparr>, value)
          else if p_name_beg ps \<noteq> None \<and> (c = SP \<or> c = TAB) then
            Cont (ps\<lparr>p_state := header_lws_st\<rparr>, value)
          else if \<not> is_char c \<or> is_ctl c \<or> is_tspecial c then Ret PFail (ps, value)
          else (case insert_header bid data ps value of
                  None \<Rightarrow> Ret PDangling (ps, value)
                | Some ps' \<Rightarrow>
                    Cont (ps'\<lparr>p_name_beg := Some p, p_name_buf := bid, p_state := header_name_st\<rparr>,
                          if p_name_beg ps \<noteq> None then [] else value))
      | header_lws_st \<Rightarrow>
          if c = CR then Cont (ps\<lparr>p_state := almost_done_st\<rparr>, value)
          else if c = SP \<or> c = TAB then Cont (ps, value)
          else if is_ctl c then Ret PFail (ps, value)
          else Cont (ps\<lparr>p_state := header_value_st\<rparr>, value @ [c])
      | header_name_st \<Rightarrow>
          if c = CHR '':'' then Cont (ps\<lparr>p_state := space_before_header_value_st, p_name_end := p\<rparr>, value)
          else if \<not> is_char c \<or> is_ctl c \<or> is_tspecial c then Ret PFail (ps, value)
          else Cont (ps, value)
      | space_before_header_value_st \<Rightarrow>
          if c = SP then Cont (ps\<lparr>p_state := header_value_st\<rparr>, value) else Ret PFail (ps, value)
      | header_value_st \<Rightarrow>
          if c = CR then Cont (ps\<lparr>p_state := almost_done_st\<rparr>, value)
          else if is_ctl c \<and> (c \<noteq> SP \<or> c \<noteq> TAB) then Ret PFail (ps, value)
          else Cont (ps, value @ [c])
      | almost_done_st \<Rightarrow>
          if c = LF then Cont (ps\<lparr>p_state := start_st\<rparr>, value) else Ret PFail (ps, value)
      | header_almost_done_st \<Rightarrow>
          if c = LF then
            (case insert_header bid data ps value of
               None \<Rightarrow> Ret PDangling (ps, value)
             | Some ps' \<Rightarrow> Ret POk (ps'\<lparr>p_hdr_len := p_off ps'\<rparr>, value))
          else Ret PFail (ps, value)
      | _ \<Rightarrow> Cont (ps, value)))"

primrec header_line_loop ::
  "nat \<Rightarrow> bytes \<Rightarrow> nat \<Rightarrow> bytes \<Rightarrow> http_parser \<Rightarrow> bytes \<Rightarrow> parse_ret \<times> http_parser" where
  "header_line_loop bid data p [] ps value = (PMore, ps)"
| "header_line_loop bid data p (c # cs) ps value =
     (case header_line_step bid data p c (ps\<lparr>p_off := Suc (p_off ps)\<rparr>, value) of
        Ret r (ps', _) \<Rightarrow> (r, ps')
      | Cont (ps', value') \<Rightarrow> header_line_loop bid data (Suc p) cs ps' value')"

definition parse_header_line :: "nat \<Rightarrow> bytes \<Rightarrow> nat \<Rightarrow> http_parser \<Rightarrow> parse_ret \<times> http_parser" where
  "parse_header_line bid data len ps =
     header_line_loop bid data (p_off ps) (slice data (p_off ps) (len - p_off ps)) ps []"

definition parse_trailer :: "nat \<Rightarrow> bytes \<Rightarrow> nat \<Rightarrow> http_parser \<Rightarrow> parse_ret \<times> http_parser" where
  "parse_trailer bid data len ps = parse_header_line bid data len ps"

definition parse_header :: "nat \<Rightarrow> bytes \<Rightarrow> nat \<Rightarrow> http_parser \<Rightarrow> parse_ret \<times> http_parser" where
  "parse_header bid data len ps =
     (case parse_first_line data len ps of
        (POk, ps') \<Rightarrow> parse_header_line bid data len ps'
      | r \<Rightarrow> r)"

section \<open>The body of the message\<close>

definition HTTP_BODY_NONE :: int where "HTTP_BODY_NONE = 0"
definition HTTP_BODY_CONTENT :: int where "HTTP_BODY_CONTENT = 1"
definition HTTP_BODY_CHUNK_SIZE :: int where "HTTP_BODY_CHUNK_SIZE = 2"
definition HTTP_BODY_CHUNK_DATA :: int where "HTTP_BODY_CHUNK_DATA = 3"

lemmas http_body_defs = HTTP_BODY_NONE_def HTTP_BODY_CONTENT_def HTTP_BODY_CHUNK_SIZE_def
  HTTP_BODY_CHUNK_DATA_def

text \<open>
  The result and the three reference arguments \<open>type\<close>, \<open>len\<close> and \<open>error\<close>; \<open>len\<close> and \<open>error\<close>
  keep their value where the code does not assign them.
\<close>

definition find_header :: "http_header \<Rightarrow> bytes \<Rightarrow> bytes option" where
  "find_header hdr name = map_of (h_headers hdr) name"

definition body_framing :: "http_header \<Rightarrow> nat \<Rightarrow> bool \<times> int \<times> nat" where
  "body_framing hdr len =
     (if (case find_header hdr ''Transfer-Encoding'' of None \<Rightarrow> False
          | Some v \<Rightarrow> strcaseeq (cstr v) ''chunked'')
      then (True, HTTP_BODY_CHUNK_SIZE, len)
      else (case find_header hdr ''Content-Length'' of
              None \<Rightarrow> (True, HTTP_BODY_NONE, len)
            | Some v \<Rightarrow> (case base_strtoul (cstr v) 10 False of
                (ok, n) \<Rightarrow> if ok then (True, HTTP_BODY_CONTENT, n) else (False, HTTP_BODY_NONE, n))))"

definition get_body_info :: "http_header \<Rightarrow> int \<Rightarrow> nat \<Rightarrow> int \<Rightarrow> bool \<times> int \<times> nat \<times> int" where
  "get_body_info hdr type0 len0 error0 =
     (case body_framing hdr len0 of
        (False, _, len) \<Rightarrow> (False, type0, len, HTTP_BAD_REQUEST)
      | (True, type, len) \<Rightarrow>
          if h_type hdr = HTTP_REQUEST then
            if h_code hdr \<in> {HTTP_POST, HTTP_PUT, HTTP_PATCH} \<and> type = HTTP_BODY_NONE then
              (False, type, len, HTTP_BAD_REQUEST)
            else if h_major hdr > 1 \<or> (h_major hdr = 1 \<and> h_minor hdr = 1) then
              (case find_header hdr ''Except'' of
                 None \<Rightarrow> (True, type, len, error0)
               | Some v \<Rightarrow>
                   if strcaseeq (cstr v) ''100-Continue'' then (True, type, len, HTTP_CONTINUE)
                   else (False, type, len, HTTP_EXPECTATIONFAILED))
            else (True, type, len, error0)
          else (True, type, len, error0))"


section \<open>Running the loops\<close>

lemma first_line_step_ret:
  assumes "first_line_step data p c ps = Ret r ps'"
  shows "r = PFail \<or> r = POk"
  using assms unfolding first_line_step_def
  by (cases "p_state ps") (auto split: if_splits)

lemma header_line_step_ret:
  assumes "header_line_step bid data p c psv = Ret r psv'"
  shows "r \<noteq> PMore"
  using assms unfolding header_line_step_def
  by (cases psv; cases "p_state (fst psv)") (auto split: if_splits option.splits)

text \<open>
  Only the end of the input makes the first-line routine ask for more, so the loop over an
  input is the loop over a first part continued over the rest.
\<close>

lemma first_line_loop_append:
  "first_line_loop data p (xs @ ys) ps =
     (case first_line_loop data p xs ps of
        (PMore, ps') \<Rightarrow> first_line_loop data (p + length xs) ys ps'
      | (PFail, ps') \<Rightarrow> (PFail, ps') | (POk, ps') \<Rightarrow> (POk, ps') | (PDangling, ps') \<Rightarrow> (PDangling, ps'))"
proof (induction xs arbitrary: p ps)
  case Nil
  show ?case by simp
next
  case (Cons c xs)
  show ?case
  proof (cases "first_line_step data p c (ps\<lparr>p_off := Suc (p_off ps)\<rparr>)")
    case (Cont ps')
    then show ?thesis using Cons.IH [of "Suc p" ps']
      by (cases "first_line_loop data (Suc p) xs ps'"; cases "fst (first_line_loop data (Suc p) xs ps')") auto
  next
    case (Ret r ps')
    then show ?thesis using first_line_step_ret [OF Ret] by auto
  qed
qed

lemma first_line_loop_more:
  "first_line_loop data p xs ps = (PMore, ps') \<Longrightarrow>
   first_line_loop data p (xs @ ys) ps = first_line_loop data (p + length xs) ys ps'"
  by (simp add: first_line_loop_append)

text \<open>The offset advances by one per byte read, and the position only moves with it.\<close>

lemma first_line_step_off:
  "case first_line_step data p c ps of Cont ps' \<Rightarrow> p_off ps' = p_off ps | Ret r ps' \<Rightarrow> p_off ps' = p_off ps"
  unfolding first_line_step_def check_word_def set_verb_def
  by (cases "p_state ps") (auto simp: Let_def)

lemma header_line_step_off:
  "case header_line_step bid data p c (ps, v) of
     Cont psv \<Rightarrow> p_off (fst psv) = p_off ps | Ret r psv \<Rightarrow> p_off (fst psv) = p_off ps"
  unfolding header_line_step_def insert_header_def
  by (cases "p_state ps") (auto split: option.splits)

lemma first_line_loop_off:
  "first_line_loop data p xs ps = (r, ps') \<Longrightarrow>
   p_off ps' \<le> p_off ps + length xs \<and>
   (if r = PMore then p_off ps' = p_off ps + length xs else p_off ps < p_off ps')"
proof (induction xs arbitrary: p ps)
  case Nil
  then show ?case by auto
next
  case (Cons c xs)
  let ?q = "ps\<lparr>p_off := Suc (p_off ps)\<rparr>"
  note off = first_line_step_off [where data = data and p = p and c = c and ps = ?q]
  show ?case
  proof (cases "first_line_step data p c ?q")
    case (Cont q)
    with off have "p_off q = Suc (p_off ps)" by simp
    with Cont Cons.IH [of "Suc p" q] Cons.prems show ?thesis by (auto split: if_splits)
  next
    case (Ret r' q)
    with off first_line_step_ret [OF Ret] Cons.prems show ?thesis by auto
  qed
qed

lemma header_line_loop_off:
  "header_line_loop bid data p xs ps v = (r, ps') \<Longrightarrow>
   p_off ps' \<le> p_off ps + length xs \<and> (r \<noteq> PMore \<longrightarrow> p_off ps < p_off ps')"
proof (induction xs arbitrary: p ps v)
  case Nil
  then show ?case by auto
next
  case (Cons c xs)
  let ?q = "ps\<lparr>p_off := Suc (p_off ps)\<rparr>"
  note off = header_line_step_off [where bid = bid and data = data and p = p and c = c and ps = ?q and v = v]
  show ?case
  proof (cases "header_line_step bid data p c (?q, v)")
    case (Cont qv)
    obtain q w where qv: "qv = (q, w)" by fastforce
    with off Cont have "p_off q = Suc (p_off ps)" by simp
    with Cont qv Cons.IH [of "Suc p" q w] Cons.prems show ?thesis by auto
  next
    case (Ret r' qv)
    with off header_line_step_ret [OF Ret] Cons.prems show ?thesis by (cases qv) auto
  qed
qed

end
