(* ===== verification/Http_Message.thy ===== *)
theory Http_Message
  imports Http_Parser
begin

text \<open>
  What the message parser of \<open>core/http.cpp\<close> accepts and what it leaves in the parsed
  header: the messages a peer renders are read back, parsing can be resumed in the first
  line but not in the header lines, pointers stay inside the input, and the inputs on
  which the parser does not do what its callers expect.
\<close>

section \<open>Rendering\<close>

text \<open>The wire form of a request, the reference the parser is compared with.\<close>

definition methods :: "(bytes \<times> int) list" where
  "methods = [(''GET'', HTTP_GET), (''PUT'', HTTP_PUT), (''HEAD'', HTTP_HEAD), (''POST'', HTTP_POST),
     (''TRACE'', HTTP_TRACE), (''PATCH'', HTTP_PATCH), (''DELETE'', HTTP_DELETE),
     (''OPTIONS'', HTTP_OPTIONS), (''CONNECT'', HTTP_CONNECT)]"

definition digit :: "nat \<Rightarrow> char" where
  "digit n = char_of (48 + n)"

definition render_field :: "bytes \<times> bytes \<Rightarrow> bytes" where
  "render_field f = fst f @ '': '' @ snd f @ CRLF"

definition render_request_line :: "bytes \<Rightarrow> bytes \<Rightarrow> nat \<Rightarrow> nat \<Rightarrow> bytes" where
  "render_request_line m u major minor =
     m @ [SP] @ u @ '' HTTP/'' @ [digit major, CHR ''.'', digit minor] @ CRLF"

definition render_request :: "bytes \<Rightarrow> bytes \<Rightarrow> nat \<Rightarrow> nat \<Rightarrow> (bytes \<times> bytes) list \<Rightarrow> bytes" where
  "render_request m u major minor hs =
     render_request_line m u major minor @ concat (map render_field hs) @ CRLF"

definition uri_byte :: "char \<Rightarrow> bool" where
  "uri_byte c \<longleftrightarrow> \<not> is_ctl c \<and> c \<noteq> SP"

definition field_ok :: "bytes \<times> bytes \<Rightarrow> bool" where
  "field_ok f \<longleftrightarrow> fst f \<noteq> [] \<and> list_all is_token (fst f) \<and> list_all (\<lambda>c. \<not> is_ctl c) (snd f)"

section \<open>Runs of the first line\<close>

lemmas char_class_defs = is_char_def is_ctl_def is_tspecial_def is_digit_def c_int_def byte_val_def

lemma class_facts [simp, chars]:
  "is_ctl CR" "is_ctl LF" "is_ctl TAB" "\<not> is_ctl SP" "is_char SP" "is_char CR" "is_tspecial SP" "is_tspecial TAB"
  "\<not> is_digit SP" "\<not> is_digit CR" "\<not> is_digit (CHR ''.'')" "is_char TAB" "is_tspecial (CHR '':'')"
  by (simp_all add: char_class_defs)

lemma is_digit_digit [simp]: "n < 10 \<Longrightarrow> is_digit (digit n)"
  and c_int_digit [simp]: "n < 10 \<Longrightarrow> c_int (digit n) = 48 + int n"
  by (simp_all add: is_digit_def digit_def c_int_def)

text \<open>The method word, from the start of the input.\<close>

lemma run_method:
  assumes "(m, v) \<in> set methods" "p_state ps = start_st" "take (length m) data = m"
  shows "first_line_loop data 0 m ps = (PMore, ps\<lparr>p_state := space_before_uri_st, p_line_beg := 0,
           p_off := p_off ps + length m, p_hdr := (p_hdr ps)\<lparr>h_type := HTTP_REQUEST, h_code := v\<rparr>\<rparr>)"
proof -
  have t: "slice data 0 k = take k m" if "k \<le> length m" for k
    using that assms(3) by (metis slice_def drop0 min.absorb1 take_take)
  from assms(1) show ?thesis
    using assms(2) t unfolding methods_def
    by (auto simp: first_line_step_def check_word_def set_verb_def char_class_defs eval_nat_numeral)
qed


lemma run_uri:
  assumes "list_all uri_byte u" "p_state ps = uri_st"
  shows "first_line_loop data p u ps = (PMore, ps\<lparr>p_off := p_off ps + length u\<rparr>)"
  using assms
  by (induction u arbitrary: p ps) (auto simp: first_line_step_def uri_byte_def)

lemma run_space_uri:
  assumes "list_all uri_byte u" "p_state ps = space_before_uri_st"
  shows "first_line_loop data p (SP # u @ [SP]) ps =
    (PMore, ps\<lparr>p_state := http_version_h_st, p_off := p_off ps + length u + 2,
                p_hdr := (p_hdr ps)\<lparr>h_ptr := p + 1, h_len := length u\<rparr>\<rparr>)"
proof -
  let ?q = "ps\<lparr>p_state := uri_st, p_off := Suc (p_off ps), p_hdr := (p_hdr ps)\<lparr>h_ptr := Suc p\<rparr>\<rparr>"
  have "first_line_loop data (Suc p) (u @ [SP]) ?q =
      first_line_loop data (Suc p + length u) [SP] (?q\<lparr>p_off := p_off ?q + length u\<rparr>)"
    by (rule first_line_loop_more, rule run_uri) (simp_all add: assms)
  then show ?thesis
    using assms(2) by (cases ps) (simp add: first_line_step_def)
qed

lemma run_version:
  assumes "p_state ps = http_version_h_st" "major < 10" "minor < 10"
  shows "first_line_loop data p (''HTTP/'' @ [digit major, CHR ''.'', digit minor] @ CRLF) ps =
    (POk, ps\<lparr>p_state := start_st, p_off := p_off ps + 10, p_line_end := p + 10,
             p_hdr := (p_hdr ps)\<lparr>h_major := int major, h_minor := int minor\<rparr>\<rparr>)"
proof -
  have st: "signed_take_bit 7 (int n) = int n" if "n < 10" for n
    using that by (simp add: signed_take_bit_int_eq_self)
  show ?thesis
    using assms st [of major] st [of minor]
    by (simp add: first_line_step_def numeral_eq_Suc)
qed

lemma run_request_line:
  assumes "(m, v) \<in> set methods" "list_all uri_byte u" "major < 10" "minor < 10"
    and "data = render_request_line m u major minor @ rest"
    and "p_state ps = start_st" "p_off ps = 0"
  shows "first_line_loop data 0 data ps =
    (POk, ps\<lparr>p_state := start_st, p_line_beg := 0, p_line_end := length m + length u + 12,
             p_off := length m + length u + 12,
             p_hdr := (p_hdr ps)\<lparr>h_type := HTTP_REQUEST, h_major := int major, h_minor := int minor,
                h_code := v, h_ptr := Suc (length m), h_len := length u\<rparr>\<rparr>)"
proof -
  let ?q1 = "ps\<lparr>p_state := space_before_uri_st, p_line_beg := 0,
           p_off := p_off ps + length m, p_hdr := (p_hdr ps)\<lparr>h_type := HTTP_REQUEST, h_code := v\<rparr>\<rparr>"
  let ?q2 = "?q1\<lparr>p_state := http_version_h_st, p_off := p_off ?q1 + length u + 2,
                p_hdr := (p_hdr ?q1)\<lparr>h_ptr := length m + 1, h_len := length u\<rparr>\<rparr>"
  let ?ver = "''HTTP/'' @ [digit major, CHR ''.'', digit minor] @ CRLF"
  have data: "data = m @ (SP # u @ [SP]) @ ?ver @ rest"
    using assms(5) by (simp add: render_request_line_def)
  have 1: "first_line_loop data 0 m ps = (PMore, ?q1)"
    by (rule run_method) (use assms data in simp_all)
  have 2: "first_line_loop data (0 + length m) (SP # u @ [SP]) ?q1 = (PMore, ?q2)"
    using run_space_uri [OF assms(2), of ?q1] by simp
  have 3: "first_line_loop data (0 + length m + length (SP # u @ [SP])) (?ver @ rest) ?q2 =
     (POk, ?q2\<lparr>p_state := start_st, p_off := p_off ?q2 + 10, p_line_end := length m + length (SP # u @ [SP]) + 10,
             p_hdr := (p_hdr ?q2)\<lparr>h_major := int major, h_minor := int minor\<rparr>\<rparr>)"
    by (subst first_line_loop_append, subst run_version) (use assms(3,4) in simp_all)
  have "first_line_loop data 0 data ps = first_line_loop data 0 (m @ (SP # u @ [SP]) @ ?ver @ rest) ps"
    using data by simp
  also have "\<dots> = first_line_loop data (0 + length m + length (SP # u @ [SP])) (?ver @ rest) ?q2"
    by (simp only: first_line_loop_more [OF 1] first_line_loop_more [OF 2])
  finally show ?thesis
    unfolding 3 using assms(7) by simp
qed

section \<open>Runs of the header lines\<close>

text \<open>A run over a part of the input that neither ends nor fails is a state and a value.\<close>

primrec header_run :: "nat \<Rightarrow> bytes \<Rightarrow> nat \<Rightarrow> bytes \<Rightarrow> http_parser \<times> bytes \<Rightarrow> (http_parser \<times> bytes) option" where
  "header_run bid data p [] psv = Some psv"
| "header_run bid data p (c # cs) psv =
     (case header_line_step bid data p c ((fst psv)\<lparr>p_off := Suc (p_off (fst psv))\<rparr>, snd psv) of
        Ret _ _ \<Rightarrow> None
      | Cont psv' \<Rightarrow> header_run bid data (Suc p) cs psv')"

lemma header_run_more:
  "header_run bid data p xs (ps, v) = Some (ps', v') \<Longrightarrow>
   header_line_loop bid data p (xs @ ys) ps v = header_line_loop bid data (p + length xs) ys ps' v'"
proof (induction xs arbitrary: p ps v)
  case (Cons c xs)
  then show ?case
    by (cases "header_line_step bid data p c (ps\<lparr>p_off := Suc (p_off ps)\<rparr>, v)") auto
qed simp

lemma header_run_append:
  "header_run bid data p (xs @ ys) psv =
     (case header_run bid data p xs psv of None \<Rightarrow> None
      | Some psv' \<Rightarrow> header_run bid data (p + length xs) ys psv')"
  by (induction xs arbitrary: p psv) (auto split: step.splits option.splits)

lemma run_name:
  assumes "list_all is_token n" "p_state ps = header_name_st"
  shows "header_run bid data p n (ps, v) = Some (ps\<lparr>p_off := p_off ps + length n\<rparr>, v)"
  using assms
proof (induction n arbitrary: p ps)
  case (Cons c n)
  from Cons.prems have "is_char c" "\<not> is_ctl c" "\<not> is_tspecial c" "c \<noteq> CHR '':''"
    by (auto simp: is_token_def)
  with Cons show ?case by (simp add: header_line_step_def)
qed simp

lemma run_value:
  assumes "list_all (\<lambda>c. \<not> is_ctl c) w" "p_state ps = header_value_st"
  shows "header_run bid data p w (ps, v) = Some (ps\<lparr>p_off := p_off ps + length w\<rparr>, v @ w)"
  using assms
proof (induction w arbitrary: p ps v)
  case (Cons c w)
  from Cons.prems have "\<not> is_ctl c" "c \<noteq> CR" by auto
  with Cons show ?case by (simp add: header_line_step_def)
qed simp

text \<open>
  The headers parsed so far: those in the map and the one whose name and value are held
  back until the next line starts or the header ends.
\<close>

definition pending :: "bytes \<Rightarrow> http_parser \<Rightarrow> bytes \<Rightarrow> (bytes \<times> bytes) list" where
  "pending data ps v = (case p_name_beg ps of
      None \<Rightarrow> h_headers (p_hdr ps)
    | Some nb \<Rightarrow> al_insert (h_headers (p_hdr ps)) (slice data nb (p_name_end ps - nb)) v)"

definition line_start :: "nat \<Rightarrow> http_parser \<Rightarrow> bytes \<Rightarrow> bool" where
  "line_start bid ps v \<longleftrightarrow> p_state ps = start_st \<and>
     (if p_name_beg ps = None then v = [] else p_name_buf ps = bid)"

lemma insert_header_pending:
  "line_start bid ps v \<Longrightarrow>
   insert_header bid data ps v = Some (ps\<lparr>p_hdr := (p_hdr ps)\<lparr>h_headers := pending data ps v\<rparr>\<rparr>)"
  by (auto simp: insert_header_def line_start_def pending_def split: option.splits if_splits)

lemma run_field_open:
  assumes ls: "line_start bid ps v" and ok: "field_ok (n, w)"
  shows "header_run bid data p (n @ '': '' @ w) (ps, v) =
    Some (ps\<lparr>p_off := p_off ps + length n + 2 + length w, p_hdr := (p_hdr ps)\<lparr>h_headers := pending data ps v\<rparr>,
             p_name_beg := Some p, p_name_buf := bid, p_name_end := p + length n, p_state := header_value_st\<rparr>, w)"
proof -
  obtain c n' where n: "n = c # n'"
    using ok by (cases n) (auto simp: field_ok_def)
  have tok: "is_token c" "list_all is_token n'" "list_all (\<lambda>c. \<not> is_ctl c) w"
    using ok n by (auto simp: field_ok_def)
  then have c: "is_char c" "\<not> is_ctl c" "\<not> is_tspecial c" "c \<noteq> CR" "c \<noteq> SP" "c \<noteq> TAB"
    by (auto simp: is_token_def)
  let ?q1 = "ps\<lparr>p_off := Suc (p_off ps), p_hdr := (p_hdr ps)\<lparr>h_headers := pending data ps v\<rparr>,
        p_name_beg := Some p, p_name_buf := bid, p_state := header_name_st\<rparr>"
  have ls': "line_start bid (ps\<lparr>p_off := Suc (p_off ps)\<rparr>) v" using ls by (simp add: line_start_def)
  have pend: "pending data (ps\<lparr>p_off := Suc (p_off ps)\<rparr>) v = pending data ps v"
    by (simp add: pending_def split: option.splits)
  have v0: "(if p_name_beg ps \<noteq> None then [] else v) = []"
    using ls by (auto simp: line_start_def)
  have 1: "header_run bid data p [c] (ps, v) = Some (?q1, [])"
    using ls c v0 insert_header_pending [OF ls', of data] pend
    by (auto simp: header_line_step_def line_start_def)
  have 2: "header_run bid data (Suc p) n' (?q1, []) = Some (?q1\<lparr>p_off := p_off ?q1 + length n'\<rparr>, [])"
    by (rule run_name) (simp_all add: tok)
  let ?q2 = "?q1\<lparr>p_off := p_off ?q1 + length n' + 2, p_name_end := Suc (p + length n'), p_state := header_value_st\<rparr>"
  have 3: "header_run bid data (Suc (p + length n')) '': '' (?q1\<lparr>p_off := p_off ?q1 + length n'\<rparr>, []) =
      Some (?q2, [])"
    by (simp add: header_line_step_def)
  have 4: "header_run bid data (Suc (p + length n') + 2) w (?q2, []) = Some (?q2\<lparr>p_off := p_off ?q2 + length w\<rparr>, w)"
    using run_value [OF tok(3), of ?q2 bid data "Suc (p + length n') + 2" "[]"] by simp
  have "n @ '': '' @ w = [c] @ n' @ '': '' @ w" by (simp add: n)
  then have "header_run bid data p (n @ '': '' @ w) (ps, v) = Some (?q2\<lparr>p_off := p_off ?q2 + length w\<rparr>, w)"
    by (simp only: header_run_append 1 2 3 4 option.case) (use 2 3 4 in \<open>simp add: add.commute add.left_commute\<close>)
  then show ?thesis by (simp add: n add.commute add.left_commute)
qed

lemma run_field:
  assumes ls: "line_start bid ps v" and ok: "field_ok f" and d: "take (length (render_field f)) (drop p data) = render_field f"
  shows "\<exists>ps'. header_run bid data p (render_field f) (ps, v) = Some (ps', snd f) \<and>
           line_start bid ps' (snd f) \<and>
           pending data ps' (snd f) = al_insert (pending data ps v) (fst f) (snd f) \<and>
           p_off ps' = p_off ps + length (render_field f) \<and>
           (\<exists>hs. p_hdr ps' = (p_hdr ps)\<lparr>h_headers := hs\<rparr>)"
proof -
  obtain n w where f: "f = (n, w)" by fastforce
  let ?q2 = "ps\<lparr>p_off := p_off ps + length n + 2 + length w, p_hdr := (p_hdr ps)\<lparr>h_headers := pending data ps v\<rparr>,
             p_name_beg := Some p, p_name_buf := bid, p_name_end := p + length n, p_state := header_value_st\<rparr>"
  let ?q3 = "?q2\<lparr>p_off := p_off ?q2 + 2, p_state := start_st\<rparr>"
  have r: "render_field f = (n @ '': '' @ w) @ CRLF" by (simp add: f render_field_def)
  have run: "header_run bid data p (render_field f) (ps, v) = Some (?q3, w)"
    unfolding r header_run_append [of _ _ _ "n @ '': '' @ w"] run_field_open [OF ls ok [unfolded f]]
    by (simp add: header_line_step_def)
  have "slice data p (length n) = n"
  proof -
    have "slice data p (length n) = take (length n) (take (length (render_field f)) (drop p data))"
      by (simp add: slice_def f render_field_def)
    also have "\<dots> = n" by (simp only: d) (simp add: f render_field_def)
    finally show ?thesis .
  qed
  then show ?thesis
    using run by (intro exI [of _ ?q3]) (auto simp: f line_start_def pending_def render_field_def)
qed

lemma run_fields:
  assumes "line_start bid ps v" "list_all field_ok fs"
    "take (length (concat (map render_field fs))) (drop p data) = concat (map render_field fs)"
  shows "\<exists>ps' v'. header_run bid data p (concat (map render_field fs)) (ps, v) = Some (ps', v') \<and>
           line_start bid ps' v' \<and>
           pending data ps' v' = fold (\<lambda>f m. al_insert m (fst f) (snd f)) fs (pending data ps v) \<and>
           p_off ps' = p_off ps + length (concat (map render_field fs)) \<and>
           (\<exists>hs. p_hdr ps' = (p_hdr ps)\<lparr>h_headers := hs\<rparr>)"
  using assms
proof (induction fs arbitrary: p ps v)
  case Nil
  then show ?case by (auto intro!: exI [of _ "h_headers (p_hdr ps)"])
next
  case (Cons f fs)
  let ?r = "render_field f" and ?rs = "concat (map render_field fs)"
  have d: "take (length ?r + length ?rs) (drop p data) = ?r @ ?rs"
    using Cons.prems(3) by simp
  then have d1: "take (length ?r) (drop p data) = ?r"
    by (metis (no_types, lifting) append_eq_conv_conj le_add1 min.absorb1 take_take)
  have d2: "take (length ?rs) (drop (p + length ?r) data) = ?rs"
    using d by (metis (no_types, lifting) add.commute append_eq_conv_conj drop_drop take_drop)
  obtain ps1 where 1: "header_run bid data p ?r (ps, v) = Some (ps1, snd f)" "line_start bid ps1 (snd f)"
      "pending data ps1 (snd f) = al_insert (pending data ps v) (fst f) (snd f)"
      "p_off ps1 = p_off ps + length ?r" "\<exists>hs. p_hdr ps1 = (p_hdr ps)\<lparr>h_headers := hs\<rparr>"
    using run_field [OF Cons.prems(1) _ d1] Cons.prems(2) by auto
  have "list_all field_ok fs" using Cons.prems(2) by simp
  from Cons.IH [OF 1(2) this d2]
  obtain ps2 v2 where 2: "header_run bid data (p + length ?r) ?rs (ps1, snd f) = Some (ps2, v2)"
      "line_start bid ps2 v2"
      "pending data ps2 v2 = fold (\<lambda>f m. al_insert m (fst f) (snd f)) fs (pending data ps1 (snd f))"
      "p_off ps2 = p_off ps1 + length ?rs" "\<exists>hs. p_hdr ps2 = (p_hdr ps1)\<lparr>h_headers := hs\<rparr>"
    by blast
  have "header_run bid data p (concat (map render_field (f # fs))) (ps, v) = Some (ps2, v2)"
    by (simp add: header_run_append 1(1) 2(1))
  moreover have "\<exists>hs. p_hdr ps2 = (p_hdr ps)\<lparr>h_headers := hs\<rparr>" using 1(5) 2(5) by auto
  ultimately show ?case using 1 2 by auto
qed

lemma run_header_end:
  assumes "line_start bid ps v"
  shows "header_line_loop bid data p (CRLF @ rest) ps v =
    (POk, ps\<lparr>p_off := p_off ps + 2, p_state := header_almost_done_st, p_hdr_len := p_off ps + 2,
             p_hdr := (p_hdr ps)\<lparr>h_headers := pending data ps v\<rparr>\<rparr>)"
proof -
  let ?q = "ps\<lparr>p_off := p_off ps + 2, p_state := header_almost_done_st\<rparr>"
  have "insert_header bid data ?q v = Some (?q\<lparr>p_hdr := (p_hdr ps)\<lparr>h_headers := pending data ps v\<rparr>\<rparr>)"
    using assms by (auto simp: insert_header_def pending_def line_start_def split: option.splits)
  then show ?thesis
    using assms by (cases ps) (simp add: header_line_step_def line_start_def numeral_eq_Suc)
qed

text \<open>Inserting with the first value kept, field by field.\<close>

definition header_map :: "(bytes \<times> bytes) list \<Rightarrow> (bytes \<times> bytes) list" where
  "header_map fs = fold (\<lambda>f m. al_insert m (fst f) (snd f)) fs []"

lemma fold_al_insert_distinct:
  "distinct (map fst (m @ fs)) \<Longrightarrow> fold (\<lambda>f m. al_insert m (fst f) (snd f)) fs m = m @ fs"
proof (induction fs arbitrary: m)
  case (Cons f fs)
  then have "al_insert m (fst f) (snd f) = m @ [f]" by (simp add: al_insert_fresh)
  with Cons show ?case by auto
qed simp

lemma header_map_distinct: "distinct (map fst fs) \<Longrightarrow> header_map fs = fs"
  using fold_al_insert_distinct [of "[]" fs] by (simp add: header_map_def)

lemma map_of_fold_al_insert:
  "map_of (fold (\<lambda>f m. al_insert m (fst f) (snd f)) fs m) k =
     (case map_of m k of Some x \<Rightarrow> Some x | None \<Rightarrow> map_of fs k)"
  by (induction fs arbitrary: m) (auto split: option.splits)

lemma map_of_header_map: "map_of (header_map fs) = map_of fs"
  by (rule ext) (simp add: header_map_def map_of_fold_al_insert)

text \<open>A valid request line and valid header lines bring the parser to the start of a line.\<close>

lemma parse_to_fields:
  assumes "(m, v) \<in> set methods" "list_all uri_byte u" "major < 10" "minor < 10" "list_all field_ok fs"
    and data: "data = render_request_line m u major minor @ concat (map render_field fs) @ rest"
  shows "\<exists>ps' v' p. parse_header bid data (length data) (parser_reset ps0) = header_line_loop bid data p rest ps' v' \<and>
     line_start bid ps' v' \<and> pending data ps' v' = header_map fs \<and>
     p_off ps' = length (render_request_line m u major minor) + length (concat (map render_field fs)) \<and>
     (\<exists>hs. p_hdr ps' = (p_hdr ps0)\<lparr>h_type := HTTP_REQUEST, h_major := int major, h_minor := int minor, h_code := v,
        h_ptr := Suc (length m), h_len := length u, h_headers := hs\<rparr>)"
proof -
  let ?fs = "concat (map render_field fs)"
  let ?n = "length m + length u + 12"
  have n: "length (render_request_line m u major minor) = ?n" by (simp add: render_request_line_def)
  let ?r = "(parser_reset ps0)\<lparr>p_state := start_st, p_line_beg := 0, p_line_end := ?n, p_off := ?n,
       p_hdr := (p_hdr (parser_reset ps0))\<lparr>h_type := HTTP_REQUEST, h_major := int major, h_minor := int minor,
                h_code := v, h_ptr := Suc (length m), h_len := length u\<rparr>\<rparr>"
  have 1: "parse_first_line data (length data) (parser_reset ps0) = (POk, ?r)"
  proof -
    have "first_line_loop data 0 data (parser_reset ps0) = (POk, ?r)"
      by (rule run_request_line [OF assms(1-4) data]) (simp_all add: parser_reset_def)
    then show ?thesis by (simp add: parse_first_line_def parser_reset_def slice_all)
  qed
  have rest: "drop ?n data = ?fs @ rest"
    by (simp only: data append_assoc flip: n) simp
  have ls: "line_start bid ?r []" by (simp add: line_start_def parser_reset_def)
  have d: "take (length ?fs) (drop ?n data) = ?fs" by (simp only: rest) simp
  from run_fields [OF ls assms(5) d]
  obtain ps' v' where 2: "header_run bid data ?n ?fs (?r, []) = Some (ps', v')" "line_start bid ps' v'"
      "pending data ps' v' = fold (\<lambda>f m. al_insert m (fst f) (snd f)) fs (pending data ?r [])"
      "p_off ps' = ?n + length ?fs" "\<exists>hs. p_hdr ps' = (p_hdr ?r)\<lparr>h_headers := hs\<rparr>"
    by auto
  have p0: "pending data ?r [] = []" by (simp add: pending_def parser_reset_def)
  have "parse_header bid data (length data) (parser_reset ps0) = parse_header_line bid data (length data) ?r"
    by (simp add: parse_header_def 1)
  also have "\<dots> = header_line_loop bid data ?n (?fs @ rest) ?r []"
    unfolding parse_header_line_def by (simp add: slice_rest rest)
  also have "\<dots> = header_line_loop bid data (?n + length ?fs) rest ps' v'"
    by (rule header_run_more [OF 2(1)])
  finally show ?thesis
    using 2(2-5) unfolding p0 n header_map_def [symmetric]
    by (intro exI [of _ ps'] exI [of _ v'] exI [of _ "?n + length ?fs"])
      (simp add: parser_reset_def)
qed

lemma parse_render_request:
  assumes "(m, v) \<in> set methods" "list_all uri_byte u" "major < 10" "minor < 10" "list_all field_ok fs"
    and "data = render_request m u major minor fs @ rest"
  shows "\<exists>ps. parse_header bid data (length data) (parser_reset ps0) = (POk, ps) \<and>
     p_hdr ps = (p_hdr ps0)\<lparr>h_type := HTTP_REQUEST, h_major := int major, h_minor := int minor, h_code := v,
        h_ptr := Suc (length m), h_len := length u, h_headers := header_map fs\<rparr> \<and>
     p_hdr_len ps = length (render_request m u major minor fs)"
proof -
  have "data = render_request_line m u major minor @ concat (map render_field fs) @ (CRLF @ rest)"
    using assms(6) by (simp add: render_request_def)
  from parse_to_fields [OF assms(1-5) this, of bid ps0]
  obtain ps' v' p where 1: "parse_header bid data (length data) (parser_reset ps0) =
        header_line_loop bid data p (CRLF @ rest) ps' v'" "line_start bid ps' v'" "pending data ps' v' = header_map fs"
      "p_off ps' = length (render_request_line m u major minor) + length (concat (map render_field fs))"
    and hs: "\<exists>hs. p_hdr ps' = (p_hdr ps0)\<lparr>h_type := HTTP_REQUEST, h_major := int major, h_minor := int minor,
        h_code := v, h_ptr := Suc (length m), h_len := length u, h_headers := hs\<rparr>"
    by blast
  show ?thesis
    unfolding 1(1) run_header_end [OF 1(2)]
    by (rule exI, rule conjI [OF refl]) (use hs 1(3,4) in \<open>auto simp: render_request_def\<close>)
qed

text \<open>
  C30: a request in wire form is read back by \<open>parse_header\<close> on a parser that was reset: the
  method, the version, the extent of the URI, every header with the first value of a
  repeated name, and the length of the header; bytes after the blank line are not looked at.
\<close>

theorem request_roundtrip:
  assumes "(m, v) \<in> set methods" "list_all uri_byte u" "major < 10" "minor < 10" "list_all field_ok fs"
  shows "\<exists>ps. parse_header bid (render_request m u major minor fs @ rest)
              (length (render_request m u major minor fs @ rest)) (parser_reset ps0) = (POk, ps) \<and>
     h_type (p_hdr ps) = HTTP_REQUEST \<and> h_code (p_hdr ps) = v \<and>
     h_major (p_hdr ps) = int major \<and> h_minor (p_hdr ps) = int minor \<and>
     slice (render_request m u major minor fs @ rest) (h_ptr (p_hdr ps)) (h_len (p_hdr ps)) = u \<and>
     (\<forall>k. find_header (p_hdr ps) k = map_of fs k) \<and>
     p_hdr_len ps = length (render_request m u major minor fs)"
proof -
  have "slice (render_request m u major minor fs @ rest) (Suc (length m)) (length u) = u"
    using slice_append_mid [of "m @ [SP]" "Suc (length m)" u "length u"]
    by (simp add: render_request_def render_request_line_def)
  with parse_render_request [OF assms refl, of bid rest ps0]
  show ?thesis by (auto simp: find_header_def map_of_header_map)
qed

theorem request_roundtrip_witness:
  "\<exists>ps. parse_header 0 (render_request ''GET'' ''/a?b=1'' 1 1 [(''Host'', ''x''), (''Content-Length'', ''5'')] @ ''hello'')
        (length (render_request ''GET'' ''/a?b=1'' 1 1 [(''Host'', ''x''), (''Content-Length'', ''5'')] @ ''hello''))
        (parser_reset new_parser) = (POk, ps) \<and>
     h_code (p_hdr ps) = HTTP_GET \<and> find_header (p_hdr ps) ''Content-Length'' = Some ''5''"
proof -
  have 1: "(''GET'', HTTP_GET) \<in> set methods" by (simp add: methods_def)
  have 2: "list_all uri_byte ''/a?b=1''" by (simp add: uri_byte_def char_class_defs)
  have 3: "list_all field_ok [(''Host'', ''x''), (''Content-Length'', ''5'')]"
    by (simp add: field_ok_def is_token_def char_class_defs)
  show ?thesis
    using request_roundtrip [OF 1 2 _ _ 3, of 1 1 0 "''hello''" new_parser] by auto
qed


section \<open>Resuming\<close>

text \<open>
  C37: the first line may arrive in pieces. When the first \<open>n\<close> bytes are not enough, a
  second call with more bytes ends in the result and the parser state of one call with all
  of them.
\<close>

theorem first_line_resumable:
  assumes "p_off ps \<le> n" "n \<le> m" "m \<le> length data"
    and more: "parse_first_line data n ps = (PMore, ps')"
  shows "parse_first_line data m ps' = parse_first_line data m ps"
proof -
  let ?a = "slice data (p_off ps) (n - p_off ps)" and ?b = "slice data n (m - n)"
  have ab: "slice data (p_off ps) (m - p_off ps) = ?a @ ?b"
  proof -
    have "m - p_off ps = (n - p_off ps) + (m - n)" using assms by simp
    then have "slice data (p_off ps) (m - p_off ps) =
        take ((n - p_off ps) + (m - n)) (drop (p_off ps) data)" by (simp only: slice_def)
    also have "\<dots> = ?a @ ?b" using assms(1) by (simp only: take_add drop_drop slice_def) simp
    finally show ?thesis .
  qed
  have la: "length ?a = n - p_off ps" using assms by (simp add: slice_def)
  have off: "p_off ps' = n"
    using first_line_loop_off [OF more [unfolded parse_first_line_def]] la assms(1) by simp
  have "first_line_loop data (p_off ps) (?a @ ?b) ps = first_line_loop data (p_off ps + length ?a) ?b ps'"
    by (rule first_line_loop_more [OF more [unfolded parse_first_line_def]])
  then show ?thesis using ab la off assms(1) by (simp add: parse_first_line_def)
qed

theorem first_line_resumable_witness:
  "parse_first_line ''GET / HTTP/1.1'' 14 (snd (parse_first_line ''GET / HTTP/1.1'' 5 (parser_reset new_parser))) =
   parse_first_line ''GET / HTTP/1.1'' 14 (parser_reset new_parser)"
  by (rule first_line_resumable [of _ 5])
     (simp_all add: parse_first_line_def parser_reset_def new_parser_def new_header_def slice_def
        first_line_step_def check_word_def set_verb_def char_class_defs eval_nat_numeral)

text \<open>
  The header lines cannot: the value being read lives in a local of
  \<open>parse_header_line\<close>, so a second call after a short first one keeps the name and loses
  the bytes of the value that had been read.
\<close>

theorem header_line_not_resumable:
  "(let d = ''A: xy'' @ CRLF @ CRLF;
        whole = parse_header_line 0 d 9 (parser_reset new_parser);
        first = parse_header_line 0 d 4 (parser_reset new_parser);
        resumed = parse_header_line 0 d 9 (snd first)
    in fst whole = POk \<and> find_header (p_hdr (snd whole)) ''A'' = Some ''xy'' \<and>
       fst first = PMore \<and> fst resumed = POk \<and> find_header (p_hdr (snd resumed)) ''A'' = Some ''y'')"
  by (simp add: Let_def parse_header_line_def parser_reset_def new_parser_def new_header_def slice_def
        header_line_step_def insert_header_def char_class_defs find_header_def al_insert_def)

section \<open>Pointers of the first line\<close>

definition clean :: "bytes \<Rightarrow> nat \<Rightarrow> nat \<Rightarrow> bool" where
  "clean data i j \<longleftrightarrow> i \<le> j \<and> (\<forall>k. i \<le> k \<and> k < j \<longrightarrow> \<not> is_ctl (data ! k))"

definition line_inv :: "bytes \<Rightarrow> nat \<Rightarrow> http_parser \<Rightarrow> bool" where
  "line_inv data p ps \<longleftrightarrow>
     (let h = p_hdr ps; fin = (h_ptr h + h_len h \<le> p \<and> clean data (h_ptr h) (h_ptr h + h_len h)) in
      (case p_state ps of
         start_st \<Rightarrow> True | check_st \<Rightarrow> True | space_before_uri_st \<Rightarrow> True
       | uri_st \<Rightarrow> clean data (h_ptr h) p
       | status_text_st \<Rightarrow> clean data (h_ptr h) p
       | http_version_h_st \<Rightarrow> fin | http_version_t_1_st \<Rightarrow> fin | http_version_t_2_st \<Rightarrow> fin
       | http_version_p_st \<Rightarrow> fin
       | http_version_slash_st \<Rightarrow> h_type h = HTTP_REQUEST \<longrightarrow> fin
       | http_version_major_st \<Rightarrow> h_type h = HTTP_REQUEST \<longrightarrow> fin
       | http_version_minor_st \<Rightarrow> h_type h = HTTP_REQUEST \<longrightarrow> fin
       | status_code_st \<Rightarrow> h_type h = HTTP_REQUEST \<longrightarrow> fin
       | almost_done_st \<Rightarrow> h_type h = HTTP_REQUEST \<longrightarrow> fin
       | _ \<Rightarrow> False))"

lemma clean_Suc: "clean data i p \<Longrightarrow> \<not> is_ctl (data ! p) \<Longrightarrow> clean data i (Suc p)"
  by (auto simp: clean_def less_Suc_eq)

lemma clean_refl: "clean data i i"
  by (auto simp: clean_def)

lemma line_inv_off [simp]: "line_inv data p (ps\<lparr>p_off := n\<rparr>) = line_inv data p ps"
  by (simp add: line_inv_def)

lemma first_line_step_inv:
  assumes "line_inv data p ps" "c = data ! p"
  shows "case first_line_step data p c ps of
           Cont ps' \<Rightarrow> line_inv data (Suc p) ps'
         | Ret r ps' \<Rightarrow> r = POk \<longrightarrow> h_type (p_hdr ps') = HTTP_REQUEST \<longrightarrow>
             h_ptr (p_hdr ps') + h_len (p_hdr ps') \<le> p \<and>
             clean data (h_ptr (p_hdr ps')) (h_ptr (p_hdr ps') + h_len (p_hdr ps'))"
proof -
  have req: "HTTP_REQUEST \<noteq> HTTP_RESPONSE" by (simp add: HTTP_REQUEST_def HTTP_RESPONSE_def)
  show ?thesis
    using assms
    by (cases "p_state ps")
       (auto simp: first_line_step_def line_inv_def check_word_def set_verb_def Let_def clean_refl req req [symmetric]
          intro: clean_Suc simp: clean_def [of _ "h_ptr _" p])
qed


lemma first_line_loop_inv:
  assumes "line_inv data p ps" "drop p data = cs @ rest" "p_off ps = p"
  shows "case first_line_loop data p cs ps of
           (POk, ps') \<Rightarrow> h_type (p_hdr ps') = HTTP_REQUEST \<longrightarrow>
             h_ptr (p_hdr ps') + h_len (p_hdr ps') < p_off ps' \<and>
             clean data (h_ptr (p_hdr ps')) (h_ptr (p_hdr ps') + h_len (p_hdr ps'))
         | (PMore, ps') \<Rightarrow> line_inv data (p + length cs) ps' | _ \<Rightarrow> True"
  using assms
proof (induction cs arbitrary: p ps)
  case (Cons c cs)
  let ?q = "ps\<lparr>p_off := Suc (p_off ps)\<rparr>"
  have c: "c = data ! p" and d: "drop (Suc p) data = cs @ rest"
    using Cons.prems(2) by (metis append_Cons hd_drop_conv_nth list.sel(1) list.discI drop_all not_le_imp_less)
      (metis Cons.prems(2) append_Cons drop_Suc list.sel(3) tl_drop)
  note off = first_line_step_off [where data = data and p = p and c = c and ps = ?q]
  note inv = first_line_step_inv [of data p ?q c, unfolded line_inv_off, OF Cons.prems(1) c]
  show ?case
  proof (cases "first_line_step data p c ?q")
    case (Cont ps')
    with inv off Cons.prems(3) have "line_inv data (Suc p) ps'" "p_off ps' = Suc p" by simp_all
    from Cons.IH [OF this(1) d this(2)] Cont show ?thesis
      by (cases "first_line_loop data (Suc p) cs ps'"; cases "fst (first_line_loop data (Suc p) cs ps')") auto
  next
    case (Ret r ps')
    with inv off Cons.prems(3) first_line_step_ret [OF Ret] show ?thesis by (auto simp: less_Suc_eq_le)
  qed
qed simp

text \<open>
  C36: whatever bytes arrive, when the first line parses and the message is a request, the
  offset and length kept for the URI lie inside the bytes read so far, and none of them is
  a control character; so the later reads and writes through the URI pointer (its
  terminator included) stay in the buffer.
\<close>

theorem request_uri_in_bounds:
  assumes "len \<le> length data" "parse_first_line data len (parser_reset ps0) = (POk, ps)"
    and "h_type (p_hdr ps) = HTTP_REQUEST"
  shows "h_ptr (p_hdr ps) + h_len (p_hdr ps) < p_off ps \<and> p_off ps \<le> len \<and>
     (\<forall>c \<in> set (slice data (h_ptr (p_hdr ps)) (h_len (p_hdr ps))). \<not> is_ctl c)"
proof -
  let ?d = "take len data" and ?r = "parser_reset ps0"
  have r: "p_off ?r = 0" "line_inv data 0 ?r" by (simp_all add: parser_reset_def line_inv_def)
  have run: "first_line_loop data 0 ?d ?r = (POk, ps)"
    using assms(2) r by (simp add: parse_first_line_def slice_def)
  have "drop 0 data = ?d @ drop len data" by simp
  from first_line_loop_inv [OF r(2) this r(1)] run assms(3)
  have 1: "h_ptr (p_hdr ps) + h_len (p_hdr ps) < p_off ps"
    and 2: "clean data (h_ptr (p_hdr ps)) (h_ptr (p_hdr ps) + h_len (p_hdr ps))" by simp_all
  have 3: "p_off ps \<le> len" using first_line_loop_off [OF run] r assms(1) by simp
  have "\<not> is_ctl c" if "c \<in> set (slice data (h_ptr (p_hdr ps)) (h_len (p_hdr ps)))" for c
  proof -
    from that obtain i where "i < h_len (p_hdr ps)" "c = data ! (h_ptr (p_hdr ps) + i)"
      by (auto simp: slice_def in_set_conv_nth)
    then show ?thesis using 2 by (simp add: clean_def)
  qed
  with 1 3 show ?thesis by blast
qed

theorem request_uri_in_bounds_witness:
  "(let ps = snd (parse_first_line (''GET /x HTTP/1.1'' @ CRLF) 17 (parser_reset new_parser)) in
     h_ptr (p_hdr ps) + h_len (p_hdr ps) < p_off ps \<and> p_off ps \<le> 17)"
proof -
  let ?d = "''GET /x HTTP/1.1'' @ CRLF"
  let ?r = "parse_first_line ?d 17 (parser_reset new_parser)"
  have "fst ?r = POk \<and> h_type (p_hdr (snd ?r)) = HTTP_REQUEST"
    by (simp add: parse_first_line_def parser_reset_def new_parser_def new_header_def slice_def
        first_line_step_def check_word_def set_verb_def char_class_defs eval_nat_numeral signed_take_bit_int_eq_self)
  then show ?thesis
    using request_uri_in_bounds [of 17 ?d new_parser "snd ?r"] by (simp add: Let_def prod_eq_iff)
qed

section \<open>Inputs the callers do not expect\<close>

text \<open>
  A header value with a horizontal tab is refused, after any valid request line and
  any valid headers: the test \<open>c != ' ' || c != '\t'\<close> that is meant to let it through
  holds of every byte.
\<close>

theorem tab_in_value_refused:
  assumes "(m, v) \<in> set methods" "list_all uri_byte u" "major < 10" "minor < 10"
    and "list_all field_ok fs" "field_ok (n, w)"
    and "data = render_request_line m u major minor @ concat (map render_field fs) @ n @ '': '' @ w @ TAB # rest"
  shows "fst (parse_header bid data (length data) (parser_reset ps0)) = PFail"
proof -
  from parse_to_fields [OF assms(1-5,7), of bid ps0]
  obtain ps' v' p where 1: "parse_header bid data (length data) (parser_reset ps0) =
        header_line_loop bid data p (n @ '': '' @ w @ TAB # rest) ps' v'" "line_start bid ps' v'"
    by blast
  have "n @ '': '' @ w @ TAB # rest = (n @ '': '' @ w) @ TAB # rest" by simp
  then have "parse_header bid data (length data) (parser_reset ps0) =
        header_line_loop bid data p ((n @ '': '' @ w) @ TAB # rest) ps' v'"
    using 1(1) by (simp only:)
  also note header_run_more [OF run_field_open [OF 1(2) assms(6)]]
  finally show ?thesis by (simp add: header_line_step_def)
qed

theorem tab_in_value_refused_witness:
  "fst (parse_header 0 (''GET / HTTP/1.1'' @ CRLF @ ''A: b'' @ [TAB, CHR ''c''] @ CRLF @ CRLF) 26
     (parser_reset new_parser)) = PFail"
proof -
  have 1: "(''GET'', HTTP_GET) \<in> set methods" by (simp add: methods_def)
  have 2: "list_all uri_byte ''/''" by (simp add: uri_byte_def char_class_defs)
  have 3: "field_ok (''A'', ''b'')" by (simp add: field_ok_def is_token_def char_class_defs)
  have 4: "''GET / HTTP/1.1'' @ CRLF @ ''A: b'' @ [TAB, CHR ''c''] @ CRLF @ CRLF =
      render_request_line ''GET'' ''/'' 1 1 @ concat (map render_field []) @ ''A'' @ '': '' @ ''b'' @ TAB # (''c'' @ CRLF @ CRLF)"
    by (simp add: render_request_line_def) (simp add: digit_def char_of_def bit_simps)
  show ?thesis
    using tab_in_value_refused [OF 1 2 _ _ _ 3 4, of 0 new_parser] by (simp add: eval_nat_numeral)
qed


definition starts_with_word :: "bytes \<Rightarrow> bool" where
  "starts_with_word w \<longleftrightarrow> (\<exists>m \<in> set (''HTTP'' # map fst methods). take (length m) w = m)"

lemma check_word_none:
  assumes "\<not> starts_with_word w" "Suc k \<le> length w"
  shows "check_word ps k (take (Suc k) w) = ps"
  using assms
  by (auto simp: check_word_def starts_with_word_def methods_def eval_nat_numeral)

text \<open>
  A first line of printable bytes without a space that does not begin with a method
  name is neither accepted nor refused, however long it is: the parser answers that it
  needs more data, the answer on which \<open>read_header\<close> asserts.
\<close>

theorem unknown_word_wants_more:
  assumes "w \<noteq> []" "is_token (hd w)" "SP \<notin> set w" "\<not> starts_with_word w"
  shows "fst (parse_header bid w (length w) (parser_reset ps0)) = PMore"
proof -
  have run: "first_line_loop w p (drop p w) q = (PMore, q\<lparr>p_off := p_off q + (length w - p)\<rparr>)"
    if "p_state q = check_st" "p_line_beg q = 0" "p \<le> length w" for p q
    using that
  proof (induction "length w - p" arbitrary: p q)
    case 0
    then show ?case by simp
  next
    case (Suc d)
    then have p: "p < length w" by simp
    then have c: "w ! p \<noteq> SP" using assms(3) nth_mem by metis
    have sl: "slice w 0 (Suc p) = take (Suc p) w" by (simp add: slice_def)
    have cw: "check_word q p (take (Suc p) w) = q" for q
      by (rule check_word_none [OF assms(4)]) (use p in simp)
    have st: "first_line_step w p (w ! p) (q\<lparr>p_off := Suc (p_off q)\<rparr>) = Cont (q\<lparr>p_off := Suc (p_off q)\<rparr>)"
      using Suc.prems c by (simp add: first_line_step_def sl cw)
    have "first_line_loop w (Suc p) (drop (Suc p) w) (q\<lparr>p_off := Suc (p_off q)\<rparr>) =
        (PMore, q\<lparr>p_off := Suc (p_off q) + (length w - Suc p)\<rparr>)"
      using Suc.hyps(1) [of "Suc p" "q\<lparr>p_off := Suc (p_off q)\<rparr>"] Suc.hyps(2) Suc.prems p by simp
    with st p show ?case by (simp add: drop_Cons_nth)
  qed
  obtain c cs where w: "w = c # cs" using assms(1) by (cases w) auto
  have c: "is_char c" "\<not> is_ctl c" "\<not> is_tspecial c" using assms(2) w by (auto simp: is_token_def)
  let ?q = "(parser_reset ps0)\<lparr>p_off := 1, p_state := check_st,
      p_hdr := (p_hdr (parser_reset ps0))\<lparr>h_type := HTTP_REQUEST\<rparr>, p_line_beg := 0\<rparr>"
  have "parse_first_line w (length w) (parser_reset ps0) = first_line_loop w 1 (drop 1 w) ?q"
    using c by (cases ps0) (simp add: parse_first_line_def slice_def first_line_step_def parser_reset_def w)
  also have "\<dots> = (PMore, ?q\<lparr>p_off := length w\<rparr>)"
    using run [of ?q 1] w by simp
  finally show ?thesis by (simp add: parse_header_def)
qed

theorem unknown_word_wants_more_witness:
  "fst (parse_header 0 (''XXXX'' @ CRLF @ CRLF) 8 (parser_reset new_parser)) = PMore"
  using unknown_word_wants_more [of "''XXXX'' @ CRLF @ CRLF" 0 new_parser]
  by (simp add: is_token_def char_class_defs starts_with_word_def methods_def eval_nat_numeral)


lemma header_line_done_state:
  "header_line_loop bid data p cs ps v = (POk, ps') \<Longrightarrow> p_hdr_len ps' = p_off ps'"
proof (induction cs arbitrary: p ps v)
  case (Cons c cs)
  let ?q = "ps\<lparr>p_off := Suc (p_off ps)\<rparr>"
  show ?case
  proof (cases "header_line_step bid data p c (?q, v)")
    case (Cont qv)
    then show ?thesis using Cons.IH [of "Suc p" "fst qv" "snd qv"] Cons.prems by (cases qv) simp
  next
    case (Ret r qv)
    with Cons.prems show ?thesis
      by (cases qv; cases "p_state ps")
        (auto simp: header_line_step_def insert_header_def split: if_splits option.splits)
  qed
qed simp

text \<open>
  Once a header has been parsed, no trailer that is at most as long as that header is
  ever accepted: the offset still points behind the header, so the parser sees no bytes of
  the trailer buffer at all and asks for more. In particular the empty trailer that ends
  a chunked message is not accepted.
\<close>

theorem trailer_never_done:
  assumes "parse_header bid data len (parser_reset ps0) = (POk, ps)" "tlen \<le> p_hdr_len ps"
  shows "parse_trailer bid' tdata tlen ps = (PMore, ps) \<and> 2 \<le> p_hdr_len ps"
proof -
  from assms(1) obtain ps1 where 1: "parse_first_line data len (parser_reset ps0) = (POk, ps1)"
      "parse_header_line bid data len ps1 = (POk, ps)"
    by (auto simp: parse_header_def split: prod.splits parse_ret.splits)
  have "0 < p_off ps1"
    using first_line_loop_off [OF 1(1) [unfolded parse_first_line_def]] by simp
  moreover have "p_off ps1 < p_off ps"
    using header_line_loop_off [OF 1(2) [unfolded parse_header_line_def]] by simp
  moreover have "p_hdr_len ps = p_off ps"
    by (rule header_line_done_state [OF 1(2) [unfolded parse_header_line_def]])
  ultimately show ?thesis
    using assms(2) by (simp add: parse_trailer_def parse_header_line_def)
qed

theorem trailer_never_done_witness:
  "(let ps = snd (parse_header 0 (render_request ''POST'' ''/'' 1 1 [(''Transfer-Encoding'', ''chunked'')]) 47
              (parser_reset new_parser)) in parse_trailer 1 CRLF 2 ps = (PMore, ps))"
proof -
  let ?fs = "[(''Transfer-Encoding'', ''chunked'')]"
  let ?d = "render_request ''POST'' ''/'' 1 1 ?fs"
  have 1: "(''POST'', HTTP_POST) \<in> set methods" by (simp add: methods_def)
  have 2: "list_all uri_byte ''/''" by (simp add: uri_byte_def char_class_defs)
  have 3: "list_all field_ok ?fs" by (simp add: field_ok_def is_token_def char_class_defs)
  have len: "length ?d = 47" by (simp add: render_request_def render_request_line_def render_field_def)
  obtain ps where ps: "parse_header 0 ?d 47 (parser_reset new_parser) = (POk, ps)" "p_hdr_len ps = 47"
    using parse_render_request [OF 1 2 _ _ 3, of 1 1 "?d" "[]" 0 new_parser] len by auto
  show ?thesis
    using trailer_never_done [OF ps(1), of 2 1 CRLF] ps by (simp add: Let_def)
qed

section \<open>The body\<close>

definition chunked :: "http_header \<Rightarrow> bool" where
  "chunked hdr \<longleftrightarrow> (\<exists>v. find_header hdr ''Transfer-Encoding'' = Some v \<and> strcaseeq (cstr v) ''chunked'')"

lemma body_framing_chunked: "chunked hdr \<Longrightarrow> body_framing hdr len = (True, HTTP_BODY_CHUNK_SIZE, len)"
  by (auto simp: chunked_def body_framing_def)

lemma body_framing_none:
  "\<not> chunked hdr \<Longrightarrow> find_header hdr ''Content-Length'' = None \<Longrightarrow> body_framing hdr len = (True, HTTP_BODY_NONE, len)"
  by (auto simp: chunked_def body_framing_def split: option.splits)

lemma body_framing_length:
  assumes "\<not> chunked hdr" "find_header hdr ''Content-Length'' = Some (dec_nat n)" "n \<le> ULONG_MAX"
  shows "body_framing hdr len = (True, HTTP_BODY_CONTENT, n)"
proof -
  have "cstr (dec_nat n) = dec_nat n"
    by (rule cstr_id) (use dec_nat_is_digit [of NUL n] in \<open>auto simp: is_digit_of_def digit_val_def byte_val_def\<close>)
  then show ?thesis
    using assms base_strtoul_dec_nat [of "[]" n]
    by (auto simp: chunked_def body_framing_def split: option.splits)
qed


text \<open>
  From the wire to the framing of the body. A request in wire form that announces a
  decimal length (and neither a transfer coding nor an expectation) parses, and the body that
  is read after it has exactly that length.
\<close>

theorem request_body_length:
  assumes "(m, v) \<in> set methods" "list_all uri_byte u" "major < 10" "minor < 10" "list_all field_ok fs"
    and "map_of fs ''Content-Length'' = Some (dec_nat n)" "n \<le> ULONG_MAX"
    and "map_of fs ''Transfer-Encoding'' = None" "map_of fs ''Except'' = None"
  shows "\<exists>ps. parse_header bid (render_request m u major minor fs @ rest)
              (length (render_request m u major minor fs @ rest)) (parser_reset ps0) = (POk, ps) \<and>
     get_body_info (p_hdr ps) type0 len0 0 = (True, HTTP_BODY_CONTENT, n, 0)"
proof -
  from parse_render_request [OF assms(1-5) refl, of bid rest ps0]
  obtain ps where ps: "parse_header bid (render_request m u major minor fs @ rest)
              (length (render_request m u major minor fs @ rest)) (parser_reset ps0) = (POk, ps)"
      "p_hdr ps = (p_hdr ps0)\<lparr>h_type := HTTP_REQUEST, h_major := int major, h_minor := int minor, h_code := v,
        h_ptr := Suc (length m), h_len := length u, h_headers := header_map fs\<rparr>"
    by blast
  have f: "find_header (p_hdr ps) k = map_of fs k" for k
    by (simp add: ps(2) find_header_def map_of_header_map)
  have fr: "body_framing (p_hdr ps) len0 = (True, HTTP_BODY_CONTENT, n)"
    by (rule body_framing_length) (use assms f in \<open>simp_all add: chunked_def\<close>)
  have "get_body_info (p_hdr ps) type0 len0 0 = (True, HTTP_BODY_CONTENT, n, 0)"
    using assms(9) by (simp add: get_body_info_def fr f) (simp add: http_body_defs)
  with ps(1) show ?thesis by blast
qed

theorem request_body_length_witness:
  "\<exists>ps. parse_header 0 (render_request ''POST'' ''/'' 1 1 [(''Content-Length'', dec_nat 12)])
        (length (render_request ''POST'' ''/'' 1 1 [(''Content-Length'', dec_nat 12)])) (parser_reset new_parser) = (POk, ps) \<and>
     get_body_info (p_hdr ps) 0 0 0 = (True, HTTP_BODY_CONTENT, 12, 0)"
proof -
  have 1: "(''POST'', HTTP_POST) \<in> set methods" by (simp add: methods_def)
  have 2: "list_all uri_byte ''/''" by (simp add: uri_byte_def char_class_defs)
  have 3: "list_all field_ok [(''Content-Length'', dec_nat 12)]"
    by (simp add: field_ok_def is_token_def char_class_defs dec_nat.simps digit_char_def)
  show ?thesis
    using request_body_length [OF 1 2 _ _ 3, of 1 1 12 0 "[]" new_parser 0 0] by (simp add: ULONG_MAX_def)
qed

text \<open>
  A negative length is not refused: \<open>strtoul\<close> accepts the sign and the body length
  becomes the two's complement of the number, so \<open>Content-Length: -1\<close> announces a body of
  18446744073709551615 bytes.
\<close>

theorem negative_length_accepted:
  assumes "\<not> chunked hdr" "find_header hdr ''Content-Length'' = Some (CHR ''-'' # dec_nat n)" "0 < n" "n \<le> ULONG_MAX"
  shows "body_framing hdr len = (True, HTTP_BODY_CONTENT, 2 ^ 64 - n)"
proof -
  let ?s = "CHR ''-'' # dec_nat n"
  have tw: "takeWhile (is_digit_of 10) (dec_nat n) = dec_nat n"
    using takeWhile_digits_dec_nat [of "[]" n] by simp
  have scan: "scan_int 10 ?s = Some (True, n, Suc (length (dec_nat n)))"
    by (simp add: scan_int_def Let_def tw c_isspace_def byte_val_def)
  have "(2 ^ 64 - n) mod 2 ^ 64 = 2 ^ 64 - n"
    using assms(3) by simp
  then have 1: "c_strtoul 10 ?s = (2 ^ 64 - n, Suc (length (dec_nat n)), False)"
    using assms(4) by (simp add: c_strtoul_def scan)
  then have "base_strtoul ?s 10 False = (True, 2 ^ 64 - n)"
    by (simp add: base_strtoul_def)
  moreover have "cstr ?s = ?s"
    by (rule cstr_id) (use dec_nat_is_digit [of NUL n] in \<open>auto simp: is_digit_of_def digit_val_def byte_val_def\<close>)
  ultimately show ?thesis
    using assms(1,2) by (auto simp: chunked_def body_framing_def split: option.splits)
qed

theorem negative_length_accepted_witness:
  "body_framing (new_header\<lparr>h_headers := [(''Content-Length'', CHR ''-'' # dec_nat 1)]\<rparr>) 0 =
     (True, HTTP_BODY_CONTENT, 18446744073709551615)"
  using negative_length_accepted [of "new_header\<lparr>h_headers := [(''Content-Length'', CHR ''-'' # dec_nat 1)]\<rparr>" 1 0]
  by (simp add: chunked_def find_header_def new_header_def ULONG_MAX_def)

end
