(* ===== verification/Buffer.thy ===== *)
theory Buffer
  imports Prelude
begin

text \<open>
  The data buffers and their queue, \<open>core/buffer.h\<close> and \<open>core/buffer.cpp\<close>: the buffer with
  its three lengths, the queue as an abstract list with a byte count (what its clients
  rely on), and the queue as the code builds it, a singly linked list in a heap with a
  head and a tail pointer, shown to implement the abstract one.
\<close>

section \<open>64-bit sizes\<close>

definition SIZE_RANGE :: nat where "SIZE_RANGE = 2 ^ 64"

definition add64 :: "nat \<Rightarrow> nat \<Rightarrow> nat" where
  "add64 a b = (a + b) mod SIZE_RANGE"

definition sub64 :: "nat \<Rightarrow> nat \<Rightarrow> nat" where
  "sub64 a b = (a + (SIZE_RANGE - b mod SIZE_RANGE)) mod SIZE_RANGE"

lemma SIZE_RANGE_pos [simp]: "0 < SIZE_RANGE"
  by (simp add: SIZE_RANGE_def)

lemma add64_mod [simp]: "add64 (a mod SIZE_RANGE) b = (a + b) mod SIZE_RANGE"
  by (simp add: add64_def mod_add_left_eq)

lemma sub64_mod [simp]:
  assumes "b \<le> a"
  shows "sub64 (a mod SIZE_RANGE) b = (a - b) mod SIZE_RANGE"
proof -
  let ?M = SIZE_RANGE
  define r k where "r = b mod ?M" and "k = b div ?M"
  have b: "b = r + ?M * k" by (simp add: r_def k_def)
  have "r < ?M" by (simp add: r_def)
  then have "a + (?M - r) = (a - b) + ?M * (k + 1)"
    using assms unfolding b by (simp add: algebra_simps)
  moreover have "sub64 (a mod ?M) b = (a + (?M - r)) mod ?M"
    by (simp only: sub64_def mod_add_left_eq r_def)
  ultimately show ?thesis by (simp only: mod_mult_self2)
qed

lemma sub64_le: "b \<le> a \<Longrightarrow> a < SIZE_RANGE \<Longrightarrow> sub64 a b = a - b"
  using sub64_mod [of b a] by (metis less_imp_diff_less mod_less)

section \<open>A buffer\<close>

text \<open>
  \<open>b_data\<close> holds the bytes of \<open>data_\<close> that were written; \<open>b_dsize\<close> is the size of the
  allocated area.
\<close>

record buffer =
  b_dsize :: nat
  b_dlen :: nat
  b_dtran :: nat
  b_data :: bytes

definition new_buffer :: "nat \<Rightarrow> buffer" where
  "new_buffer buf_size = \<lparr>b_dsize = (if buf_size = 0 then 1 else buf_size), b_dlen = 0, b_dtran = 0, b_data = []\<rparr>"

definition buffer_of :: "bytes \<Rightarrow> buffer" where
  "buffer_of data = \<lparr>b_dsize = length data, b_dlen = length data, b_dtran = 0, b_data = data\<rparr>"

text \<open>The bytes \<open>operator new\<close> asks for and those \<open>operator delete\<close> gives back; \<open>hdr\<close> is \<open>sizeof(buffer)\<close>.\<close>

definition buffer_new_size :: "nat \<Rightarrow> nat \<Rightarrow> nat" where
  "buffer_new_size hdr buf_size = (let n = (if buf_size \<noteq> 0 then buf_size - 1 else buf_size) in hdr + n)"

definition buffer_delete_size :: "nat \<Rightarrow> buffer \<Rightarrow> nat" where
  "buffer_delete_size hdr b = b_dsize b - 1 + hdr"

text \<open>
  A buffer constructed with the size it was allocated for gives back to the pool
  exactly what it took, a size of zero included.
\<close>

theorem buffer_size_balanced: "buffer_delete_size hdr (new_buffer n) = buffer_new_size hdr n"
  by (cases n) (simp_all add: buffer_delete_size_def buffer_new_size_def new_buffer_def Let_def)

text \<open>The bytes of a buffer that are still to be sent.\<close>

definition unsent :: "buffer \<Rightarrow> bytes" where
  "unsent b = drop (b_dtran b) (take (b_dlen b) (b_data b))"

section \<open>The queue as a list\<close>

record buffer_queue =
  q_bufs :: "buffer list"
  q_dsize :: nat
  q_dlow :: nat
  q_dhigh :: nat

definition default_low_mark :: nat where "default_low_mark = 16 * 1024"
definition default_high_mark :: nat where "default_high_mark = default_low_mark * 4"

definition q_new :: buffer_queue where
  "q_new = \<lparr>q_bufs = [], q_dsize = 0, q_dlow = default_low_mark, q_dhigh = default_high_mark\<rparr>"

definition q_push :: "buffer_queue \<Rightarrow> buffer \<Rightarrow> buffer_queue" where
  "q_push q b = q\<lparr>q_bufs := q_bufs q @ [b], q_dsize := add64 (q_dsize q) (b_dlen b)\<rparr>"

definition q_pop :: "bool \<Rightarrow> buffer_queue \<Rightarrow> buffer option \<times> buffer_queue" where
  "q_pop reduce q = (case q_bufs q of
      [] \<Rightarrow> (None, q)
    | b # bs \<Rightarrow> (Some b, q\<lparr>q_bufs := bs, q_dsize := (if reduce then sub64 (q_dsize q) (b_dlen b) else q_dsize q)\<rparr>))"

text \<open>\<open>push(bufq)\<close>: every buffer of the source in order, popped and pushed.\<close>

definition q_push_all :: "buffer_queue \<Rightarrow> buffer_queue \<Rightarrow> buffer_queue \<times> buffer_queue" where
  "q_push_all dst src =
     (foldl q_push dst (q_bufs src),
      src\<lparr>q_bufs := [], q_dsize := foldl (\<lambda>n b. sub64 n (b_dlen b)) (q_dsize src) (q_bufs src)\<rparr>)"

definition q_clear :: "buffer_queue \<Rightarrow> buffer_queue" where
  "q_clear q = q\<lparr>q_bufs := [], q_dsize := 0\<rparr>"

definition q_top :: "buffer_queue \<Rightarrow> buffer option" where
  "q_top q = (case q_bufs q of [] \<Rightarrow> None | b # _ \<Rightarrow> Some b)"

definition q_empty :: "buffer_queue \<Rightarrow> bool" where
  "q_empty q \<longleftrightarrow> q_bufs q = []"

definition q_consume_size :: "buffer_queue \<Rightarrow> nat \<Rightarrow> buffer_queue" where
  "q_consume_size q n = q\<lparr>q_dsize := sub64 (q_dsize q) n\<rparr>"

definition q_is_low :: "buffer_queue \<Rightarrow> bool" where
  "q_is_low q \<longleftrightarrow> q_dsize q \<le> q_dlow q"

definition q_is_high :: "buffer_queue \<Rightarrow> bool" where
  "q_is_high q \<longleftrightarrow> q_dsize q \<ge> q_dhigh q"

text \<open>The bytes queued and not yet sent, in order, and the count that should be in \<open>dsize_\<close>.\<close>

definition q_stream :: "buffer_queue \<Rightarrow> bytes" where
  "q_stream q = concat (map unsent (q_bufs q))"

definition buf_ok :: "buffer \<Rightarrow> bool" where
  "buf_ok b \<longleftrightarrow> length (b_data b) = b_dlen b \<and> b_dtran b \<le> b_dlen b"

definition q_ok :: "buffer_queue \<Rightarrow> bool" where
  "q_ok q \<longleftrightarrow> list_all buf_ok (q_bufs q) \<and>
     q_dsize q = (\<Sum>b\<leftarrow>q_bufs q. b_dlen b - b_dtran b) mod SIZE_RANGE"

definition fresh_buf :: "buffer \<Rightarrow> bool" where
  "fresh_buf b \<longleftrightarrow> buf_ok b \<and> b_dtran b = 0"

lemma q_new_ok [simp]: "q_ok q_new" "q_stream q_new = []" "q_bufs q_new = []"
  by (simp_all add: q_ok_def q_new_def q_stream_def)

lemma q_push_ok: "q_ok q \<Longrightarrow> fresh_buf b \<Longrightarrow> q_ok (q_push q b)"
  by (auto simp: q_ok_def q_push_def fresh_buf_def)

lemma q_push_stream: "q_stream (q_push q b) = q_stream q @ unsent b"
  by (simp add: q_stream_def q_push_def)

lemma foldl_q_push:
  "q_bufs (foldl q_push q bs) = q_bufs q @ bs"
  by (induction bs arbitrary: q) (simp_all add: q_push_def)

lemma foldl_q_push_ok: "q_ok q \<Longrightarrow> list_all fresh_buf bs \<Longrightarrow> q_ok (foldl q_push q bs)"
  by (induction bs arbitrary: q) (simp_all add: q_push_ok)

lemma q_push_all_stream:
  "q_stream (fst (q_push_all dst src)) = q_stream dst @ q_stream src" "q_stream (snd (q_push_all dst src)) = []"
  by (simp_all add: q_push_all_def q_stream_def foldl_q_push)

lemma foldl_sub64:
  "list_all fresh_buf bs \<Longrightarrow>
   foldl (\<lambda>n b. sub64 n (b_dlen b)) (((\<Sum>b\<leftarrow>bs. b_dlen b - b_dtran b) + k) mod SIZE_RANGE) bs = k mod SIZE_RANGE"
proof (induction bs)
  case (Cons b bs)
  then have "sub64 (((\<Sum>b\<leftarrow>b # bs. b_dlen b - b_dtran b) + k) mod SIZE_RANGE) (b_dlen b) =
      ((\<Sum>b\<leftarrow>bs. b_dlen b - b_dtran b) + k) mod SIZE_RANGE"
    by (subst sub64_mod) (simp_all add: fresh_buf_def)
  with Cons show ?case by simp
qed simp

lemma q_push_all_ok:
  assumes "q_ok dst" "q_ok src" "list_all fresh_buf (q_bufs src)"
  shows "q_ok (fst (q_push_all dst src))" "q_ok (snd (q_push_all dst src))"
  using assms foldl_q_push_ok [of dst "q_bufs src"] foldl_sub64 [of "q_bufs src" 0]
  by (simp_all add: q_push_all_def q_ok_def)


section \<open>The queue as the code builds it\<close>

text \<open>
  The heap maps the address of a buffer to the buffer and its \<open>next_\<close> pointer. An
  operation that would follow a dangling pointer, fail its assertion or run for ever has
  no result.
\<close>

record node =
  n_buf :: buffer
  n_next :: "nat option"

type_synonym heap = "nat \<Rightarrow> node option"

record linked_queue =
  l_head :: "nat option"
  l_tail :: "nat option"
  l_dsize :: nat
  l_dlow :: nat
  l_dhigh :: nat

definition lq_new :: linked_queue where
  "lq_new = \<lparr>l_head = None, l_tail = None, l_dsize = 0, l_dlow = default_low_mark, l_dhigh = default_high_mark\<rparr>"

text \<open>The loop \<open>while(tmp && tmp->next_)\<close> of \<open>push\<close>.\<close>

partial_function (option) chain_end :: "heap \<Rightarrow> nat \<Rightarrow> nat option" where
  "chain_end h a = (case h a of None \<Rightarrow> None
     | Some n \<Rightarrow> (case n_next n of None \<Rightarrow> Some a | Some b \<Rightarrow> chain_end h b))"

definition set_next :: "heap \<Rightarrow> nat \<Rightarrow> nat option \<Rightarrow> heap option" where
  "set_next h a p = (case h a of None \<Rightarrow> None | Some n \<Rightarrow> Some (h(a \<mapsto> n\<lparr>n_next := p\<rparr>)))"

definition lq_link :: "heap \<Rightarrow> linked_queue \<Rightarrow> nat \<Rightarrow> (heap \<times> linked_queue) option" where
  "lq_link h q a = (case l_tail q of
      Some t \<Rightarrow> (case set_next h t (Some a) of None \<Rightarrow> None | Some h' \<Rightarrow> Some (h', q))
    | None \<Rightarrow> Some (h, q\<lparr>l_head := Some a\<rparr>))"

definition lq_push :: "nat \<Rightarrow> heap \<times> linked_queue \<Rightarrow> (heap \<times> linked_queue) option" where
  "lq_push a s = (case lq_link (fst s) (snd s) a of None \<Rightarrow> None
    | Some (h, q) \<Rightarrow> (case chain_end h a of None \<Rightarrow> None
        | Some e \<Rightarrow> (case h a of None \<Rightarrow> None
            | Some n \<Rightarrow> Some (h, q\<lparr>l_tail := Some e, l_dsize := add64 (l_dsize q) (b_dlen (n_buf n))\<rparr>))))"

definition lq_pop :: "bool \<Rightarrow> heap \<times> linked_queue \<Rightarrow> (nat option \<times> heap \<times> linked_queue) option" where
  "lq_pop reduce s = (case s of (h, q) \<Rightarrow> (case l_head q of
      None \<Rightarrow> Some (None, h, q)
    | Some a \<Rightarrow> (case h a of None \<Rightarrow> None
        | Some n \<Rightarrow>
            Some (Some a, h(a \<mapsto> n\<lparr>n_next := None\<rparr>),
              q\<lparr>l_head := n_next n, l_tail := (if n_next n = None then None else l_tail q),
                l_dsize := (if reduce then sub64 (l_dsize q) (b_dlen (n_buf n)) else l_dsize q)\<rparr>))))"

partial_function (option) lq_push_all ::
  "heap \<Rightarrow> linked_queue \<Rightarrow> linked_queue \<Rightarrow> (heap \<times> linked_queue \<times> linked_queue) option" where
  "lq_push_all h dst src = (if l_head src = None then Some (h, dst, src)
     else (case lq_pop True (h, src) of
         Some (Some a, h1, src1) \<Rightarrow> (case lq_push a (h1, dst) of
             Some (h2, dst2) \<Rightarrow> lq_push_all h2 dst2 src1 | None \<Rightarrow> None)
       | _ \<Rightarrow> None))"

partial_function (option) lq_free :: "heap \<Rightarrow> nat option \<Rightarrow> heap option" where
  "lq_free h cur = (case cur of None \<Rightarrow> Some h
     | Some a \<Rightarrow> (case h a of None \<Rightarrow> None | Some n \<Rightarrow> lq_free (h(a := None)) (n_next n)))"

definition lq_clear :: "heap \<times> linked_queue \<Rightarrow> (heap \<times> linked_queue) option" where
  "lq_clear s = (case lq_free (fst s) (l_head (snd s)) of None \<Rightarrow> None
     | Some h \<Rightarrow> Some (h, (snd s)\<lparr>l_head := None, l_tail := None, l_dsize := 0\<rparr>))"

definition lq_top :: "linked_queue \<Rightarrow> nat option" where
  "lq_top q = l_head q"

definition lq_empty :: "linked_queue \<Rightarrow> bool" where
  "lq_empty q \<longleftrightarrow> l_head q = None"

definition lq_consume_size :: "linked_queue \<Rightarrow> nat \<Rightarrow> linked_queue" where
  "lq_consume_size q n = q\<lparr>l_dsize := sub64 (l_dsize q) n\<rparr>"

definition lq_is_low :: "linked_queue \<Rightarrow> bool" where
  "lq_is_low q \<longleftrightarrow> l_dsize q \<le> l_dlow q"

definition lq_is_high :: "linked_queue \<Rightarrow> bool" where
  "lq_is_high q \<longleftrightarrow> l_dsize q \<ge> l_dhigh q"

section \<open>The linked queue represents a list of addresses\<close>

fun path :: "heap \<Rightarrow> nat option \<Rightarrow> nat list \<Rightarrow> bool" where
  "path h p [] \<longleftrightarrow> p = None"
| "path h p (a # as) \<longleftrightarrow> p = Some a \<and> (\<exists>n. h a = Some n \<and> path h (n_next n) as)"

definition last_opt :: "'a list \<Rightarrow> 'a option" where
  "last_opt xs = (if xs = [] then None else Some (last xs))"

definition lq_rep :: "heap \<times> linked_queue \<Rightarrow> nat list \<Rightarrow> bool" where
  "lq_rep s as \<longleftrightarrow> path (fst s) (l_head (snd s)) as \<and> distinct as \<and> l_tail (snd s) = last_opt as"

definition detached :: "nat \<Rightarrow> heap \<times> linked_queue \<Rightarrow> bool" where
  "detached a s \<longleftrightarrow> (case fst s a of None \<Rightarrow> False | Some n \<Rightarrow> n_next n = None) \<and> l_tail (snd s) \<noteq> Some a"

definition lq_abs :: "heap \<times> linked_queue \<Rightarrow> nat list \<Rightarrow> buffer_queue" where
  "lq_abs s as = \<lparr>q_bufs = map (\<lambda>a. n_buf (the (fst s a))) as, q_dsize = l_dsize (snd s),
     q_dlow = l_dlow (snd s), q_dhigh = l_dhigh (snd s)\<rparr>"

lemma path_upd_other: "a \<notin> set as \<Longrightarrow> path (h(a := v)) p as = path h p as"
  by (induction as arbitrary: p) auto

lemma path_cong: "\<forall>c \<in> set as. h c = h' c \<Longrightarrow> path h p as = path h' p as"
  by (induction as arbitrary: p) auto

lemma path_next_None:
  "path h p as \<Longrightarrow> a \<in> set as \<Longrightarrow> distinct as \<Longrightarrow> h a = Some n \<Longrightarrow> n_next n = None \<Longrightarrow> last as = a"
proof (induction as arbitrary: p)
  case (Cons b as)
  then show ?case by (cases as) auto
qed simp

lemma detached_notin: "lq_rep s as \<Longrightarrow> detached a s \<Longrightarrow> a \<notin> set as"
  using path_next_None [of "fst s" "l_head (snd s)" as a]
  by (cases "as = []") (auto simp: lq_rep_def detached_def last_opt_def split: option.splits)

lemma path_snoc:
  assumes "path h p (as @ [t])" "distinct (as @ [t])" "a \<notin> set (as @ [t])" "h t = Some tn"
    and "h a = Some n" "n_next n = None"
  shows "path (h(t \<mapsto> tn\<lparr>n_next := Some a\<rparr>)) p (as @ [t, a])"
  using assms
proof (induction as arbitrary: p)
  case (Cons b as)
  then show ?case by (auto simp: path_upd_other)
qed auto

lemma chain_end_None_next: "h a = Some n \<Longrightarrow> n_next n = None \<Longrightarrow> chain_end h a = Some a"
  by (subst chain_end.simps) simp

lemma path_last_in: "path h p (as @ [t]) \<Longrightarrow> \<exists>tn. h t = Some tn"
  by (induction as arbitrary: p) auto

lemma lq_push_refines:
  assumes rep: "lq_rep s as" and a: "detached a s"
  shows "\<exists>s'. lq_push a s = Some s' \<and> lq_rep s' (as @ [a]) \<and>
     lq_abs s' (as @ [a]) = q_push (lq_abs s as) (n_buf (the (fst s a))) \<and>
     (\<forall>b. b \<notin> set as \<longrightarrow> fst s' b = fst s b) \<and> (\<forall>b. b \<noteq> a \<longrightarrow> detached b s \<longrightarrow> detached b s')"
proof -
  obtain h q where s: "s = (h, q)" by fastforce
  from a s obtain n where n: "h a = Some n" "n_next n = None"
    by (auto simp: detached_def split: option.splits)
  have ain: "a \<notin> set as" by (rule detached_notin [OF rep a])
  show ?thesis
  proof (cases as rule: rev_cases)
    case Nil
    let ?s' = "(h, q\<lparr>l_head := Some a, l_tail := Some a, l_dsize := add64 (l_dsize q) (b_dlen (n_buf n))\<rparr>)"
    have "lq_push a s = Some ?s'"
      using rep n by (simp add: s Nil lq_push_def lq_link_def lq_rep_def last_opt_def chain_end_None_next)
    then show ?thesis
      using n by (intro exI [of _ ?s'])
        (auto simp: s Nil lq_rep_def last_opt_def lq_abs_def q_push_def detached_def split: option.splits)
  next
    case (snoc bs t)
    from rep s snoc obtain tn where tn: "h t = Some tn"
      using path_last_in by (fastforce simp: lq_rep_def)
    let ?h = "h(t \<mapsto> tn\<lparr>n_next := Some a\<rparr>)"
    let ?s' = "(?h, q\<lparr>l_tail := Some a, l_dsize := add64 (l_dsize q) (b_dlen (n_buf n))\<rparr>)"
    have at: "a \<noteq> t" using ain snoc by auto
    have "lq_push a s = Some ?s'"
      using rep n tn at by (simp add: s snoc lq_push_def lq_link_def lq_rep_def last_opt_def set_next_def chain_end_None_next)
    moreover have "lq_rep ?s' (as @ [a])"
      using rep ain path_snoc [of h "l_head q" bs t a tn n] n tn
      by (simp add: s snoc lq_rep_def last_opt_def)
    moreover have "lq_abs ?s' (as @ [a]) = q_push (lq_abs s as) (n_buf (the (fst s a)))"
      using n tn at by (auto simp: s snoc lq_abs_def q_push_def)
    moreover have "\<forall>b. b \<noteq> a \<longrightarrow> detached b s \<longrightarrow> detached b ?s'"
      using rep by (auto simp: s snoc detached_def lq_rep_def last_opt_def)
    moreover have "\<forall>b. b \<notin> set as \<longrightarrow> fst ?s' b = fst s b"
      by (simp add: s snoc)
    ultimately show ?thesis by blast
  qed
qed

lemma lq_pop_refines:
  assumes "lq_rep s (a # as)"
  shows "\<exists>s'. lq_pop r s = Some (Some a, s') \<and> lq_rep s' as \<and> detached a s' \<and>
     q_pop r (lq_abs s (a # as)) = (Some (n_buf (the (fst s a))), lq_abs s' as) \<and>
     n_buf (the (fst s' a)) = n_buf (the (fst s a)) \<and> (\<forall>b. b \<noteq> a \<longrightarrow> fst s' b = fst s b)"
proof -
  obtain h q where s: "s = (h, q)" by fastforce
  from assms s obtain n where n: "l_head q = Some a" "h a = Some n" "path h (n_next n) as"
      "a \<notin> set as" "distinct as" "l_tail q = last_opt (a # as)"
    by (auto simp: lq_rep_def)
  let ?s' = "(h(a \<mapsto> n\<lparr>n_next := None\<rparr>),
              q\<lparr>l_head := n_next n, l_tail := (if n_next n = None then None else l_tail q),
                l_dsize := (if r then sub64 (l_dsize q) (b_dlen (n_buf n)) else l_dsize q)\<rparr>)"
  have "lq_pop r s = Some (Some a, ?s')" using n by (simp add: s lq_pop_def)
  moreover have tl: "(if n_next n = None then None else l_tail q) = last_opt as"
    using n by (cases as) (auto simp: last_opt_def)
  have "lq_rep ?s' as" using n tl by (simp add: lq_rep_def path_upd_other)
  moreover have "last_opt as \<noteq> Some a" using n(4) by (auto simp: last_opt_def)
  then have "detached a ?s'" using tl by (simp add: detached_def)
  moreover have "q_pop r (lq_abs s (a # as)) = (Some (n_buf (the (fst s a))), lq_abs ?s' as)"
    using n by (auto simp: s q_pop_def lq_abs_def)
  ultimately show ?thesis using n by (intro exI [of _ ?s']) (auto simp: s)
qed

lemma lq_pop_empty: "lq_rep s [] \<Longrightarrow> lq_pop r s = Some (None, s)"
  by (cases s) (simp add: lq_rep_def lq_pop_def)


section \<open>The contract of a queue, and what follows from it\<close>

text \<open>
  A queue of elements that can be absent from it: pushing an absent element succeeds and
  appends it, popping takes the first one, which is then absent. Nothing else is promised
  of the state, which need not determine the list.
\<close>

locale byte_queue =
  fixes holds :: "'s \<Rightarrow> 'a list \<Rightarrow> bool"
    and absent :: "'a \<Rightarrow> 's \<Rightarrow> bool"
    and append_op :: "'a \<Rightarrow> 's \<Rightarrow> 's option"
    and take_op :: "'s \<Rightarrow> ('a option \<times> 's) option"
  assumes append_step: "holds s xs \<Longrightarrow> absent x s \<Longrightarrow> \<exists>s'. append_op x s = Some s' \<and> holds s' (xs @ [x])"
    and append_frame: "holds s xs \<Longrightarrow> absent x s \<Longrightarrow> append_op x s = Some s' \<Longrightarrow> y \<noteq> x \<Longrightarrow> absent y s \<Longrightarrow> absent y s'"
    and take_step: "holds s (x # xs) \<Longrightarrow> \<exists>s'. take_op s = Some (Some x, s') \<and> holds s' xs \<and> absent x s'"
    and take_done: "holds s [] \<Longrightarrow> take_op s = Some (None, s)"
begin

primrec append_many :: "'a list \<Rightarrow> 's \<Rightarrow> 's option" where
  "append_many [] s = Some s"
| "append_many (x # xs) s = (case append_op x s of None \<Rightarrow> None | Some s' \<Rightarrow> append_many xs s')"

primrec take_many :: "nat \<Rightarrow> 's \<Rightarrow> ('a list \<times> 's) option" where
  "take_many 0 s = Some ([], s)"
| "take_many (Suc n) s = (case take_op s of
      Some (Some x, s') \<Rightarrow> (case take_many n s' of None \<Rightarrow> None | Some (xs, s'') \<Rightarrow> Some (x # xs, s''))
    | Some (None, s') \<Rightarrow> Some ([], s') | None \<Rightarrow> None)"

lemma append_many_holds:
  assumes "holds s xs" "distinct ys" "\<forall>y \<in> set ys. absent y s"
  shows "\<exists>s'. append_many ys s = Some s' \<and> holds s' (xs @ ys)"
  using assms
proof (induction ys arbitrary: s xs)
  case (Cons y ys)
  then obtain s1 where s1: "append_op y s = Some s1" "holds s1 (xs @ [y])"
    using append_step [of s xs y] by auto
  then have "\<forall>z \<in> set ys. absent z s1"
    using Cons.prems(2,3) append_frame [OF Cons.prems(1) _ s1(1)] by (metis distinct.simps(2) list.set_intros)
  with Cons.IH [OF s1(2)] Cons.prems(2) s1 show ?case by simp
qed simp

lemma take_many_holds:
  assumes "holds s xs"
  shows "\<exists>s'. take_many n s = Some (take n xs, s') \<and> holds s' (drop n xs)"
  using assms
proof (induction n arbitrary: s xs)
  case (Suc n)
  show ?case
  proof (cases xs)
    case Nil
    then show ?thesis using Suc.prems take_done by simp
  next
    case (Cons x ys)
    then obtain s1 where "take_op s = Some (Some x, s1)" "holds s1 ys"
      using Suc.prems take_step [of s x ys] by auto
    with Suc.IH [of s1 ys] Cons show ?thesis by auto
  qed
qed simp

text \<open>What was appended comes out in the order it went in, after what was there before.\<close>

lemma first_in_first_out:
  assumes "holds s xs" "distinct ys" "\<forall>y \<in> set ys. absent y s"
  shows "\<exists>s1 s2. append_many ys s = Some s1 \<and> take_many (length xs + length ys) s1 = Some (xs @ ys, s2)"
  using append_many_holds [OF assms] take_many_holds [of _ "xs @ ys" "length xs + length ys"] by fastforce

end

interpretation lq: byte_queue lq_rep detached lq_push "lq_pop r" for r
proof unfold_locales
  fix s as a
  assume "lq_rep s as" "detached a s"
  then show "\<exists>s'. lq_push a s = Some s' \<and> lq_rep s' (as @ [a])"
    using lq_push_refines by blast
next
  fix s as a s' b
  assume "lq_rep s as" "detached a s" "lq_push a s = Some s'" "b \<noteq> a" "detached b s"
  then show "detached b s'" using lq_push_refines [of s as a] by auto
next
  fix s a as
  assume "lq_rep s (a # as)"
  then show "\<exists>s'. lq_pop r s = Some (Some a, s') \<and> lq_rep s' as \<and> detached a s'"
    using lq_pop_refines [of s a as r] by blast
next
  fix s
  assume "lq_rep s []"
  then show "lq_pop r s = Some (None, s)" by (rule lq_pop_empty)
qed

text \<open>
  C32: distinct detached buffers pushed on a queue come out in the order they went in, behind
  the buffers that were queued, whatever the heap looks like.
\<close>

theorem linked_queue_fifo:
  assumes "lq_rep s as" "distinct bs" "\<forall>b \<in> set bs. detached b s"
  shows "\<exists>s1 s2. lq.append_many bs s = Some s1 \<and> lq.take_many r (length as + length bs) s1 = Some (as @ bs, s2)"
  using lq.first_in_first_out [OF assms] by blast

theorem linked_queue_fifo_witness:
  "\<exists>s1 s2. lq.append_many [7, 3] ((\<lambda>_. Some \<lparr>n_buf = new_buffer 4, n_next = None\<rparr>), lq_new) = Some s1 \<and>
     lq.take_many True 2 s1 = Some ([7, 3], s2)"
  using linked_queue_fifo [of "((\<lambda>_. Some \<lparr>n_buf = new_buffer 4, n_next = None\<rparr>), lq_new)" "[]" "[7, 3]" True]
  by (simp add: lq_rep_def lq_new_def last_opt_def detached_def numeral_2_eq_2)

section \<open>Moving a whole queue\<close>

text \<open>Two queues over one heap share no buffer.\<close>

lemma lq_push_all_refines_aux:
  assumes "lq_rep (h, dst) as" "lq_rep (h, src) bs" "set as \<inter> set bs = {}"
  shows "\<exists>h' dst' src'. lq_push_all h dst src = Some (h', dst', src') \<and>
     lq_rep (h', dst') (as @ bs) \<and> lq_rep (h', src') [] \<and>
     lq_abs (h', dst') (as @ bs) = foldl q_push (lq_abs (h, dst) as) (map (\<lambda>b. n_buf (the (h b))) bs) \<and>
     l_dsize src' = foldl (\<lambda>n b. sub64 n (b_dlen b)) (l_dsize src) (map (\<lambda>b. n_buf (the (h b))) bs) \<and>
     l_dlow src' = l_dlow src \<and> l_dhigh src' = l_dhigh src"
  using assms
proof (induction bs arbitrary: h dst src as)
  case Nil
  then show ?case by (subst lq_push_all.simps) (auto simp: lq_rep_def)
next
  case (Cons b bs)
  from lq_pop_refines [OF Cons.prems(2), of True] obtain h1 src1 where
    1: "lq_pop True (h, src) = Some (Some b, h1, src1)" "lq_rep (h1, src1) bs" "detached b (h1, src1)"
      "q_pop True (lq_abs (h, src) (b # bs)) = (Some (n_buf (the (h b))), lq_abs (h1, src1) bs)"
      "n_buf (the (h1 b)) = n_buf (the (h b))" "\<forall>c. c \<noteq> b \<longrightarrow> h1 c = h c"
    by auto
  have b_as: "b \<notin> set as" and b_bs: "b \<notin> set bs" using Cons.prems by (auto simp: lq_rep_def)
  have rep1: "lq_rep (h1, dst) as"
  proof -
    have "h1 = h(b := h1 b)" using 1(6) by auto
    then have "path h1 (l_head dst) as = path h (l_head dst) as" using b_as path_upd_other by metis
    then show ?thesis using Cons.prems(1) by (simp add: lq_rep_def)
  qed
  have "detached b (h1, dst)"
    using 1(3) rep1 b_as by (auto simp: detached_def lq_rep_def last_opt_def split: option.splits if_splits)
  from lq_push_refines [OF rep1 this] obtain h2 dst2 where
    2: "lq_push b (h1, dst) = Some (h2, dst2)" "lq_rep (h2, dst2) (as @ [b])"
      "lq_abs (h2, dst2) (as @ [b]) = q_push (lq_abs (h1, dst) as) (n_buf (the (h1 b)))"
      "\<forall>c. c \<notin> set as \<longrightarrow> h2 c = h1 c"
    by auto
  have same: "map (\<lambda>c. n_buf (the (h2 c))) bs = map (\<lambda>c. n_buf (the (h c))) bs"
  proof (rule map_cong [OF refl])
    fix c assume "c \<in> set bs"
    then have "c \<noteq> b" "c \<notin> set as" using b_bs Cons.prems(3) by auto
    then show "n_buf (the (h2 c)) = n_buf (the (h c))" using 1(6) 2(4) by metis
  qed
  have rep2: "lq_rep (h2, src1) bs"
  proof -
    have "\<forall>c \<in> set bs. h2 c = h1 c" using 2(4) Cons.prems(3) by auto
    then have "path h2 (l_head src1) bs = path h1 (l_head src1) bs" by (rule path_cong)
    then show ?thesis using 1(2) unfolding lq_rep_def by simp
  qed
  have "set (as @ [b]) \<inter> set bs = {}" using Cons.prems(3) b_bs by auto
  from Cons.IH [OF 2(2) rep2 this] obtain h' dst' src' where
    3: "lq_push_all h2 dst2 src1 = Some (h', dst', src')" "lq_rep (h', dst') ((as @ [b]) @ bs)" "lq_rep (h', src') []"
      "lq_abs (h', dst') ((as @ [b]) @ bs) = foldl q_push (lq_abs (h2, dst2) (as @ [b])) (map (\<lambda>c. n_buf (the (h2 c))) bs)"
      "l_dsize src' = foldl (\<lambda>n c. sub64 n (b_dlen c)) (l_dsize src1) (map (\<lambda>c. n_buf (the (h2 c))) bs)"
      "l_dlow src' = l_dlow src1" "l_dhigh src' = l_dhigh src1"
    by blast
  have "l_head src \<noteq> None" using Cons.prems(2) by (auto simp: lq_rep_def)
  then have run: "lq_push_all h dst src = Some (h', dst', src')"
    by (subst lq_push_all.simps) (auto simp: 1(1) 2(1) 3(1))
  have abs1: "lq_abs (h1, dst) as = lq_abs (h, dst) as"
    using 1(6) b_as by (auto simp: lq_abs_def)
  have src1: "l_dsize src1 = sub64 (l_dsize src) (b_dlen (n_buf (the (h b))))" "l_dlow src1 = l_dlow src"
      "l_dhigh src1 = l_dhigh src"
    using 1(4) by (auto simp: lq_abs_def q_pop_def)
  have "lq_abs (h', dst') (as @ b # bs) = foldl q_push (lq_abs (h, dst) as) (map (\<lambda>b. n_buf (the (h b))) (b # bs))"
    using 3(4) by (simp add: 2(3) same abs1 1(5))
  moreover have "l_dsize src' = foldl (\<lambda>n b. sub64 n (b_dlen b)) (l_dsize src) (map (\<lambda>b. n_buf (the (h b))) (b # bs))"
    using 3(5) by (simp add: same src1(1))
  moreover have "lq_rep (h', dst') (as @ b # bs)" using 3(2) by simp
  ultimately show ?case using run 3(3) 3(6,7) [unfolded src1] by blast
qed

text \<open>
  C33: \<open>push(bufq)\<close> returns (its loop ends), leaves the source empty and does to the two
  queues what the list operation does: every buffer of the source is behind those of the
  destination, in order, and both byte counts follow.
\<close>

theorem linked_push_all_refines:
  assumes "lq_rep (h, dst) as" "lq_rep (h, src) bs" "set as \<inter> set bs = {}"
  shows "\<exists>h' dst' src'. lq_push_all h dst src = Some (h', dst', src') \<and>
     lq_rep (h', dst') (as @ bs) \<and> lq_rep (h', src') [] \<and>
     (lq_abs (h', dst') (as @ bs), lq_abs (h', src') []) = q_push_all (lq_abs (h, dst) as) (lq_abs (h, src) bs)"
  using lq_push_all_refines_aux [OF assms] by (auto simp: q_push_all_def lq_abs_def)

theorem linked_push_all_refines_witness:
  "\<exists>h' dst' src'. lq_push_all (\<lambda>a. if a = 5 then Some \<lparr>n_buf = buffer_of ''ab'', n_next = None\<rparr> else None) lq_new
       (lq_new\<lparr>l_head := Some 5, l_tail := Some 5, l_dsize := 2\<rparr>) = Some (h', dst', src') \<and> lq_rep (h', dst') [5]"
  using linked_push_all_refines [of "\<lambda>a. if a = 5 then Some \<lparr>n_buf = buffer_of ''ab'', n_next = None\<rparr> else None" lq_new "[]"
      "lq_new\<lparr>l_head := Some 5, l_tail := Some 5, l_dsize := 2\<rparr>" "[5]"]
  by (auto simp: lq_rep_def lq_new_def last_opt_def)

lemma lq_free_path:
  "path h p as \<Longrightarrow> distinct as \<Longrightarrow> lq_free h p = Some (\<lambda>a. if a \<in> set as then None else h a)"
proof (induction as arbitrary: h p)
  case (Cons a as)
  then obtain n where n: "p = Some a" "h a = Some n" "path h (n_next n) as" "a \<notin> set as" by auto
  then have "path (h(a := None)) (n_next n) as" by (simp add: path_upd_other)
  from Cons.IH [OF this] Cons.prems(2)
  have "lq_free (h(a := None)) (n_next n) = Some (\<lambda>b. if b \<in> set as then None else (h(a := None)) b)"
    by (simp add: fun_upd_def)
  then show ?case using n(1,2) by (subst lq_free.simps) (auto simp: fun_eq_iff)
qed (subst lq_free.simps, simp)

lemma lq_clear_refines:
  "lq_rep (h, q) as \<Longrightarrow> \<exists>s'. lq_clear (h, q) = Some s' \<and> lq_rep s' [] \<and>
     lq_abs s' [] = q_clear (lq_abs (h, q) as) \<and> (\<forall>a \<in> set as. fst s' a = None)"
  by (auto simp: lq_rep_def lq_clear_def lq_free_path lq_abs_def q_clear_def last_opt_def)

end
