(* ===== verification/Circle_Buffer.thy ===== *)
theory Circle_Buffer
  imports Buffer
begin

text \<open>
  The ring of \<open>base/circle_buffer.h\<close>, which the worker uses as its timing wheel: the array
  with its two indices, shown to hold the last elements that were pushed.
\<close>

section \<open>Operations\<close>

record 'a circle_buffer =
  cb_data :: "'a list"
  cb_front :: nat
  cb_back :: nat
  cb_capacity :: nat
  cb_size :: nat

definition cb_new :: "nat \<Rightarrow> 'a \<Rightarrow> 'a circle_buffer" where
  "cb_new n v = \<lparr>cb_data = replicate n v, cb_front = 0, cb_back = sub64 n 1, cb_capacity = n, cb_size = n\<rparr>"

definition cb_empty :: "'a circle_buffer \<Rightarrow> bool" where
  "cb_empty b \<longleftrightarrow> 0 = cb_size b"

definition cb_full :: "'a circle_buffer \<Rightarrow> bool" where
  "cb_full b \<longleftrightarrow> cb_size b = cb_capacity b"

definition cb_index :: "'a circle_buffer \<Rightarrow> nat \<Rightarrow> nat" where
  "cb_index b i = (if i < cb_capacity b then i else 0)"

definition cb_push_back :: "'a \<Rightarrow> 'a circle_buffer \<Rightarrow> 'a circle_buffer" where
  "cb_push_back v b =
     (if cb_full b then
        (if cb_empty b then b
         else b\<lparr>cb_data := (cb_data b)[cb_front b := v], cb_back := cb_front b,
                cb_front := cb_index b (cb_front b + 1)\<rparr>)
      else let i = cb_index b (add64 (cb_back b) 1)
           in b\<lparr>cb_back := i, cb_data := (cb_data b)[i := v], cb_size := cb_size b + 1\<rparr>)"

text \<open>The operations that assert the ring is not empty have no result when it is.\<close>

definition cb_pop_front :: "'a circle_buffer \<Rightarrow> 'a circle_buffer option" where
  "cb_pop_front b = (if cb_empty b then None
     else Some (b\<lparr>cb_front := cb_index b (cb_front b + 1), cb_size := cb_size b - 1\<rparr>))"

definition cb_front_elem :: "'a circle_buffer \<Rightarrow> 'a option" where
  "cb_front_elem b = (if cb_empty b then None else Some (cb_data b ! cb_front b))"

definition cb_back_elem :: "'a circle_buffer \<Rightarrow> 'a option" where
  "cb_back_elem b = (if cb_empty b then None else Some (cb_data b ! cb_back b))"

definition cb_clear :: "'a circle_buffer \<Rightarrow> 'a circle_buffer" where
  "cb_clear b = b\<lparr>cb_size := 0, cb_front := 0, cb_back := sub64 (cb_capacity b) 1\<rparr>"

text \<open>\<open>resize\<close> has an empty body.\<close>

definition cb_resize :: "nat \<Rightarrow> 'a circle_buffer \<Rightarrow> 'a circle_buffer" where
  "cb_resize n b = b"

section \<open>The elements of a ring\<close>

definition cb_rep :: "'a circle_buffer \<Rightarrow> 'a list \<Rightarrow> bool" where
  "cb_rep b xs \<longleftrightarrow> 0 < cb_capacity b \<and> cb_capacity b < SIZE_RANGE \<and>
     length (cb_data b) = cb_capacity b \<and> cb_front b < cb_capacity b \<and>
     cb_size b = length xs \<and> length xs \<le> cb_capacity b \<and>
     cb_back b = (cb_front b + length xs + cb_capacity b - 1) mod cb_capacity b \<and>
     (\<forall>i < length xs. xs ! i = cb_data b ! ((cb_front b + i) mod cb_capacity b))"

lemma cb_index_mod: "i \<le> cb_capacity b \<Longrightarrow> 0 < cb_capacity b \<Longrightarrow> cb_index b i = i mod cb_capacity b"
  by (auto simp: cb_index_def)

lemma cb_new_rep: "0 < n \<Longrightarrow> n < SIZE_RANGE \<Longrightarrow> cb_rep (cb_new n v) (replicate n v)"
  by (auto simp: cb_rep_def cb_new_def sub64_le) (metis add_diff_assoc diff_less gr_implies_not_zero less_one mod_add_self1 mod_less not_less One_nat_def)


lemma cb_back_next:
  assumes "cb_rep b xs" "length xs < cb_capacity b"
  shows "cb_index b (add64 (cb_back b) 1) = (cb_front b + length xs) mod cb_capacity b"
proof -
  let ?c = "cb_capacity b"
  have c: "0 < ?c" "?c < SIZE_RANGE" using assms(1) by (auto simp: cb_rep_def)
  have bk: "cb_back b = (cb_front b + length xs + ?c - 1) mod ?c" using assms(1) by (simp add: cb_rep_def)
  then have "cb_back b < ?c" using c by simp
  then have "add64 (cb_back b) 1 = cb_back b + 1" using c by (simp add: add64_def)
  then have "cb_index b (add64 (cb_back b) 1) = (cb_back b + 1) mod ?c"
    using \<open>cb_back b < ?c\<close> cb_index_mod [of "cb_back b + 1" b] c by simp
  also have "\<dots> = (cb_front b + length xs + ?c) mod ?c"
    unfolding bk using c by (simp add: mod_Suc_eq)
  finally show ?thesis by simp
qed

lemma ring_positions_inj:
  assumes "i < c" "j < c" "(f + i) mod c = (f + j) mod (c::nat)"
  shows "i = j"
proof -
  have "(f + i) mod c = (f + j) mod c \<Longrightarrow> i \<le> j \<Longrightarrow> j < c \<Longrightarrow> i = j" for i j
  proof -
    assume *: "(f + i) mod c = (f + j) mod c" "i \<le> j" "j < c"
    then have "c dvd (f + j) - (f + i)" by (metis mod_eq_dvd_iff_nat add_le_mono order_refl)
    then have "c dvd j - i" by simp
    with * show "i = j" by (metis diff_diff_cancel diff_is_0_eq dvd_imp_le le_antisym less_imp_diff_less neq0_conv not_le)
  qed
  then show ?thesis using assms by (metis nat_le_linear)
qed

lemma cb_push_back_grows:
  assumes rep: "cb_rep b xs" and less: "length xs < cb_capacity b"
  shows "cb_rep (cb_push_back v b) (xs @ [v])"
proof -
  let ?c = "cb_capacity b" and ?i = "(cb_front b + length xs) mod cb_capacity b"
  have b': "cb_push_back v b = b\<lparr>cb_back := ?i, cb_data := (cb_data b)[?i := v], cb_size := cb_size b + 1\<rparr>"
    using rep less cb_back_next [OF rep less] by (simp add: cb_push_back_def cb_full_def cb_rep_def Let_def)
  have "(xs @ [v]) ! j = ((cb_data b)[?i := v]) ! ((cb_front b + j) mod ?c)" if "j < Suc (length xs)" for j
    using that rep less ring_positions_inj [of j ?c "length xs" "cb_front b"]
    by (auto simp: cb_rep_def nth_append nth_list_update less_Suc_eq)
  then show ?thesis
    using rep less by (simp add: b' cb_rep_def)
qed

lemma cb_push_back_slides:
  assumes rep: "cb_rep b (x # xs)" and full: "Suc (length xs) = cb_capacity b"
  shows "cb_rep (cb_push_back v b) (xs @ [v])"
proof -
  let ?c = "cb_capacity b" and ?f = "cb_front b"
  have f: "?f < ?c" "0 < ?c" using rep by (auto simp: cb_rep_def)
  have b': "cb_push_back v b = b\<lparr>cb_data := (cb_data b)[?f := v], cb_back := ?f, cb_front := Suc ?f mod ?c\<rparr>"
    using rep full cb_index_mod [of "?f + 1" b] f
    by (simp add: cb_push_back_def cb_full_def cb_empty_def cb_rep_def)
  have pos: "(Suc ?f mod ?c + j) mod ?c = (?f + Suc j) mod ?c" for j
    by (simp add: mod_Suc_eq mod_add_left_eq)
  have "(xs @ [v]) ! j = ((cb_data b)[?f := v]) ! ((?f + Suc j) mod ?c)" if "j < ?c" for j
  proof (cases "j < length xs")
    case True
    then have "(?f + Suc j) mod ?c \<noteq> ?f"
      using ring_positions_inj [of "Suc j" ?c 0 ?f] full f by auto
    moreover have "(x # xs) ! Suc j = cb_data b ! ((?f + Suc j) mod ?c)"
      using rep True unfolding cb_rep_def by (metis Suc_less_eq length_Cons)
    ultimately show ?thesis using True by (simp add: nth_append)
  next
    case False
    then have "j = length xs" using that full by simp
    then have "(?f + Suc j) mod ?c = ?f" using full f by simp
    then show ?thesis using \<open>j = length xs\<close> f rep by (simp add: cb_rep_def)
  qed
  moreover have "?f = (Suc ?f mod ?c + ?c + ?c - 1) mod ?c"
  proof -
    have "(Suc ?f mod ?c + (?c + ?c - 1)) mod ?c = (Suc ?f + (?c + ?c - 1)) mod ?c" by (rule mod_add_left_eq)
    also have "Suc ?f + (?c + ?c - 1) = ?f + 2 * ?c" using f by simp
    finally have "(Suc ?f mod ?c + (?c + ?c - 1)) mod ?c = ?f" using f by simp
    moreover have "Suc ?f mod ?c + ?c + ?c - 1 = Suc ?f mod ?c + (?c + ?c - 1)" using f by simp
    ultimately show ?thesis by (simp only:)
  qed
  ultimately show ?thesis
    using rep full f by (simp add: b' cb_rep_def pos)
qed

lemma cb_pop_front_rep:
  assumes "cb_rep b (x # xs)"
  shows "\<exists>b'. cb_pop_front b = Some b' \<and> cb_rep b' xs"
proof -
  let ?c = "cb_capacity b" and ?f = "cb_front b"
  have f: "?f < ?c" "0 < ?c" using assms by (auto simp: cb_rep_def)
  let ?b = "b\<lparr>cb_front := Suc ?f mod ?c, cb_size := length xs\<rparr>"
  have "cb_pop_front b = Some ?b"
    using assms cb_index_mod [of "?f + 1" b] f by (simp add: cb_pop_front_def cb_empty_def cb_rep_def)
  moreover have pos: "(Suc ?f mod ?c + j) mod ?c = (?f + Suc j) mod ?c" for j
    by (simp add: mod_Suc_eq mod_add_left_eq)
  have "(Suc ?f mod ?c + length xs + ?c - 1) mod ?c = (?f + Suc (length xs) + ?c - 1) mod ?c"
  proof -
    have "(Suc ?f mod ?c + (length xs + ?c - 1)) mod ?c = (Suc ?f + (length xs + ?c - 1)) mod ?c" by (rule mod_add_left_eq)
    moreover have "Suc ?f mod ?c + length xs + ?c - 1 = Suc ?f mod ?c + (length xs + ?c - 1)"
      "?f + Suc (length xs) + ?c - 1 = Suc ?f + (length xs + ?c - 1)" using f by simp_all
    ultimately show ?thesis by (simp only:)
  qed
  then have "cb_rep ?b xs"
    using assms f pos by (auto simp: cb_rep_def)
  ultimately show ?thesis by blast
qed

lemma cb_ends_rep:
  assumes "cb_rep b xs" "xs \<noteq> []"
  shows "cb_front_elem b = Some (hd xs)" "cb_back_elem b = Some (last xs)"
proof -
  have "(cb_front b + length xs + cb_capacity b - 1) mod cb_capacity b = (cb_front b + (length xs - 1)) mod cb_capacity b"
    using assms by (cases xs) (auto simp: cb_rep_def)
  then show "cb_front_elem b = Some (hd xs)" "cb_back_elem b = Some (last xs)"
    using assms by (auto simp: cb_rep_def cb_front_elem_def cb_back_elem_def cb_empty_def hd_conv_nth last_conv_nth)
qed

lemma cb_clear_rep: "cb_rep b xs \<Longrightarrow> cb_rep (cb_clear b) []"
  by (auto simp: cb_rep_def cb_clear_def sub64_le)


section \<open>A window over a stream\<close>

text \<open>
  A structure of fixed extent into which elements are pushed at one end and out of which
  they fall at the other.
\<close>

locale sliding_window =
  fixes shows_list :: "'s \<Rightarrow> 'a list \<Rightarrow> bool" and slide :: "'a \<Rightarrow> 's \<Rightarrow> 's"
  assumes slide_step: "shows_list s (x # xs) \<Longrightarrow> shows_list (slide v s) (xs @ [v])"
begin

lemma slide_many:
  assumes "shows_list s xs" "xs \<noteq> []"
  shows "shows_list (fold slide vs s) (drop (length vs) (xs @ vs))"
  using assms
proof (induction vs arbitrary: s xs)
  case (Cons v vs)
  obtain x ys where xs: "xs = x # ys" using Cons.prems(2) by (cases xs) auto
  then have "shows_list (slide v s) (ys @ [v])" using Cons.prems(1) slide_step by simp
  from Cons.IH [OF this] show ?case by (simp add: xs)
qed simp

text \<open>An element leaves the window after as many slides as the window has places.\<close>

lemma stays_for_length:
  assumes "shows_list s xs" "xs \<noteq> []" "length vs \<le> length xs"
  shows "\<exists>ys. shows_list (fold slide vs s) ys \<and> length ys = length xs \<and> drop (length xs - length vs) ys = vs"
  using slide_many [OF assms(1,2), of vs] assms(3) by (intro exI [of _ "drop (length vs) (xs @ vs)"]) simp

end

definition cb_window :: "'a circle_buffer \<Rightarrow> 'a list \<Rightarrow> bool" where
  "cb_window b xs \<longleftrightarrow> cb_rep b xs \<and> length xs = cb_capacity b"

lemma cb_push_back_capacity [simp]: "cb_capacity (cb_push_back v b) = cb_capacity b"
  by (simp add: cb_push_back_def Let_def)

interpretation ring: sliding_window cb_window cb_push_back
  by unfold_locales (auto simp: cb_window_def intro: cb_push_back_slides)

text \<open>
  C35: a ring made for \<open>n\<close> elements holds the last \<open>n\<close> of those it was filled with and those
  pushed since; so what is pushed at one tick of a wheel of \<open>n\<close> buckets leaves it at the
  \<open>n\<close>-th tick after, not before.
\<close>

theorem ring_keeps_last:
  assumes "0 < n" "n < SIZE_RANGE"
  shows "cb_rep (fold cb_push_back vs (cb_new n v)) (drop (length vs) (replicate n v @ vs))"
proof -
  have "cb_window (cb_new n v) (replicate n v)"
    using cb_new_rep [OF assms, of v] by (simp add: cb_window_def cb_new_def)
  from ring.slide_many [OF this] assms(1) show ?thesis by (simp add: cb_window_def)
qed

theorem ring_keeps_last_witness:
  "cb_rep (fold cb_push_back [1, 2, 3] (cb_new 2 (0 :: nat))) [2, 3]"
proof -
  have "(0 :: nat) < 2" "(2 :: nat) < SIZE_RANGE" by (simp_all add: SIZE_RANGE_def)
  from ring_keeps_last [OF this, of "[1, 2, 3]" "0 :: nat"] show ?thesis by (simp add: eval_nat_numeral)
qed

end
