(* ===== verification/Worker_Pipe.thy ===== *)
theory Worker_Pipe
  imports Prelude
begin

text \<open>
  The messages other threads write to a worker's pipe and the state machine that reads
  them back, \<open>core/worker.cpp\<close>: packed structures in the byte order of the target (little
  endian), read in pieces of any size.
\<close>

section \<open>Integers in memory\<close>

definition byte :: "nat \<Rightarrow> char" where
  "byte n = char_of n"

fun le_bytes :: "nat \<Rightarrow> nat \<Rightarrow> bytes" where
  "le_bytes 0 n = []"
| "le_bytes (Suc k) n = char_of (n mod 256) # le_bytes k (n div 256)"

fun le_val :: "bytes \<Rightarrow> nat" where
  "le_val [] = 0"
| "le_val (c # cs) = byte_val c + 256 * le_val cs"

lemma length_le_bytes [simp]: "length (le_bytes k n) = k"
  by (induction k arbitrary: n) simp_all

lemma le_val_le_bytes [simp]: "le_val (le_bytes k n) = n mod 256 ^ k"
proof (induction k arbitrary: n)
  case (Suc k)
  have "n mod (256 * 256 ^ k) = 256 * (n div 256 mod 256 ^ k) + n mod 256" by (rule mod_mult2_eq)
  with Suc show ?case by (simp add: byte_val_char_of_mod)
qed simp

lemma le_val_less: "le_val bs < 256 ^ length bs"
proof (induction bs)
  case (Cons b bs)
  have step: "a < 256 \<Longrightarrow> v < p \<Longrightarrow> a + 256 * v < 256 * p" for a v p :: nat by simp
  show ?case using step [OF byte_val_less Cons] by simp
qed simp

definition int_bytes :: "int \<Rightarrow> bytes" where
  "int_bytes i = le_bytes 4 (nat (i mod 2 ^ 32))"

definition int_val :: "bytes \<Rightarrow> int" where
  "int_val bs = signed_take_bit 31 (int (le_val bs))"

lemma int_val_int_bytes:
  assumes "- (2 ^ 31) \<le> i" "i < 2 ^ 31"
  shows "int_val (int_bytes i) = i"
proof -
  have "int (le_val (int_bytes i)) = i mod 2 ^ 32"
    by (simp add: int_bytes_def zmod_int)
  then have "int_val (int_bytes i) = signed_take_bit 31 (take_bit 32 i)"
    by (simp add: int_val_def take_bit_eq_mod)
  also have "\<dots> = signed_take_bit 31 i" by (simp add: signed_take_bit_take_bit)
  also have "\<dots> = i" by (rule signed_take_bit_int_eq_self) (use assms in simp_all)
  finally show ?thesis .
qed

section \<open>Messages\<close>

datatype pipe_msg =
    Exit_worker
  | Add_sock int bytes nat bool
  | Match_sock nat int bool

definition EXIT_WORKER :: nat where "EXIT_WORKER = 0"
definition ADD_SOCK :: nat where "ADD_SOCK = 1"
definition MATCH_SOCK :: nat where "MATCH_SOCK = 2"
definition INET6_ADDRSTRLEN :: nat where "INET6_ADDRSTRLEN = 46"

text \<open>The packed sizes of \<open>pipe_msg_add_conn\<close> and \<open>pipe_msg_match_conn\<close>.\<close>

definition ADD_CONN_SIZE :: nat where "ADD_CONN_SIZE = 4 + INET6_ADDRSTRLEN + 2 + 1"
definition MATCH_CONN_SIZE :: nat where "MATCH_CONN_SIZE = 8 + 4 + 1"

lemmas pipe_sizes = EXIT_WORKER_def ADD_SOCK_def MATCH_SOCK_def INET6_ADDRSTRLEN_def ADD_CONN_SIZE_def MATCH_CONN_SIZE_def

definition bool_byte :: "bool \<Rightarrow> char" where
  "bool_byte b = (if b then CHR 0x01 else NUL)"

text \<open>
  \<open>notify_exit\<close>, \<open>notify_add_conn\<close> and \<open>notify_match_conn\<close> with \<open>send_iovec\<close>: the type byte and
  the structure, one write. \<open>junk\<close> are the bytes of \<open>msg.ip\<close> behind the copied string.
\<close>

definition encode_msg :: "bytes \<Rightarrow> pipe_msg \<Rightarrow> bytes" where
  "encode_msg junk m = (case m of
      Exit_worker \<Rightarrow> [byte EXIT_WORKER]
    | Add_sock sock ip port ssl \<Rightarrow>
        byte ADD_SOCK # int_bytes sock @ take INET6_ADDRSTRLEN (ip @ NUL # junk @ replicate INET6_ADDRSTRLEN NUL) @
          le_bytes 2 port @ [bool_byte ssl]
    | Match_sock src dst flag \<Rightarrow> byte MATCH_SOCK # le_bytes 8 src @ int_bytes dst @ [bool_byte flag])"

definition decode_add :: "bytes \<Rightarrow> pipe_msg" where
  "decode_add buf = Add_sock (int_val (slice buf 0 4)) (cstr (slice buf 4 INET6_ADDRSTRLEN))
     (le_val (slice buf (4 + INET6_ADDRSTRLEN) 2)) (slice buf (4 + INET6_ADDRSTRLEN + 2) 1 \<noteq> [NUL])"

definition decode_match :: "bytes \<Rightarrow> pipe_msg" where
  "decode_match buf = Match_sock (le_val (slice buf 0 8)) (int_val (slice buf 8 4)) (slice buf 12 1 \<noteq> [NUL])"

definition msg_ok :: "pipe_msg \<Rightarrow> bool" where
  "msg_ok m = (case m of Exit_worker \<Rightarrow> True
     | Add_sock sock ip port ssl \<Rightarrow> - (2 ^ 31) \<le> sock \<and> sock < 2 ^ 31 \<and> length ip < INET6_ADDRSTRLEN \<and> NUL \<notin> set ip \<and> port < 2 ^ 16
     | Match_sock src dst flag \<Rightarrow> src < 2 ^ 64 \<and> - (2 ^ 31) \<le> dst \<and> dst < 2 ^ 31)"

section \<open>The reading side\<close>

datatype pipe_state = prepare | add_conn | match_conn

text \<open>\<open>r_buf\<close> are the \<open>pipe_tran_\<close> bytes read so far of the \<open>pipe_size_\<close> that are due.\<close>

record pipe_reader =
  r_buf :: bytes
  r_size :: nat
  r_state :: pipe_state

definition new_reader :: pipe_reader where
  "new_reader = \<lparr>r_buf = [], r_size = 1, r_state = prepare\<rparr>"

text \<open>\<open>state_machine\<close> after a read; no result when the assertion on the type byte fails.\<close>

definition reader_step :: "pipe_reader \<Rightarrow> (pipe_msg option \<times> pipe_reader) option" where
  "reader_step s = (case r_state s of
      prepare \<Rightarrow>
        (let t = byte_val (hd (r_buf s)) in
         if t = ADD_SOCK then Some (None, \<lparr>r_buf = [], r_size = ADD_CONN_SIZE, r_state = add_conn\<rparr>)
         else if t = MATCH_SOCK then Some (None, \<lparr>r_buf = [], r_size = MATCH_CONN_SIZE, r_state = match_conn\<rparr>)
         else if t = EXIT_WORKER then Some (Some Exit_worker, s)
         else None)
    | add_conn \<Rightarrow>
        if length (r_buf s) = r_size s then Some (Some (decode_add (r_buf s)), new_reader) else Some (None, s)
    | match_conn \<Rightarrow>
        if length (r_buf s) = r_size s then Some (Some (decode_match (r_buf s)), new_reader) else Some (None, s))"

text \<open>One read of at most \<open>n\<close> bytes of what is in the pipe.\<close>

definition read_pipe :: "nat \<Rightarrow> bytes \<Rightarrow> pipe_reader \<Rightarrow> bytes \<times> pipe_reader" where
  "read_pipe n stream s = (let k = min n (r_size s - length (r_buf s))
     in (drop k stream, s\<lparr>r_buf := r_buf s @ take k stream\<rparr>))"

text \<open>
  The loop of \<open>handle_notify\<close> until the pipe is empty; \<open>ns\<close> are the sizes the reads deliver at
  most. After the exit message no further one is read: the event loop was told to break.
\<close>

fun reader_run :: "nat list \<Rightarrow> bytes \<Rightarrow> pipe_reader \<Rightarrow> (pipe_msg list \<times> bytes \<times> pipe_reader) option" where
  "reader_run [] stream s = Some ([], stream, s)"
| "reader_run (n # ns) stream s =
     (if stream = [] then Some ([], stream, s)
      else (case read_pipe n stream s of (stream', s') \<Rightarrow>
        (case reader_step s' of
           None \<Rightarrow> None
         | Some (None, s2) \<Rightarrow> reader_run ns stream' s2
         | Some (Some Exit_worker, s2) \<Rightarrow> Some ([Exit_worker], stream', s2)
         | Some (Some m, s2) \<Rightarrow> map_option (\<lambda>(ms, r). (m # ms, r)) (reader_run ns stream' s2))))"

section \<open>Every message arrives\<close>

lemma decode_encode_match:
  assumes "src < 2 ^ 64" "- (2 ^ 31) \<le> dst" "dst < 2 ^ 31"
  shows "decode_match (le_bytes 8 src @ int_bytes dst @ [bool_byte flag]) = Match_sock src dst flag"
proof -
  have "length (int_bytes dst) = 4" by (simp add: int_bytes_def)
  then show ?thesis
    using assms int_val_int_bytes [OF assms(2,3)]
    by (simp add: decode_match_def slice_def bool_byte_def)
qed

lemma cstr_terminated: "NUL \<notin> set s \<Longrightarrow> cstr (s @ NUL # r) = s"
  by (induction s) (auto simp: cstr_def)

lemma decode_encode_add:
  assumes "- (2 ^ 31) \<le> sock" "sock < 2 ^ 31" "length ip < INET6_ADDRSTRLEN" "NUL \<notin> set ip" "port < 2 ^ 16"
  shows "decode_add (int_bytes sock @ take INET6_ADDRSTRLEN (ip @ NUL # junk @ replicate INET6_ADDRSTRLEN NUL) @
          le_bytes 2 port @ [bool_byte ssl]) = Add_sock sock ip port ssl"
proof -
  let ?ip = "take INET6_ADDRSTRLEN (ip @ NUL # junk @ replicate INET6_ADDRSTRLEN NUL)"
  have 1: "length (int_bytes sock) = 4" by (simp add: int_bytes_def)
  have 2: "length ?ip = INET6_ADDRSTRLEN" by simp
  have "?ip = ip @ NUL # take (INET6_ADDRSTRLEN - Suc (length ip)) (junk @ replicate INET6_ADDRSTRLEN NUL)"
    using assms(3) by (simp add: take_Cons')
  then have 3: "cstr ?ip = ip" using cstr_terminated [OF assms(4)] by simp
  have 4: "slice (int_bytes sock @ ?ip @ le_bytes 2 port @ [bool_byte ssl]) 0 4 = int_bytes sock"
    using 1 by (simp add: slice_def)
  have 5: "slice (int_bytes sock @ ?ip @ le_bytes 2 port @ [bool_byte ssl]) 4 INET6_ADDRSTRLEN = ?ip"
    by (rule slice_append_mid) (simp_all only: 1 2)
  have 6: "slice ((int_bytes sock @ ?ip) @ le_bytes 2 port @ [bool_byte ssl]) (4 + INET6_ADDRSTRLEN) 2 = le_bytes 2 port"
    by (rule slice_append_mid) (simp_all only: length_append 1 2 length_le_bytes)
  have 7: "slice ((int_bytes sock @ ?ip @ le_bytes 2 port) @ [bool_byte ssl] @ []) (4 + INET6_ADDRSTRLEN + 2) 1 = [bool_byte ssl]"
    by (rule slice_append_mid) (simp_all only: length_append 1 2 length_le_bytes, simp_all)
  show ?thesis
    unfolding decode_add_def 4 5 3 int_val_int_bytes [OF assms(1,2)]
    using 6 7 assms(5) by (simp add: bool_byte_def)
qed

text \<open>The rest of a message body, read in pieces.\<close>

definition body_msg :: "pipe_state \<Rightarrow> bytes \<Rightarrow> pipe_msg" where
  "body_msg st b = (if st = add_conn then decode_add b else decode_match b)"

lemma body_msg_not_exit: "body_msg st b \<noteq> Exit_worker"
  by (simp add: body_msg_def decode_add_def decode_match_def)

lemma reader_body:
  assumes "r_state s \<noteq> prepare" "length (r_buf s) + length body = r_size s" "body \<noteq> []"
    and "\<forall>n \<in> set ns. 0 < n" "length body + length rest \<le> length ns"
  shows "\<exists>ns'. (\<forall>n \<in> set ns'. 0 < n) \<and> length rest \<le> length ns' \<and>
     reader_run ns (body @ rest) s =
       map_option (\<lambda>(ms, r). (body_msg (r_state s) (r_buf s @ body) # ms, r)) (reader_run ns' rest new_reader)"
  using assms
proof (induction ns arbitrary: s body)
  case Nil
  then show ?case by simp
next
  case (Cons n ns)
  define k where "k = min n (r_size s - length (r_buf s))"
  have lb: "0 < length body" using Cons.prems(3) by simp
  then have less: "length (r_buf s) < r_size s" using Cons.prems(2) by linarith
  have k: "0 < k" "k \<le> length body" using Cons.prems(2,4) by (simp_all add: k_def less)
  let ?s = "s\<lparr>r_buf := r_buf s @ take k body\<rparr>"
  have rd: "read_pipe n (body @ rest) s = (drop k body @ rest, ?s)"
    using k by (simp add: read_pipe_def Let_def k_def)
  show ?case
  proof (cases "k = length body")
    case True
    let ?m = "body_msg (r_state s) (r_buf s @ body)"
    have "reader_step ?s = Some (Some ?m, new_reader)"
      using Cons.prems(1,2) True by (cases "r_state s") (simp_all add: reader_step_def body_msg_def)
    then have "reader_run (n # ns) (body @ rest) s = map_option (\<lambda>(ms, r). (?m # ms, r)) (reader_run ns rest new_reader)"
      using rd True lb body_msg_not_exit [of "r_state s" "r_buf s @ body"] by (cases ?m) simp_all
    moreover have "\<forall>n \<in> set ns. 0 < n" using Cons.prems(4) by simp
    moreover have "length rest \<le> length ns" using Cons.prems(5) lb unfolding list.size by linarith
    ultimately show ?thesis by blast
  next
    case False
    then have less: "k < length body" using k by simp
    then have "reader_step ?s = Some (None, ?s)"
      using Cons.prems(1,2) k by (cases "r_state s") (simp_all add: reader_step_def)
    then have run: "reader_run (n # ns) (body @ rest) s = reader_run ns (drop k body @ rest) ?s"
      using rd lb by simp
    have "\<exists>ns'. (\<forall>n \<in> set ns'. 0 < n) \<and> length rest \<le> length ns' \<and>
     reader_run ns (drop k body @ rest) ?s =
       map_option (\<lambda>(ms, r). (body_msg (r_state ?s) (r_buf ?s @ drop k body) # ms, r)) (reader_run ns' rest new_reader)"
      by (rule Cons.IH) (use Cons.prems k less in simp_all)
    then show ?thesis unfolding run by simp
  qed
qed

text \<open>
  C31: whatever the sizes of the reads, the worker gets from its pipe the messages that were
  written to it, each whole, in order and once, up to the exit message.
\<close>

theorem pipe_delivers:
  assumes "list_all msg_ok ms" "Exit_worker \<notin> set ms"
    and "\<forall>n \<in> set ns. 0 < n" "length (concat (map (encode_msg junk) ms)) \<le> length ns"
  shows "reader_run ns (concat (map (encode_msg junk) ms)) new_reader = Some (ms, [], new_reader)"
  using assms
proof (induction ms arbitrary: ns)
  case Nil
  then show ?case by (cases ns) auto
next
  case (Cons m ms)
  let ?rest = "concat (map (encode_msg junk) ms)"
  obtain n ns1 where ns: "ns = n # ns1"
    using Cons.prems(4) by (cases ns; cases m) (auto simp: encode_msg_def)
  have n: "0 < n" "\<forall>n \<in> set ns1. 0 < n" using Cons.prems(3) ns by auto
  have one: "min n (Suc 0) = Suc 0" using n(1) by simp
  obtain t body st where e: "encode_msg junk m = byte t # body" "body \<noteq> []"
      "reader_step \<lparr>r_buf = [byte t], r_size = 1, r_state = prepare\<rparr> = Some (None, \<lparr>r_buf = [], r_size = length body, r_state = st\<rparr>)"
      "st = add_conn \<and> decode_add body = m \<or> st = match_conn \<and> decode_match body = m"
  proof (cases m)
    case (Add_sock sock ip port ssl)
    have len: "length (int_bytes sock) = 4" by (simp add: int_bytes_def)
    show ?thesis
      by (rule that [of ADD_SOCK "int_bytes sock @ take INET6_ADDRSTRLEN (ip @ NUL # junk @ replicate INET6_ADDRSTRLEN NUL) @
          le_bytes 2 port @ [bool_byte ssl]" add_conn])
        (use Cons.prems(1) decode_encode_add len in \<open>simp_all add: Add_sock encode_msg_def reader_step_def msg_ok_def pipe_sizes byte_def\<close>)
  next
    case (Match_sock src dst flag)
    have len: "length (int_bytes dst) = 4" by (simp add: int_bytes_def)
    show ?thesis
      by (rule that [of MATCH_SOCK "le_bytes 8 src @ int_bytes dst @ [bool_byte flag]" match_conn])
        (use Cons.prems(1) decode_encode_match len in \<open>simp_all add: Match_sock encode_msg_def reader_step_def msg_ok_def pipe_sizes byte_def\<close>)
  qed (use Cons.prems(2) in simp)
  let ?s = "\<lparr>r_buf = [], r_size = length body, r_state = st\<rparr>"
  have first: "reader_run ns (encode_msg junk m @ ?rest) new_reader = reader_run ns1 (body @ ?rest) ?s"
    using e(3) by (simp add: ns e(1) read_pipe_def new_reader_def one)
  have "\<exists>ns'. (\<forall>n \<in> set ns'. 0 < n) \<and> length ?rest \<le> length ns' \<and>
     reader_run ns1 (body @ ?rest) ?s =
       map_option (\<lambda>(ms, r). (body_msg (r_state ?s) (r_buf ?s @ body) # ms, r)) (reader_run ns' ?rest new_reader)"
    by (rule reader_body) (use e n Cons.prems(4) ns in auto)
  then obtain ns' where b: "\<forall>n \<in> set ns'. 0 < n" "length ?rest \<le> length ns'"
      "reader_run ns1 (body @ ?rest) ?s = map_option (\<lambda>(ms, r). (body_msg st body # ms, r)) (reader_run ns' ?rest new_reader)"
    by auto
  have "body_msg st body = m" using e(4) by (auto simp: body_msg_def)
  moreover have "reader_run ns' ?rest new_reader = Some (ms, [], new_reader)"
    by (rule Cons.IH) (use Cons.prems b in auto)
  ultimately show ?case using first b(3) by simp
qed

theorem pipe_delivers_witness:
  "reader_run (replicate 80 5) (concat (map (encode_msg ''zz'') [Match_sock 4711 17 True, Add_sock 9 ''10.0.0.1'' 8080 False])) new_reader
     = Some ([Match_sock 4711 17 True, Add_sock 9 ''10.0.0.1'' 8080 False], [], new_reader)"
  by (rule pipe_delivers)
     (simp_all add: msg_ok_def encode_msg_def pipe_sizes int_bytes_def)

end
