(* ===== verification/P2p_Msg.thy ===== *)
theory P2p_Msg
  imports Worker_Pipe
begin

text \<open>
  The request the proxy sends to the stun server to have a device connect to it,
  \<open>p2p_proxy_stun_msg\<close> of \<open>core/p2p_proxy.h\<close>, packed, with its numbers in network order. The
  build has SSL.
\<close>

definition DEV_ID_MAX_LEN :: nat where "DEV_ID_MAX_LEN = 128"
definition P2P_PROXY_VERSION :: nat where "P2P_PROXY_VERSION = 1"
definition P2P_PROXY_STUN_MSG_REQUEST :: nat where "P2P_PROXY_STUN_MSG_REQUEST = 0x10"
definition P2P_PROXY_STUN_MSG_SIZE :: nat where
  "P2P_PROXY_STUN_MSG_SIZE = 1 + 2 + 1 + (DEV_ID_MAX_LEN + 1) + 4 + 4 + 2 + 2"

definition be_bytes :: "nat \<Rightarrow> nat \<Rightarrow> bytes" where
  "be_bytes k n = rev (le_bytes k n)"

definition be_val :: "bytes \<Rightarrow> nat" where
  "be_val bs = le_val (rev bs)"

lemma length_be_bytes [simp]: "length (be_bytes k n) = k"
  by (simp add: be_bytes_def)

lemma be_val_be_bytes [simp]: "be_val (be_bytes k n) = n mod 256 ^ k"
  by (simp add: be_val_def be_bytes_def)

record stun_msg =
  m_ver :: nat
  m_size :: nat
  m_type :: nat
  m_dev_id :: bytes
  m_sock :: nat
  m_pub_addr :: nat
  m_port :: nat
  m_ssl_port :: nat

text \<open>\<open>junk\<close> is what the stack holds behind the terminator \<open>strcpy\<close> writes.\<close>

definition stun_bytes :: "bytes \<Rightarrow> stun_msg \<Rightarrow> bytes" where
  "stun_bytes junk m =
     le_bytes 1 (m_ver m) @ be_bytes 2 (m_size m) @ le_bytes 1 (m_type m) @
     take (DEV_ID_MAX_LEN + 1) (m_dev_id m @ NUL # junk @ replicate (DEV_ID_MAX_LEN + 1) NUL) @
     be_bytes 4 (m_sock m) @ le_bytes 4 (m_pub_addr m) @ be_bytes 2 (m_port m) @ be_bytes 2 (m_ssl_port m)"

text \<open>What the receiver reads from a packet of that size.\<close>

definition parse_stun :: "bytes \<Rightarrow> stun_msg" where
  "parse_stun p =
     (let d = 4 + (DEV_ID_MAX_LEN + 1) in
      \<lparr>m_ver = le_val (slice p 0 1), m_size = be_val (slice p 1 2), m_type = le_val (slice p 3 1),
       m_dev_id = cstr (slice p 4 (DEV_ID_MAX_LEN + 1)), m_sock = be_val (slice p d 4),
       m_pub_addr = le_val (slice p (d + 4) 4), m_port = be_val (slice p (d + 8) 2), m_ssl_port = be_val (slice p (d + 10) 2)\<rparr>)"

text \<open>The message of \<open>connection::request_new_server\<close>.\<close>

definition stun_request :: "int \<Rightarrow> bytes \<Rightarrow> nat \<Rightarrow> nat \<Rightarrow> nat \<Rightarrow> stun_msg" where
  "stun_request sock dev_id pub_ip port ssl_port =
     \<lparr>m_ver = P2P_PROXY_VERSION, m_size = P2P_PROXY_STUN_MSG_SIZE, m_type = P2P_PROXY_STUN_MSG_REQUEST,
      m_dev_id = dev_id, m_sock = nat (sock mod 2 ^ 32), m_pub_addr = pub_ip, m_port = port, m_ssl_port = ssl_port\<rparr>"

lemma length_stun_bytes [simp]: "length (stun_bytes junk m) = P2P_PROXY_STUN_MSG_SIZE"
  by (simp add: stun_bytes_def P2P_PROXY_STUN_MSG_SIZE_def DEV_ID_MAX_LEN_def)

lemma slice_fields:
  assumes "length a = 1" "length b = 2" "length c = 1" "length d = DEV_ID_MAX_LEN + 1" "length e = 4" "length f = 4"
    "length g = 2" "length h = 2"
  shows "slice (a @ b @ c @ d @ e @ f @ g @ h) 0 1 = a" "slice (a @ b @ c @ d @ e @ f @ g @ h) 1 2 = b"
    "slice (a @ b @ c @ d @ e @ f @ g @ h) 3 1 = c" "slice (a @ b @ c @ d @ e @ f @ g @ h) 4 (DEV_ID_MAX_LEN + 1) = d"
    "slice (a @ b @ c @ d @ e @ f @ g @ h) (4 + (DEV_ID_MAX_LEN + 1)) 4 = e"
    "slice (a @ b @ c @ d @ e @ f @ g @ h) (4 + (DEV_ID_MAX_LEN + 1) + 4) 4 = f"
    "slice (a @ b @ c @ d @ e @ f @ g @ h) (4 + (DEV_ID_MAX_LEN + 1) + 8) 2 = g"
    "slice (a @ b @ c @ d @ e @ f @ g @ h) (4 + (DEV_ID_MAX_LEN + 1) + 10) 2 = h"
  using assms by (simp_all add: slice_def)

lemma parse_fields:
  assumes "length a = 1" "length b = 2" "length c = 1" "length d = DEV_ID_MAX_LEN + 1" "length e = 4" "length f = 4"
    "length g = 2" "length h = 2"
  shows "parse_stun (a @ b @ c @ d @ e @ f @ g @ h) = \<lparr>m_ver = le_val a, m_size = be_val b, m_type = le_val c,
     m_dev_id = cstr d, m_sock = be_val e, m_pub_addr = le_val f, m_port = be_val g, m_ssl_port = be_val h\<rparr>"
  unfolding parse_stun_def Let_def slice_fields [OF assms] by (rule refl)

text \<open>
  The request is as long as its size field says, fits the packet for every device
  identifier the proxy accepts, and carries the identifier, the client's socket (the number
  the device has to connect back with), the public address and both ports.
\<close>

theorem stun_request_roundtrip:
  assumes "length dev_id \<le> DEV_ID_MAX_LEN" "NUL \<notin> set dev_id" "0 \<le> sock" "sock < 2 ^ 31"
    and "pub_ip < 2 ^ 32" "port < 2 ^ 16" "ssl_port < 2 ^ 16"
  shows "length (stun_bytes junk (stun_request sock dev_id pub_ip port ssl_port)) = P2P_PROXY_STUN_MSG_SIZE \<and>
    parse_stun (stun_bytes junk (stun_request sock dev_id pub_ip port ssl_port)) = stun_request sock dev_id pub_ip port ssl_port"
proof -
  let ?d = "take (DEV_ID_MAX_LEN + 1) (dev_id @ NUL # junk @ replicate (DEV_ID_MAX_LEN + 1) NUL)"
  have ld: "length ?d = DEV_ID_MAX_LEN + 1" by simp
  have "?d = dev_id @ NUL # take (DEV_ID_MAX_LEN - length dev_id) (junk @ replicate (DEV_ID_MAX_LEN + 1) NUL)"
    using assms(1) by (simp add: take_Cons Suc_diff_le)
  then have d: "cstr ?d = dev_id" using cstr_terminated [OF assms(2)] by simp
  have sock: "nat (sock mod 2 ^ 32) < 2 ^ 32" by simp
  have "parse_stun (stun_bytes junk (stun_request sock dev_id pub_ip port ssl_port)) =
      \<lparr>m_ver = P2P_PROXY_VERSION mod 256, m_size = P2P_PROXY_STUN_MSG_SIZE mod 256 ^ 2, m_type = P2P_PROXY_STUN_MSG_REQUEST mod 256,
       m_dev_id = cstr ?d, m_sock = nat (sock mod 2 ^ 32) mod 256 ^ 4, m_pub_addr = pub_ip mod 256 ^ 4,
       m_port = port mod 256 ^ 2, m_ssl_port = ssl_port mod 256 ^ 2\<rparr>"
    unfolding stun_bytes_def by (subst parse_fields) (simp_all add: stun_request_def byte_val_char_of_mod)
  also have "\<dots> = stun_request sock dev_id pub_ip port ssl_port"
    using assms(5-7) sock d
    by (simp add: stun_request_def P2P_PROXY_VERSION_def P2P_PROXY_STUN_MSG_SIZE_def P2P_PROXY_STUN_MSG_REQUEST_def DEV_ID_MAX_LEN_def)
  finally show ?thesis by simp
qed

theorem stun_request_roundtrip_witness:
  "parse_stun (stun_bytes ''qq'' (stun_request 9 ''cam-1'' 16777343 80 443)) = stun_request 9 ''cam-1'' 16777343 80 443"
  using stun_request_roundtrip [of "''cam-1''" 9 16777343 80 443 "''qq''"] by (simp add: DEV_ID_MAX_LEN_def)

end
