(* ===== verification/Proxy_State.thy ===== *)
theory Proxy_State
  imports Http_Message Buffer Circle_Buffer P2p_Msg
begin

text \<open>
  The state the proxy's handlers work on: connections with the stream and the two queues
  each holds, the two connection tables, the workers with their timing wheels and pipes,
  and the outcomes the operating system and the event library will give. A handler is a
  function from the state to a result or an exception and the state; the exceptions are
  those of \<open>core/exception.h\<close> and the faults on which the process stops or is undefined:
  a failed assertion, an object that was deleted, an index outside an array.
\<close>

section \<open>Flags and kinds\<close>

text \<open>\<open>type_\<close> and the bits of \<open>flag_\<close>, \<open>core/connection.cpp\<close>.\<close>

datatype conn_type = CLIENT | IDLE_SERVER | BUSY_SERVER

type_synonym flags = "8 word"

definition MASK_BIT_RD :: flags where "MASK_BIT_RD = 0x01"
definition MASK_BIT_WR :: flags where "MASK_BIT_WR = 0x02"
definition MASK_BIT_RDWR :: flags where "MASK_BIT_RDWR = 0x03"
definition MASK_BIT_ENABLE_RD :: flags where "MASK_BIT_ENABLE_RD = 0x04"
definition MASK_BIT_CONNECTED :: flags where "MASK_BIT_CONNECTED = 0x08"
definition MASK_BIT_TIMEOUT :: flags where "MASK_BIT_TIMEOUT = 0x10"
definition MASK_BIT_CLOSE :: flags where "MASK_BIT_CLOSE = 0x20"
definition MASK_BIT_BROWSER :: flags where "MASK_BIT_BROWSER = 0x40"
definition MASK_BIT_SSL :: flags where "MASK_BIT_SSL = 0x80"

lemmas mask_defs = MASK_BIT_RD_def MASK_BIT_WR_def MASK_BIT_RDWR_def MASK_BIT_ENABLE_RD_def
  MASK_BIT_CONNECTED_def MASK_BIT_TIMEOUT_def MASK_BIT_CLOSE_def MASK_BIT_BROWSER_def MASK_BIT_SSL_def

definition has_flag :: "flags \<Rightarrow> flags \<Rightarrow> bool" where
  "has_flag f m \<longleftrightarrow> and f m \<noteq> 0"

definition set_flag :: "flags \<Rightarrow> flags \<Rightarrow> flags" where
  "set_flag f m = or f m"

definition clear_flag :: "flags \<Rightarrow> flags \<Rightarrow> flags" where
  "clear_flag f m = and f (not m)"

lemma has_set_other: "and m k = 0 \<Longrightarrow> has_flag (set_flag f m) k = has_flag f k"
  by (simp add: has_flag_def set_flag_def bit.conj_disj_distrib2)

lemma has_set_same: "m \<noteq> 0 \<Longrightarrow> has_flag (set_flag f m) m"
proof -
  assume m: "m \<noteq> 0"
  have "and (or f m) m = m" by (rule bit_word_eqI) (auto simp: bit_simps)
  with m show ?thesis by (simp add: has_flag_def set_flag_def)
qed

lemma has_clear_other: "and m k = 0 \<Longrightarrow> has_flag (clear_flag f m) k = has_flag f k"
proof -
  assume mk: "and m k = 0"
  have "and (and f (not m)) k = and f k"
  proof (rule bit_word_eqI)
    fix n assume "n < LENGTH(8)"
    have "\<not> (bit m n \<and> bit k n)" using mk by (metis bit_and_iff bit_0_eq bot_apply bot_bool_def)
    then show "bit (and (and f (not m)) k) n = bit (and f k) n"
      using \<open>n < LENGTH(8)\<close> by (auto simp: bit_simps)
  qed
  then show ?thesis by (simp add: has_flag_def clear_flag_def)
qed

lemma has_clear_same: "\<not> has_flag (clear_flag f m) m"
proof -
  have "and (and f (not m)) m = 0" by (rule bit_word_eqI) (auto simp: bit_simps)
  then show ?thesis by (simp add: has_flag_def clear_flag_def)
qed

text \<open>The flag an \<open>io_exception\<close> carries, \<open>core/exception.h\<close>, and the codes of \<open>core/constant.h\<close>.\<close>

datatype io_flag = SELF_RD_ERROR | SELF_WR_ERROR | OTHER_RD_ERROR | OTHER_WR_ERROR | IDLE_TIMEOUT

datatype op_code = OP_SIZE nat | OP_AGAIN | OP_CLOSE | OP_ERROR

section \<open>The components of the state\<close>

datatype read_state = reading_header | reading_body | reading_trailer

record http_stream =
  s_parser :: http_parser
  s_state :: read_state
  s_body_type :: int
  s_body_len :: nat
  s_body_tran :: nat
  s_buf :: "buffer option"

definition new_stream :: http_stream where
  "new_stream = \<lparr>s_parser = new_parser, s_state = reading_header, s_body_type = 0, s_body_len = 0,
     s_body_tran = 0, s_buf = None\<rparr>"

text \<open>
  Connections, workers and buckets are objects with addresses: connections are numbered, a
  bucket is the worker it belongs to and its place in the worker's ring. \<open>c_active\<close> says that
  the read event was made active by hand.
\<close>

type_synonym cid = nat
type_synonym wid = nat
type_synonym bucket = "wid \<times> nat"

record conn =
  c_sock :: int
  c_type :: conn_type
  c_flag :: flags
  c_host :: "wid option"
  c_other :: "cid option"
  c_bucket :: "bucket option"
  c_dev_id :: bytes
  c_callback :: bytes
  c_in :: buffer_queue
  c_out :: buffer_queue
  c_stream :: http_stream
  c_ip :: bytes
  c_port :: nat
  c_active :: bool

definition new_conn :: "int \<Rightarrow> bytes \<Rightarrow> nat \<Rightarrow> conn" where
  "new_conn sock ip port = \<lparr>c_sock = sock, c_type = CLIENT, c_flag = MASK_BIT_CONNECTED, c_host = None,
     c_other = None, c_bucket = None, c_dev_id = [], c_callback = [], c_in = q_new, c_out = q_new,
     c_stream = new_stream, c_ip = ip, c_port = port, c_active = False\<rparr>"

record worker =
  wk_ring :: "cid list circle_buffer"
  wk_pipe :: bytes
  wk_reader :: pipe_reader
  wk_stop :: bool

text \<open>
  What the system calls will return. A receive delivers bytes in order, as many as are
  there and fit; a send takes a prefix. \<open>w_sent\<close> is what the peer of a connection has been
  sent. \<open>w_ok\<close> are the outcomes of the calls that succeed or fail (\<open>event_add\<close>, the write to
  a pipe, the message to the stun server); when it is exhausted they succeed.
\<close>

datatype rx = Rx_data bytes | Rx_again | Rx_close | Rx_error
datatype tx = Tx_take nat | Tx_again | Tx_close | Tx_error

record settings =
  g_max_header :: nat
  g_pub_ip :: nat
  g_port :: nat
  g_ssl_port :: nat
  g_timeout_respond :: nat
  g_cross_domain :: bytes
  g_server_name :: bytes

record world =
  w_conns :: "cid \<Rightarrow> conn option"
  w_clients :: "(int \<times> cid) list"
  w_servers :: "(bytes \<times> cid) list"
  w_workers :: "wid \<Rightarrow> worker option"
  w_rx :: "cid \<Rightarrow> rx list"
  w_tx :: "cid \<Rightarrow> tx list"
  w_sent :: "cid \<Rightarrow> bytes"
  w_est :: "cid \<Rightarrow> bool"
  w_readable :: "cid \<Rightarrow> nat"
  w_ok :: "bool list"
  w_stun :: "bytes list"
  w_next :: cid
  w_timers :: "cid list"
  w_junk :: bytes
  w_usage :: "(bytes \<times> bytes \<times> nat) option"
  w_conf :: settings

section \<open>Results and exceptions\<close>

datatype fault = Assert_failed | Dangling_pointer | Out_of_bounds

datatype exc = Http_exc int | Io_exc io_flag | Std_exc | Fault fault

datatype 'a result = Val 'a | Exc exc

type_synonym 'a act = "world \<Rightarrow> 'a result \<times> world"

definition ret :: "'a \<Rightarrow> 'a act" where
  "ret x = (\<lambda>w. (Val x, w))"

definition throw :: "exc \<Rightarrow> 'a act" where
  "throw e = (\<lambda>w. (Exc e, w))"

definition bind :: "'a act \<Rightarrow> ('a \<Rightarrow> 'b act) \<Rightarrow> 'b act" where
  "bind m f = (\<lambda>w. case m w of (Val x, w') \<Rightarrow> f x w' | (Exc e, w') \<Rightarrow> (Exc e, w'))"

definition seq :: "unit act \<Rightarrow> 'b act \<Rightarrow> 'b act" where
  "seq m n = bind m (\<lambda>_. n)"

primrec block :: "unit act list \<Rightarrow> unit act" where
  "block [] = ret ()"
| "block (m # ms) = seq m (block ms)"

text \<open>\<open>catch(...)\<close> sees every exception of the program and no fault.\<close>

definition is_fault :: "exc \<Rightarrow> bool" where
  "is_fault e \<longleftrightarrow> (case e of Fault _ \<Rightarrow> True | _ \<Rightarrow> False)"

definition try_catch :: "'a act \<Rightarrow> (exc \<Rightarrow> 'a act) \<Rightarrow> 'a act" where
  "try_catch m h = (\<lambda>w. case m w of (Val x, w') \<Rightarrow> (Val x, w')
     | (Exc e, w') \<Rightarrow> if is_fault e then (Exc e, w') else h e w')"

definition only_if :: "bool \<Rightarrow> unit act \<Rightarrow> unit act" where
  "only_if b m = (if b then m else ret ())"

definition c_assert :: "bool \<Rightarrow> unit act" where
  "c_assert b = (if b then ret () else throw (Fault Assert_failed))"

definition reads :: "(world \<Rightarrow> 'a) \<Rightarrow> 'a act" where
  "reads f = (\<lambda>w. (Val (f w), w))"

definition modify :: "(world \<Rightarrow> world) \<Rightarrow> unit act" where
  "modify f = (\<lambda>w. (Val (), f w))"

text \<open>Reading and writing the members of a connection; a deleted one has none.\<close>

definition conn_get :: "cid \<Rightarrow> conn act" where
  "conn_get c = (\<lambda>w. case w_conns w c of None \<Rightarrow> (Exc (Fault Dangling_pointer), w) | Some r \<Rightarrow> (Val r, w))"

definition conn_upd :: "cid \<Rightarrow> (conn \<Rightarrow> conn) \<Rightarrow> unit act" where
  "conn_upd c f = (\<lambda>w. case w_conns w c of None \<Rightarrow> (Exc (Fault Dangling_pointer), w)
     | Some r \<Rightarrow> (Val (), w\<lparr>w_conns := (w_conns w)(c \<mapsto> f r)\<rparr>))"

definition with_conn :: "cid \<Rightarrow> (conn \<Rightarrow> 'a act) \<Rightarrow> 'a act" where
  "with_conn c f = bind (conn_get c) f"

definition set_flags :: "cid \<Rightarrow> flags \<Rightarrow> unit act" where
  "set_flags c m = conn_upd c (\<lambda>r. r\<lparr>c_flag := set_flag (c_flag r) m\<rparr>)"

definition clear_flags :: "cid \<Rightarrow> flags \<Rightarrow> unit act" where
  "clear_flags c m = conn_upd c (\<lambda>r. r\<lparr>c_flag := clear_flag (c_flag r) m\<rparr>)"

definition set_type :: "cid \<Rightarrow> conn_type \<Rightarrow> unit act" where
  "set_type c t = conn_upd c (\<lambda>r. r\<lparr>c_type := t\<rparr>)"

definition set_other :: "cid \<Rightarrow> cid option \<Rightarrow> unit act" where
  "set_other c p = conn_upd c (\<lambda>r. r\<lparr>c_other := p\<rparr>)"

definition timer_add :: "cid \<Rightarrow> unit act" where
  "timer_add c = modify (w_timers_update (\<lambda>ts. c # removeAll c ts))"

definition timer_del :: "cid \<Rightarrow> unit act" where
  "timer_del c = modify (w_timers_update (removeAll c))"

text \<open>A system call that can fail.\<close>

definition outcome :: "bool act" where
  "outcome = (\<lambda>w. case w_ok w of [] \<Rightarrow> (Val True, w) | b # bs \<Rightarrow> (Val b, w\<lparr>w_ok := bs\<rparr>))"

section \<open>Reasoning\<close>

text \<open>
  \<open>triple P m Q E\<close>: from a state with \<open>P\<close>, a normal end of \<open>m\<close> satisfies \<open>Q\<close> and an exception
  satisfies \<open>E\<close>.
\<close>

definition triple :: "(world \<Rightarrow> bool) \<Rightarrow> 'a act \<Rightarrow> ('a \<Rightarrow> world \<Rightarrow> bool) \<Rightarrow> (exc \<Rightarrow> world \<Rightarrow> bool) \<Rightarrow> bool" where
  "triple P m Q E \<longleftrightarrow> (\<forall>w. P w \<longrightarrow> (case m w of (Val x, w') \<Rightarrow> Q x w' | (Exc e, w') \<Rightarrow> E e w'))"

lemma tripleI: "(\<And>w. P w \<Longrightarrow> case m w of (Val x, w') \<Rightarrow> Q x w' | (Exc e, w') \<Rightarrow> E e w') \<Longrightarrow> triple P m Q E"
  by (simp add: triple_def)

lemma triple_pre: "triple P' m Q E \<Longrightarrow> (\<And>w. P w \<Longrightarrow> P' w) \<Longrightarrow> triple P m Q E"
  by (simp add: triple_def)

lemma triple_post:
  "triple P m Q' E' \<Longrightarrow> (\<And>x w. Q' x w \<Longrightarrow> Q x w) \<Longrightarrow> (\<And>e w. E' e w \<Longrightarrow> E e w) \<Longrightarrow> triple P m Q E"
  unfolding triple_def by (fastforce split: result.splits prod.splits)

lemma triple_bind:
  "triple P m R E \<Longrightarrow> (\<And>x. triple (R x) (f x) Q E) \<Longrightarrow> triple P (bind m f) Q E"
  unfolding triple_def bind_def by (fastforce split: result.splits prod.splits)

lemma triple_seq: "triple P m R E \<Longrightarrow> triple (R ()) n Q E \<Longrightarrow> triple P (seq m n) Q E"
  unfolding seq_def by (rule triple_bind) (auto simp: triple_def)

lemma triple_ret: "(\<And>w. P w \<Longrightarrow> Q x w) \<Longrightarrow> triple P (ret x) Q E"
  by (simp add: triple_def ret_def)

lemma triple_throw: "(\<And>w. P w \<Longrightarrow> E e w) \<Longrightarrow> triple P (throw e) Q E"
  by (simp add: triple_def throw_def)

lemma triple_if: "(b \<Longrightarrow> triple P m Q E) \<Longrightarrow> (\<not> b \<Longrightarrow> triple P n Q E) \<Longrightarrow> triple P (if b then m else n) Q E"
  by simp

lemma triple_only_if: "(b \<Longrightarrow> triple P m Q E) \<Longrightarrow> (\<And>w. \<not> b \<Longrightarrow> P w \<Longrightarrow> Q () w) \<Longrightarrow> triple P (only_if b m) Q E"
  by (simp add: only_if_def triple_ret)

lemma triple_try:
  assumes m: "triple P m Q E'" and fault: "\<And>e w. is_fault e \<Longrightarrow> E' e w \<Longrightarrow> E e w"
    and handler: "\<And>e. \<not> is_fault e \<Longrightarrow> triple (E' e) (h e) Q E"
  shows "triple P (try_catch m h) Q E"
proof (rule tripleI)
  fix w assume "P w"
  obtain r w' where r: "m w = (r, w')" by fastforce
  show "case try_catch m h w of (Val x, w') \<Rightarrow> Q x w' | (Exc e, w') \<Rightarrow> E e w'"
  proof (cases r)
    case (Val x)
    then show ?thesis using m \<open>P w\<close> r by (auto simp: triple_def try_catch_def)
  next
    case (Exc e)
    then have "E' e w'" using m \<open>P w\<close> r by (auto simp: triple_def)
    then show ?thesis
      using fault [of e w'] handler [of e] r Exc by (auto simp: try_catch_def triple_def)
  qed
qed

text \<open>An action keeps a property of the state however it ends.\<close>

definition keeps :: "(world \<Rightarrow> bool) \<Rightarrow> 'a act \<Rightarrow> bool" where
  "keeps I m \<longleftrightarrow> triple I m (\<lambda>_. I) (\<lambda>_. I)"

lemma keeps_iff: "keeps I m \<longleftrightarrow> (\<forall>w. I w \<longrightarrow> I (snd (m w)))"
proof -
  have "(case m w of (Val x, w') \<Rightarrow> I w' | (Exc e, w') \<Rightarrow> I w') = I (snd (m w))" for w
    by (cases "m w"; cases "fst (m w)") auto
  then show ?thesis by (simp add: keeps_def triple_def)
qed

lemma keepsI: "(\<And>w. I w \<Longrightarrow> I (snd (m w))) \<Longrightarrow> keeps I m"
  by (simp add: keeps_iff)

lemma keepsD: "keeps I m \<Longrightarrow> I w \<Longrightarrow> I (snd (m w))"
  by (simp add: keeps_iff)

lemma keeps_ret [wp]: "keeps I (ret x)"
  and keeps_throw [wp]: "keeps I (throw e)"
  and keeps_assert [wp]: "keeps I (c_assert b)"
  and keeps_conn_get [wp]: "keeps I (conn_get c)"
  and keeps_reads [wp]: "keeps I (reads f)"
  by (rule keepsI; simp add: ret_def throw_def c_assert_def conn_get_def reads_def split: option.splits)+

lemma keeps_bind [wp]: "keeps I m \<Longrightarrow> (\<And>x. keeps I (f x)) \<Longrightarrow> keeps I (bind m f)"
  unfolding keeps_def by (rule triple_bind)

lemma keeps_seq [wp]: "keeps I m \<Longrightarrow> keeps I n \<Longrightarrow> keeps I (seq m n)"
  unfolding keeps_def by (rule triple_seq)

lemma keeps_with_conn [wp]: "(\<And>r. keeps I (f r)) \<Longrightarrow> keeps I (with_conn c f)"
  unfolding with_conn_def by (intro wp)

lemma keeps_block: "list_all (keeps I) ms \<Longrightarrow> keeps I (block ms)"
  by (induction ms) (auto intro: wp)

lemma keeps_if [wp]: "(b \<Longrightarrow> keeps I m) \<Longrightarrow> (\<not> b \<Longrightarrow> keeps I n) \<Longrightarrow> keeps I (if b then m else n)"
  by simp

lemma keeps_only_if [wp]: "(b \<Longrightarrow> keeps I m) \<Longrightarrow> keeps I (only_if b m)"
  by (simp add: only_if_def keeps_ret)

lemma keeps_try [wp]: "keeps I m \<Longrightarrow> (\<And>e. keeps I (h e)) \<Longrightarrow> keeps I (try_catch m h)"
  unfolding keeps_def by (rule triple_try)

lemma keeps_case_option [wp]:
  "keeps I m \<Longrightarrow> (\<And>x. p = Some x \<Longrightarrow> keeps I (f x)) \<Longrightarrow> keeps I (case p of None \<Rightarrow> m | Some x \<Rightarrow> f x)"
  by (cases p) simp_all

lemma keeps_case_prod [wp]: "(\<And>a b. x = (a, b) \<Longrightarrow> keeps I (f a b)) \<Longrightarrow> keeps I (case x of (a, b) \<Rightarrow> f a b)"
  by (cases x) simp

end
