(* ===== verification/Conn_Table.thy ===== *)
theory Conn_Table
  imports Proxy_State
begin

text \<open>
  The two process-wide tables of \<open>core/connection.cpp\<close>: client connections by socket, server
  connections by device identifier (several may share one). Each operation runs under the
  table's lock, so it is one step.
\<close>

section \<open>The client table\<close>

definition client_table_add :: "cid \<Rightarrow> unit act" where
  "client_table_add c = with_conn c (\<lambda>r. bind (reads w_clients) (\<lambda>m.
     seq (modify (w_clients_update (\<lambda>m. al_insert m (c_sock r) c)))
         (c_assert (map_of m (c_sock r) = None))))"

definition client_table_remove :: "int \<Rightarrow> bool act" where
  "client_table_remove sock = bind (reads w_clients) (\<lambda>m.
     if map_of m sock = None then ret False
     else bind (modify (w_clients_update (\<lambda>m. al_erase m sock))) (\<lambda>_. ret True))"

text \<open>The connection and the worker that hosts it.\<close>

definition client_table_get :: "int \<Rightarrow> (cid \<times> wid option) option act" where
  "client_table_get sock = bind (reads w_clients) (\<lambda>m.
     case map_of m sock of None \<Rightarrow> ret None
     | Some c \<Rightarrow> with_conn c (\<lambda>r. ret (Some (c, c_host r))))"

definition client_table_size :: "nat act" where
  "client_table_size = reads (\<lambda>w. length (w_clients w))"

definition client_table_match_size :: "nat act" where
  "client_table_match_size = (\<lambda>w.
     if list_all (\<lambda>(_, c). w_conns w c \<noteq> None) (w_clients w)
     then (Val (length (filter (\<lambda>(_, c). c_other (the (w_conns w c)) \<noteq> None) (w_clients w))), w)
     else (Exc (Fault Dangling_pointer), w))"

section \<open>The server table\<close>

text \<open>A new entry goes behind the first one with an equal key.\<close>

fun mm_insert :: "('k \<times> 'v) list \<Rightarrow> 'k \<Rightarrow> 'v \<Rightarrow> ('k \<times> 'v) list" where
  "mm_insert [] k v = [(k, v)]"
| "mm_insert ((k', v') # m) k v = (if k' = k then (k', v') # (k, v) # m else (k', v') # mm_insert m k v)"

fun mm_erase :: "('k \<times> 'v) list \<Rightarrow> 'k \<Rightarrow> 'v \<Rightarrow> ('k \<times> 'v) list option" where
  "mm_erase [] k v = None"
| "mm_erase ((k', v') # m) k v = (if k' = k \<and> v' = v then Some m
     else (case mm_erase m k v of None \<Rightarrow> None | Some m' \<Rightarrow> Some ((k', v') # m')))"

definition equal_range :: "('k \<times> 'v) list \<Rightarrow> 'k \<Rightarrow> 'v list" where
  "equal_range m k = map snd (filter (\<lambda>(k', _). k' = k) m)"

definition server_table_add :: "cid \<Rightarrow> unit act" where
  "server_table_add c = with_conn c (\<lambda>r. modify (w_servers_update (\<lambda>m. mm_insert m (c_dev_id r) c)))"

definition server_table_remove :: "cid \<Rightarrow> bool act" where
  "server_table_remove c = with_conn c (\<lambda>r. bind (reads w_servers) (\<lambda>m.
     case mm_erase m (c_dev_id r) c of None \<Rightarrow> ret False
     | Some m' \<Rightarrow> bind (modify (w_servers_update (\<lambda>_. m'))) (\<lambda>_. ret True)))"

text \<open>The two searches over the entries, in order, until one has the socket or is idle.\<close>

primrec find_sock :: "cid list \<Rightarrow> int \<Rightarrow> (cid \<times> wid option) option act" where
  "find_sock [] sock = ret None"
| "find_sock (c # cs) sock = with_conn c (\<lambda>r. if c_sock r = sock then ret (Some (c, c_host r)) else find_sock cs sock)"

definition server_table_get_sock :: "int \<Rightarrow> cid option act" where
  "server_table_get_sock sock = bind (reads w_servers) (\<lambda>m. bind (find_sock (map snd m) sock) (\<lambda>p. ret (map_option fst p)))"

definition server_table_get :: "bytes \<Rightarrow> int \<Rightarrow> (cid \<times> wid option) option act" where
  "server_table_get dev_id sock = bind (reads w_servers) (\<lambda>m. find_sock (equal_range m dev_id) sock)"

primrec take_idle :: "cid list \<Rightarrow> (cid \<times> int \<times> wid option) option act" where
  "take_idle [] = ret None"
| "take_idle (c # cs) = with_conn c (\<lambda>r.
     if c_type r = IDLE_SERVER then seq (set_type c BUSY_SERVER) (ret (Some (c, c_sock r, c_host r)))
     else take_idle cs)"

definition server_table_get_idle :: "bytes \<Rightarrow> (cid \<times> int \<times> wid option) option act" where
  "server_table_get_idle dev_id = bind (reads w_servers) (\<lambda>m. take_idle (equal_range m dev_id))"

definition server_table_size :: "nat act" where
  "server_table_size = reads (\<lambda>w. length (w_servers w))"

section \<open>A table of connections, as its users see it\<close>

text \<open>
  What the handlers need of a table: an entry is there after it was put in and until it is
  taken out, and other entries do not change.
\<close>

locale conn_registry =
  fixes entry :: "'t \<Rightarrow> 'k \<Rightarrow> 'v \<Rightarrow> bool" and put :: "'t \<Rightarrow> 'k \<Rightarrow> 'v \<Rightarrow> 't" and drop_entry :: "'t \<Rightarrow> 'k \<Rightarrow> 'v \<Rightarrow> 't"
    and room :: "'t \<Rightarrow> 'k \<Rightarrow> bool" and wf :: "'t \<Rightarrow> bool"
  assumes entry_put: "wf t \<Longrightarrow> room t k \<Longrightarrow> entry (put t k v) k' v' \<longleftrightarrow> (k' = k \<and> v' = v) \<or> entry t k' v'"
    and wf_put: "wf t \<Longrightarrow> room t k \<Longrightarrow> \<not> entry t k v \<Longrightarrow> wf (put t k v)"
    and entry_drop: "wf t \<Longrightarrow> entry t k v \<Longrightarrow> entry (drop_entry t k v) k' v' \<longleftrightarrow> entry t k' v' \<and> \<not> (k' = k \<and> v' = v)"
    and wf_drop: "wf t \<Longrightarrow> entry t k v \<Longrightarrow> wf (drop_entry t k v)"
begin

text \<open>Registering and unregistering leaves every query as it was.\<close>

lemma put_drop:
  assumes "wf t" "room t k" "\<not> entry t k v"
  shows "entry (drop_entry (put t k v) k v) k' v' \<longleftrightarrow> entry t k' v'"
  using assms entry_put [OF assms(1,2)] entry_drop [OF wf_put [OF assms], of k v] by auto

lemma put_many:
  assumes "wf t" "\<forall>k. room t k" "\<And>t k v. wf t \<Longrightarrow> room t k \<Longrightarrow> \<forall>k'. room (put t k v) k'"
    "distinct kvs" "\<forall>kv \<in> set kvs. \<not> entry t (fst kv) (snd kv)"
  shows "entry (fold (\<lambda>kv t. put t (fst kv) (snd kv)) kvs t) k v \<longleftrightarrow> (k, v) \<in> set kvs \<or> entry t k v"
  using assms
proof (induction kvs arbitrary: t)
  case (Cons kv kvs)
  obtain a b where kv: "kv = (a, b)" by fastforce
  have r: "room t a" "wf (put t a b)" "\<forall>k. room (put t a b) k"
    using Cons.prems kv wf_put [of t a b] by auto
  have "\<forall>x \<in> set kvs. \<not> entry (put t a b) (fst x) (snd x)"
    using Cons.prems(4,5) kv entry_put [OF Cons.prems(1) r(1)] by auto
  with Cons.IH [OF r(2,3) Cons.prems(3)] Cons.prems(4) show ?case
    using entry_put [OF Cons.prems(1) r(1)] by (auto simp: kv)
qed simp

end

lemma set_mm_insert [simp]: "set (mm_insert m k v) = insert (k, v) (set m)"
  by (induction m k v rule: mm_insert.induct) auto

lemma distinct_mm_insert [simp]: "distinct (mm_insert m k v) \<longleftrightarrow> (k, v) \<notin> set m \<and> distinct m"
  by (induction m k v rule: mm_insert.induct) auto

lemma mm_erase_SomeD: "mm_erase m k v = Some m' \<Longrightarrow> distinct m \<Longrightarrow> set m' = set m - {(k, v)} \<and> distinct m'"
proof (induction m k v arbitrary: m' rule: mm_erase.induct)
  case (2 k' v' m k v)
  show ?case
  proof (cases "k' = k \<and> v' = v")
    case True
    with 2(2,3) show ?thesis by auto
  next
    case False
    with 2(2) obtain m'' where m'': "mm_erase m k v = Some m''" "m' = (k', v') # m''"
      by (auto split: option.splits if_splits)
    with 2(1) [OF False m''(1)] 2(3) False show ?thesis by auto
  qed
qed simp

lemma mm_erase_None_iff: "mm_erase m k v = None \<longleftrightarrow> (k, v) \<notin> set m"
  by (induction m k v rule: mm_erase.induct) (auto split: option.splits)

lemma mm_erase_in: "distinct m \<Longrightarrow> (k, v) \<in> set m \<Longrightarrow> \<exists>m'. mm_erase m k v = Some m' \<and> set m' = set m - {(k, v)} \<and> distinct m'"
  using mm_erase_None_iff [of m k v] mm_erase_SomeD [of m k v] by (cases "mm_erase m k v") auto

lemma set_equal_range: "set (equal_range m k) = {v. (k, v) \<in> set m}"
  by (force simp: equal_range_def)

interpretation servers: conn_registry "\<lambda>m k v. (k, v) \<in> set m" mm_insert "\<lambda>m k v. the (mm_erase m k v)" "\<lambda>_ _. True" distinct
proof unfold_locales
  fix t :: "('a \<times> 'b) list" and k v k' v'
  assume t: "distinct t" and e: "(k, v) \<in> set t"
  from mm_erase_in [OF t e] obtain m' where "mm_erase t k v = Some m'" "set m' = set t - {(k, v)}" "distinct m'" by blast
  then show "(k', v') \<in> set (the (mm_erase t k v)) \<longleftrightarrow> (k', v') \<in> set t \<and> \<not> (k' = k \<and> v' = v)"
    and "distinct (the (mm_erase t k v))" by auto
qed auto

interpretation clients: conn_registry "\<lambda>m k v. map_of m k = Some v" al_insert "\<lambda>m k v. al_erase m k"
  "\<lambda>m k. map_of m k = None" "\<lambda>m. distinct (map fst m)"
  by unfold_locales (auto split: option.splits if_splits simp del: map_of_eq_Some_iff)

text \<open>
  A server connection that is entered and taken out again leaves the entries under every
  device identifier as they were, also when the same device has other connections.
\<close>

theorem server_table_add_remove:
  assumes "distinct (w_servers w)" "w_conns w c = Some r" "(c_dev_id r, c) \<notin> set (w_servers w)"
  shows "\<exists>w1 w2. server_table_add c w = (Val (), w1) \<and> server_table_remove c w1 = (Val True, w2) \<and>
     set (equal_range (w_servers w1) (c_dev_id r)) = insert c (set (equal_range (w_servers w) (c_dev_id r))) \<and>
     (\<forall>d. set (equal_range (w_servers w2) d) = set (equal_range (w_servers w) d))"
proof -
  let ?m = "w_servers w" and ?d = "c_dev_id r"
  obtain m' where m': "mm_erase (mm_insert ?m ?d c) ?d c = Some m'"
    using mm_erase_None_iff [of "mm_insert ?m ?d c" ?d c] by auto
  have set: "(d, x) \<in> set m' \<longleftrightarrow> (d, x) \<in> set ?m" for d x
    using servers.put_drop [of ?m ?d c d x] assms m' by simp
  let ?w1 = "w\<lparr>w_servers := mm_insert ?m ?d c\<rparr>"
  have 1: "server_table_add c w = (Val (), ?w1)"
    using assms(2) by (simp add: server_table_add_def with_conn_def bind_def conn_get_def modify_def)
  have 2: "server_table_remove c ?w1 = (Val True, ?w1\<lparr>w_servers := m'\<rparr>)"
    using assms(2) m' by (simp add: server_table_remove_def with_conn_def bind_def conn_get_def reads_def modify_def ret_def)
  show ?thesis
    by (intro exI, rule conjI [OF 1], rule conjI [OF 2]) (auto simp: set_equal_range set)
qed

definition start_world :: "settings \<Rightarrow> world" where
  "start_world g = \<lparr>w_conns = (\<lambda>_. None), w_clients = [], w_servers = [], w_workers = (\<lambda>_. None),
     w_rx = (\<lambda>_. []), w_tx = (\<lambda>_. []), w_sent = (\<lambda>_. []), w_est = (\<lambda>_. True), w_readable = (\<lambda>_. 1024),
     w_ok = [], w_stun = [], w_next = 0, w_timers = [], w_junk = [], w_usage = None, w_conf = g\<rparr>"

definition default_settings :: settings where
  "default_settings = \<lparr>g_max_header = 8192, g_pub_ip = 16777343, g_port = 80, g_ssl_port = 443, g_timeout_respond = 10,
     g_cross_domain = [], g_server_name = ''nti_proxy''\<rparr>"

theorem server_table_add_remove_witness:
  "\<exists>w2. server_table_remove 1 (snd (server_table_add 1
     ((start_world default_settings)\<lparr>w_conns := [1 \<mapsto> (new_conn 7 ''ip'' 80)\<lparr>c_dev_id := ''d''\<rparr>], w_servers := [(''d'', 2)]\<rparr>)))
     = (Val True, w2) \<and> set (equal_range (w_servers w2) ''d'') = {2}"
  using server_table_add_remove [of "(start_world default_settings)\<lparr>w_conns := [1 \<mapsto> (new_conn 7 ''ip'' 80)\<lparr>c_dev_id := ''d''\<rparr>],
      w_servers := [(''d'', 2)]\<rparr>" 1 "(new_conn 7 ''ip'' 80)\<lparr>c_dev_id := ''d''\<rparr>"]
  by (auto simp: start_world_def equal_range_def)

lemma take_idle_spec:
  "take_idle cs w = (Val (Some (c, s, h)), w') \<Longrightarrow>
   \<exists>r. c \<in> set cs \<and> w_conns w c = Some r \<and> c_type r = IDLE_SERVER \<and> s = c_sock r \<and> h = c_host r \<and>
     w' = w\<lparr>w_conns := (w_conns w)(c \<mapsto> r\<lparr>c_type := BUSY_SERVER\<rparr>)\<rparr>"
  by (induction cs)
     (auto simp: ret_def with_conn_def bind_def conn_get_def seq_def set_type_def conn_upd_def
        split: option.splits if_splits prod.splits result.splits)



end
