(* ===== verification/Conn_Io.thy ===== *)
theory Conn_Io
  imports Conn_Table
begin

text \<open>
  The part of \<open>core/connection.cpp\<close> that moves bytes and ends connections: receiving and
  sending on the socket, the timing-wheel bucket a connection is in, attaching to a worker
  and detaching, the output loop with its flow control, and the ways a connection and its
  partner are closed.
\<close>

section \<open>Sockets\<close>

definition conn_recv :: "cid \<Rightarrow> nat \<Rightarrow> (op_code \<times> bytes) act" where
  "conn_recv c len = seq (with_conn c (\<lambda>_. ret ())) (\<lambda>w. case w_rx w c of
      [] \<Rightarrow> (Val (OP_AGAIN, []), w)
    | Rx_data bs # rest \<Rightarrow>
        let got = take len bs in
        if got = [] then (Val (OP_CLOSE, []), w)
        else (Val (OP_SIZE (length got), got),
              w\<lparr>w_rx := (w_rx w)(c := (if drop len bs = [] then rest else Rx_data (drop len bs) # rest))\<rparr>)
    | Rx_again # rest \<Rightarrow> (Val (OP_AGAIN, []), w\<lparr>w_rx := (w_rx w)(c := rest)\<rparr>)
    | Rx_error # rest \<Rightarrow> (Val (OP_ERROR, []), w\<lparr>w_rx := (w_rx w)(c := rest)\<rparr>)
    | Rx_close # _ \<Rightarrow> (Val (OP_CLOSE, []), w))"

definition deliver :: "cid \<Rightarrow> bytes \<Rightarrow> tx list \<Rightarrow> world \<Rightarrow> op_code \<times> world" where
  "deliver c bs rest w = (if bs = [] then (OP_CLOSE, w\<lparr>w_tx := (w_tx w)(c := rest)\<rparr>)
     else (OP_SIZE (length bs), w\<lparr>w_tx := (w_tx w)(c := rest), w_sent := (w_sent w)(c := w_sent w c @ bs)\<rparr>))"

definition conn_send :: "cid \<Rightarrow> bytes \<Rightarrow> world \<Rightarrow> op_code \<times> world" where
  "conn_send c bs w = (case w_tx w c of
      [] \<Rightarrow> deliver c bs [] w
    | Tx_take n # rest \<Rightarrow> deliver c (take n bs) rest w
    | Tx_again # rest \<Rightarrow> (OP_AGAIN, w\<lparr>w_tx := (w_tx w)(c := rest)\<rparr>)
    | Tx_error # rest \<Rightarrow> (OP_ERROR, w\<lparr>w_tx := (w_tx w)(c := rest)\<rparr>)
    | Tx_close # rest \<Rightarrow> (OP_CLOSE, w\<lparr>w_tx := (w_tx w)(c := rest)\<rparr>))"

section \<open>Buckets\<close>

definition worker_get :: "wid \<Rightarrow> worker act" where
  "worker_get h = (\<lambda>w. case w_workers w h of None \<Rightarrow> (Exc (Fault Dangling_pointer), w) | Some k \<Rightarrow> (Val k, w))"

definition worker_upd :: "wid \<Rightarrow> (worker \<Rightarrow> worker) \<Rightarrow> unit act" where
  "worker_upd h f = bind (worker_get h) (\<lambda>k. modify (\<lambda>w. w\<lparr>w_workers := (w_workers w)(h \<mapsto> f k)\<rparr>))"

definition ring_slot_upd :: "nat \<Rightarrow> (cid list \<Rightarrow> cid list) \<Rightarrow> worker \<Rightarrow> worker" where
  "ring_slot_upd i f k = k\<lparr>wk_ring := (wk_ring k)\<lparr>cb_data := (cb_data (wk_ring k))[i := f (cb_data (wk_ring k) ! i)]\<rparr>\<rparr>"

definition bucket_get :: "bucket \<Rightarrow> cid list act" where
  "bucket_get b = bind (worker_get (fst b)) (\<lambda>k.
     if snd b < length (cb_data (wk_ring k)) then ret (cb_data (wk_ring k) ! snd b) else throw (Fault Out_of_bounds))"

definition bucket_erase :: "bucket \<Rightarrow> cid \<Rightarrow> unit act" where
  "bucket_erase b c = bind (bucket_get b) (\<lambda>_. worker_upd (fst b) (ring_slot_upd (snd b) (removeAll c)))"

definition bucket_insert :: "bucket \<Rightarrow> cid \<Rightarrow> bool act" where
  "bucket_insert b c = bind (bucket_get b) (\<lambda>cs. if c \<in> set cs then ret False
     else bind (worker_upd (fst b) (ring_slot_upd (snd b) (\<lambda>cs. cs @ [c]))) (\<lambda>_. ret True))"

definition back_bucket :: "wid \<Rightarrow> bucket act" where
  "back_bucket h = bind (worker_get h) (\<lambda>k.
     if cb_empty (wk_ring k) then throw (Fault Assert_failed) else ret (h, cb_back (wk_ring k)))"

text \<open>\<open>update\<close>: the connection moves to the newest bucket.\<close>

definition conn_update :: "cid \<Rightarrow> unit act" where
  "conn_update c = with_conn c (\<lambda>r. case (c_host r, c_bucket r) of
      (Some h, Some b) \<Rightarrow> bind (back_bucket h) (\<lambda>t. only_if (b \<noteq> t) (block
        [bucket_erase b c,
         conn_upd c (\<lambda>r. r\<lparr>c_bucket := Some t\<rparr>),
         bind (bucket_insert t c) (\<lambda>_. ret ())]))
    | _ \<Rightarrow> throw (Fault Assert_failed))"

section \<open>Attaching and detaching\<close>

definition conn_attach :: "cid \<Rightarrow> wid \<Rightarrow> unit act" where
  "conn_attach c h =
     bind (back_bucket h) (\<lambda>t. bind (bucket_insert t c) (\<lambda>fresh. seq (c_assert fresh)
       (bind outcome (\<lambda>ok. if \<not> ok then throw Std_exc else seq (set_flags c MASK_BIT_WR)
       (bind outcome (\<lambda>ok. if \<not> ok then throw (Http_exc HTTP_PROXY_SERVER_INTERNAL_ERROR)
          else seq (set_flags c (or MASK_BIT_RD MASK_BIT_ENABLE_RD))
       (bind outcome (\<lambda>ok. if \<not> ok then throw (Http_exc HTTP_PROXY_SERVER_INTERNAL_ERROR)
          else conn_upd c (\<lambda>r. r\<lparr>c_bucket := Some t, c_host := Some h\<rparr>)))))))))"

definition conn_detach :: "cid \<Rightarrow> unit act" where
  "conn_detach c = with_conn c (\<lambda>r. seq
     (only_if (c_host r \<noteq> None) (block
        [only_if (has_flag (c_flag r) MASK_BIT_RD) (seq (conn_upd c (\<lambda>r. r\<lparr>c_active := False\<rparr>)) (clear_flags c MASK_BIT_RD)),
         only_if (has_flag (c_flag r) MASK_BIT_WR) (clear_flags c MASK_BIT_WR),
         only_if (has_flag (c_flag r) MASK_BIT_TIMEOUT)
           (seq (timer_del c) (clear_flags c MASK_BIT_TIMEOUT))]))
     (case c_bucket r of None \<Rightarrow> ret () | Some b \<Rightarrow> bucket_erase b c))"

definition is_detach :: "conn \<Rightarrow> bool" where
  "is_detach r \<longleftrightarrow> \<not> has_flag (c_flag r) MASK_BIT_RDWR"

text \<open>\<open>delete this\<close>: the destructor, then the object is gone.\<close>

definition conn_destroy :: "cid \<Rightarrow> unit act" where
  "conn_destroy c = block
     [conn_detach c,
      with_conn c (\<lambda>r. if c_type r = CLIENT then bind (client_table_remove (c_sock r)) (\<lambda>_. ret ())
                       else bind (server_table_remove c) (\<lambda>_. ret ())),
      modify (\<lambda>w. w\<lparr>w_conns := (w_conns w)(c := None)\<rparr>)]"

definition conn_create :: "int \<Rightarrow> bytes \<Rightarrow> nat \<Rightarrow> bool \<Rightarrow> cid act" where
  "conn_create sock ip port ssl = bind (reads w_next) (\<lambda>c.
     seq (modify (\<lambda>w. w\<lparr>w_next := Suc c, w_conns := (w_conns w)(c \<mapsto>
            (let r = new_conn sock ip port in if ssl then r\<lparr>c_flag := set_flag (c_flag r) MASK_BIT_SSL\<rparr> else r))\<rparr>))
     (seq (client_table_add c) (ret c)))"

section \<open>Output and flow control\<close>

definition enable_read :: "cid \<Rightarrow> unit act" where
  "enable_read c = with_conn c (\<lambda>r. only_if (\<not> has_flag (c_flag r) MASK_BIT_ENABLE_RD)
     (seq (conn_upd c (\<lambda>r. r\<lparr>c_active := True\<rparr>)) (set_flags c MASK_BIT_ENABLE_RD)))"

definition disable_read :: "cid \<Rightarrow> unit act" where
  "disable_read c = clear_flags c MASK_BIT_ENABLE_RD"

definition is_enable_read :: "conn \<Rightarrow> bool" where
  "is_enable_read r \<longleftrightarrow> has_flag (c_flag r) MASK_BIT_ENABLE_RD"

text \<open>After \<open>n\<close> bytes of the first buffer were sent.\<close>

definition advance_out :: "nat \<Rightarrow> conn \<Rightarrow> conn" where
  "advance_out n r = (case q_bufs (c_out r) of [] \<Rightarrow> r
     | b # bs \<Rightarrow>
        let b' = b\<lparr>b_dtran := b_dtran b + n\<rparr>;
            q = q_consume_size ((c_out r)\<lparr>q_bufs := b' # bs\<rparr>) n
        in r\<lparr>c_out := (if b_dtran b' = b_dlen b' then snd (q_pop False q) else q)\<rparr>)"

definition out_pending :: "world \<Rightarrow> cid \<Rightarrow> nat" where
  "out_pending w c = (case w_conns w c of None \<Rightarrow> 0
     | Some r \<Rightarrow> (\<Sum>b\<leftarrow>q_bufs (c_out r). b_dlen b - b_dtran b))"

lemma conn_send_size:
  "conn_send c bs w = (OP_SIZE n, w') \<Longrightarrow> 0 < n \<and> n \<le> length bs \<and> w_conns w' = w_conns w"
  by (auto simp: conn_send_def deliver_def split: list.splits tx.splits if_splits)

lemma send_progress:
  assumes "w_conns w c = Some r" "q_top (c_out r) = Some b" "conn_send c (unsent b) w = (OP_SIZE n, w')"
  shows "out_pending (w'\<lparr>w_conns := (w_conns w')(c \<mapsto> advance_out n r)\<rparr>) c < out_pending w c"
proof -
  have n: "0 < n" "n \<le> length (unsent b)" "w_conns w' = w_conns w"
    using conn_send_size [OF assms(3)] by auto
  obtain bs where bs: "q_bufs (c_out r) = b # bs" using assms(2) by (auto simp: q_top_def split: list.splits)
  have "length (unsent b) \<le> b_dlen b - b_dtran b" by (simp add: unsent_def)
  with n have "b_dlen b - (b_dtran b + n) < b_dlen b - b_dtran b" by linarith
  then show ?thesis
    using assms bs n by (auto simp: out_pending_def advance_out_def Let_def q_pop_def q_consume_size_def)
qed

text \<open>
  The loop of \<open>async_send_impl\<close>: the result says whether it ended with the queue empty, with
  a full socket, or with a broken one.
\<close>

datatype send_end = Sent_all | Would_block | Broken

function send_loop :: "cid \<Rightarrow> send_end act" where
  "send_loop c w = (case w_conns w c of None \<Rightarrow> (Exc (Fault Dangling_pointer), w)
     | Some r \<Rightarrow> (case q_top (c_out r) of None \<Rightarrow> (Val Sent_all, w)
         | Some b \<Rightarrow> (case conn_send c (unsent b) w of
               (OP_SIZE n, w') \<Rightarrow> send_loop c (w'\<lparr>w_conns := (w_conns w')(c \<mapsto> advance_out n r)\<rparr>)
             | (OP_AGAIN, w') \<Rightarrow> (Val Would_block, w')
             | (_, w') \<Rightarrow> (Val Broken, w'))))"
  by auto
termination
  by (relation "measure (\<lambda>(c, w). out_pending w c)") (auto intro: send_progress)

declare send_loop.simps [simp del]

definition async_send_impl :: "cid \<Rightarrow> io_flag \<Rightarrow> unit act" where
  "async_send_impl c flag = bind (send_loop c) (\<lambda>e. if e = Would_block then ret ()
     else seq (only_if (e = Broken) (set_flags c MASK_BIT_CLOSE))
       (with_conn c (\<lambda>r. if has_flag (c_flag r) MASK_BIT_CLOSE then throw (Io_exc flag)
          else only_if (c_other r = None \<and> c_type r = BUSY_SERVER) (set_type c IDLE_SERVER))))"

definition async_send :: "cid \<Rightarrow> io_flag \<Rightarrow> unit act" where
  "async_send c flag = seq (conn_update c) (seq (async_send_impl c flag)
     (with_conn c (\<lambda>r. case c_other r of None \<Rightarrow> ret ()
        | Some p \<Rightarrow> with_conn p (\<lambda>q. bind (reads (\<lambda>w. w_est w p)) (\<lambda>established.
            if has_flag (c_flag q) MASK_BIT_CONNECTED \<and> \<not> established
            then seq (clear_flags p MASK_BIT_CONNECTED) (enable_read p)
            else only_if (q_is_low (c_out r)) (enable_read p))))))"

section \<open>Closing\<close>

definition is_data_break :: "conn \<Rightarrow> bool" where
  "is_data_break r \<longleftrightarrow> s_state (c_stream r) \<noteq> reading_header"

text \<open>The partner is to close once its output is written, and is let go.\<close>

definition release_partner :: "cid \<Rightarrow> unit act" where
  "release_partner p = seq (set_flags p MASK_BIT_CLOSE) (set_other p None)"

definition close_self :: "cid \<Rightarrow> io_flag \<Rightarrow> bool \<Rightarrow> unit act" where
  "close_self c flag reuse_server = seq
     (with_conn c (\<lambda>r. case c_other r of None \<Rightarrow> ret ()
        | Some p \<Rightarrow>
           if c_type r = CLIENT then
             (if \<not> is_data_break r then
                (if reuse_server then block
                   [set_other p None, enable_read p,
                    with_conn p (\<lambda>q. only_if (q_empty (c_out q)) (set_type p IDLE_SERVER))]
                 else if flag = SELF_RD_ERROR then release_partner p
                 else conn_destroy p)
              else seq (conn_destroy p) (set_other c None))
           else if flag = SELF_RD_ERROR then release_partner p
           else conn_destroy p))
     (seq (with_conn c (\<lambda>r. case c_other r of None \<Rightarrow> ret ()
        | Some p \<Rightarrow> only_if (flag = SELF_RD_ERROR)
            (try_catch (async_send p SELF_WR_ERROR) (\<lambda>_. conn_destroy p))))
     (conn_destroy c))"

definition conn_close :: "cid \<Rightarrow> io_flag \<Rightarrow> bool \<Rightarrow> unit act" where
  "conn_close c flag reuse_server =
     (case flag of
        SELF_RD_ERROR \<Rightarrow> close_self c flag reuse_server
      | SELF_WR_ERROR \<Rightarrow> close_self c flag reuse_server
      | OTHER_WR_ERROR \<Rightarrow> with_conn c (\<lambda>r. case c_other r of None \<Rightarrow> throw (Fault Assert_failed)
          | Some p \<Rightarrow> seq (conn_destroy p)
              (if \<not> reuse_server \<or> c_type r = CLIENT then conn_destroy c
               else block [set_other c None, enable_read c,
                  with_conn c (\<lambda>r. only_if (q_empty (c_out r)) (set_type c IDLE_SERVER))]))
      | IDLE_TIMEOUT \<Rightarrow> with_conn c (\<lambda>r. case c_other r of None \<Rightarrow> conn_destroy c
          | Some p \<Rightarrow> only_if (c_type r \<noteq> CLIENT) (seq (set_other p None) (conn_destroy c)))
      | OTHER_RD_ERROR \<Rightarrow> throw (Fault Assert_failed))"

end
