(* ===== verification/Http_Response.thy ===== *)
theory Http_Response
  imports Conn_Io
begin

text \<open>
  The responses \<open>http_stream\<close> of \<open>core/http.cpp\<close> makes itself: their text, the size that is
  computed for it beforehand, and the error, acknowledgement, cross-domain and system
  information messages.
\<close>

section \<open>Text and size\<close>

text \<open>\<open>get_digit_len(char)\<close>: the argument is converted to \<open>size_t\<close>, a negative one to a huge number.\<close>

definition char_digit_len :: "int \<Rightarrow> nat" where
  "char_digit_len x = (case get_digit_len (nat (x mod 2 ^ 64)) 10 of Some n \<Rightarrow> n | None \<Rightarrow> 0)"

definition response_text :: "int \<Rightarrow> int \<Rightarrow> bytes \<Rightarrow> (bytes \<times> bytes) list \<Rightarrow> bytes \<Rightarrow> bytes" where
  "response_text major minor line headers body =
     ''HTTP/'' @ dec_int major @ ''.'' @ dec_int minor @ [SP] @ line @ CRLF @
     concat (map render_field headers) @ CRLF @ body"

definition response_size :: "int \<Rightarrow> int \<Rightarrow> bytes \<Rightarrow> (bytes \<times> bytes) list \<Rightarrow> bytes \<Rightarrow> nat" where
  "response_size major minor line headers body =
     5 + (char_digit_len major + char_digit_len minor + 2) + (length line + 2) +
     (\<Sum>f\<leftarrow>headers. length (fst f) + length (snd f) + 4) + 2 + length body"

definition status_text_or_unknow :: "int \<Rightarrow> bytes" where
  "status_text_or_unknow status = (case http_get_status_line status of None \<Rightarrow> ''unknow'' | Some l \<Rightarrow> l)"

text \<open>
  The buffer: allocated with the computed size, filled with the text; what the text does
  not reach keeps the bytes the allocator left (\<open>junk\<close>), and the whole size is sent.
\<close>

definition response_buffer ::
  "bytes \<Rightarrow> int \<Rightarrow> int \<Rightarrow> bytes \<Rightarrow> (bytes \<times> bytes) list \<Rightarrow> bytes \<Rightarrow> buffer option" where
  "response_buffer junk major minor line headers body =
     (let size = response_size major minor line headers body;
          text = response_text major minor line headers body
      in if size < length text then None
         else Some ((new_buffer size)\<lparr>b_dlen := size,
                 b_data := text @ take (size - length text) (junk @ replicate size NUL)\<rparr>))"

datatype send_mode = nosend | send_close | send_keepalive

definition send_response ::
  "cid \<Rightarrow> int \<Rightarrow> (bytes \<times> bytes) list \<Rightarrow> bytes \<Rightarrow> send_mode \<Rightarrow> unit act" where
  "send_response c status headers body flag = with_conn c (\<lambda>r. bind (reads w_junk) (\<lambda>junk.
     let hdr = p_hdr (s_parser (c_stream r)) in
     case response_buffer junk (h_major hdr) (h_minor hdr) (status_text_or_unknow status) headers body of
       None \<Rightarrow> throw (Fault Out_of_bounds)
     | Some b \<Rightarrow> seq (conn_upd c (\<lambda>r. r\<lparr>c_out := q_push (c_out r) b\<rparr>))
         (case flag of
            nosend \<Rightarrow> ret ()
          | send_close \<Rightarrow> seq (set_flags c MASK_BIT_CLOSE) (async_send c SELF_WR_ERROR)
          | send_keepalive \<Rightarrow> seq (clear_flags c MASK_BIT_CLOSE) (async_send c SELF_WR_ERROR))))"

section \<open>The messages\<close>

definition html_page :: "bytes \<Rightarrow> bytes" where
  "html_page line = ''<HTML><HEAD>'' @ [LF] @ ''<TITLE>'' @ line @ ''</TITLE>'' @ [LF] @ ''</HEAD><BODY>'' @ [LF] @
     ''<H1>'' @ line @ ''</H1>'' @ [LF] @ ''</BODY></HTML>'' @ [LF]"

definition DQUOTE :: char where "DQUOTE = CHR 0x22"

definition quoted :: "bytes \<Rightarrow> bytes" where
  "quoted s = [DQUOTE] @ s @ [DQUOTE]"

definition callback_body :: "bytes \<Rightarrow> int \<Rightarrow> bytes \<Rightarrow> bytes \<Rightarrow> bytes" where
  "callback_body callback status line server =
     cstr callback @ ''({'' @ quoted ''code'' @ '':'' @ dec_int status @ '','' @ quoted ''message'' @ '':'' @ quoted line @
     '','' @ quoted ''server'' @ '':'' @ quoted server @ ''})''"

definition ERROR_BUF_SIZE :: nat where "ERROR_BUF_SIZE = 1024"

text \<open>
  \<open>snprintf(buf,n,...)\<close> returns the length of the whole text; \<open>buf[ret] = 0\<close> follows, a write
  outside \<open>buf\<close> when the text does not fit.
\<close>

definition stream_send_error :: "cid \<Rightarrow> int \<Rightarrow> unit act" where
  "stream_send_error c status = (case http_get_status_line status of
      None \<Rightarrow> throw (Fault Assert_failed)
    | Some line \<Rightarrow> with_conn c (\<lambda>r. bind (reads w_conf) (\<lambda>g.
        let browser = has_flag (c_flag r) MASK_BIT_BROWSER;
            type = (if browser then ''application/json'' else ''text/html'');
            text = (if browser then callback_body (c_callback r) status line (g_server_name g) else html_page line);
            status' = (if browser then HTTP_OK else status)
        in if length text \<ge> ERROR_BUF_SIZE then throw (Fault Out_of_bounds)
           else send_response c status'
             [(''Access-Control-Allow-Origin'', ''*''), (''Content-Type'', type), (''Server'', g_server_name g),
              (''Connection'', ''close''), (''Content-Length'', dec_nat (length text))] text send_close)))"

definition send_ok :: "cid \<Rightarrow> bool \<Rightarrow> send_mode \<Rightarrow> unit act" where
  "send_ok c is_html flag = bind (reads w_conf) (\<lambda>g.
     let type = (if is_html then ''text/html'' else ''application/json'');
         text = (if is_html then html_page (case http_get_status_line HTTP_OK of Some l \<Rightarrow> l | None \<Rightarrow> []) else ''{}'')
     in send_response c HTTP_OK
          [(''Content-Type'', type), (''Server'', g_server_name g), (''Content-Length'', dec_nat (length text))] text flag)"

definition send_crossdomain :: "cid \<Rightarrow> unit act" where
  "send_crossdomain c = bind (reads w_conf) (\<lambda>g. send_response c HTTP_OK
     [(''Content-Type'', ''text/xml''), (''Server'', g_server_name g),
      (''Content-Length'', dec_nat (length (g_cross_domain g)))] (g_cross_domain g) send_keepalive)"

definition uptime_text :: "nat \<Rightarrow> bytes" where
  "uptime_text uptime =
     (let day = uptime div 86400; remain = uptime mod 86400; hour = remain div 3600; remain = remain mod 3600;
          minute = remain div 60; sec = remain mod 60
      in dec_nat day @ '' day '' @ dec_nat hour @ '' hour '' @ dec_nat minute @ '' minute '' @ dec_nat sec @ '' second'')"

definition system_info_body :: "nat \<Rightarrow> nat \<Rightarrow> nat \<Rightarrow> (bytes \<times> bytes \<times> nat) option \<Rightarrow> bytes \<Rightarrow> bytes" where
  "system_info_body clients servers matched usage server =
     ''{'' @ quoted ''client_conns'' @ '':'' @ dec_nat clients @ '','' @ quoted ''server_conns'' @ '':'' @ dec_nat servers @
     '','' @ quoted ''match_conns'' @ '':'' @ dec_nat matched @
     (case usage of None \<Rightarrow> [] | Some (cpu, mem, up) \<Rightarrow>
        '','' @ quoted ''self_cpu'' @ '':'' @ cpu @ '','' @ quoted ''self_mem'' @ '':'' @ mem @
        '','' @ quoted ''uptime'' @ '':'' @ quoted (uptime_text up)) @
     '','' @ quoted ''server'' @ '':'' @ quoted server @ ''}''"

definition send_system_info :: "cid \<Rightarrow> unit act" where
  "send_system_info c = bind client_table_size (\<lambda>clients. bind client_table_match_size (\<lambda>matched.
     bind server_table_size (\<lambda>servers. bind (reads w_conf) (\<lambda>g. bind (reads w_usage) (\<lambda>usage.
       let text = system_info_body clients servers matched usage (g_server_name g)
       in if length text \<ge> ERROR_BUF_SIZE - 1 then throw (Fault Out_of_bounds)
          else send_response c HTTP_OK
            [(''Content-Type'', ''application/json''), (''Server'', g_server_name g),
             (''Content-Length'', dec_nat (length text))] text send_keepalive)))))"

text \<open>\<open>connection::send_error\<close>: reading stops, the error goes out, and the connection ends with it.\<close>

definition send_error :: "cid \<Rightarrow> int \<Rightarrow> unit act" where
  "send_error c error = with_conn c (\<lambda>r. seq (c_assert (c_host r \<noteq> None))
     (bind (if has_flag (c_flag r) MASK_BIT_WR then ret True else outcome) (\<lambda>ok.
        if \<not> ok then conn_close c SELF_WR_ERROR False
        else seq (only_if (has_flag (c_flag r) MASK_BIT_RD)
                   (seq (conn_upd c (\<lambda>r. r\<lparr>c_active := False\<rparr>)) (clear_flags c MASK_BIT_RD)))
             (try_catch (stream_send_error c error) (\<lambda>_. conn_close c SELF_WR_ERROR False)))))"

section \<open>The size is the length of the text\<close>

lemma length_render_field [simp]: "length (render_field f) = length (fst f) + length (snd f) + 4"
  by (simp add: render_field_def)

lemma length_concat_fields:
  "length (concat (map render_field headers)) = (\<Sum>f\<leftarrow>headers. length (fst f) + length (snd f) + 4)"
  by (induction headers) simp_all

lemma char_digit_len_nonneg: "0 \<le> x \<Longrightarrow> x < 2 ^ 64 \<Longrightarrow> char_digit_len x = length (dec_int x)"
  by (simp add: char_digit_len_def get_digit_len_dec dec_int_def)

lemma length_dec_nat_mono: "m \<le> n \<Longrightarrow> length (dec_nat m) \<le> length (dec_nat n)"
proof (induction n arbitrary: m rule: dec_nat.induct)
  case (1 n)
  show ?case
  proof (cases "n < 10")
    case True
    then show ?thesis using 1 by (simp add: dec_nat.simps [of m] dec_nat.simps [of n])
  next
    case False
    then have "length (dec_nat (m div 10)) \<le> length (dec_nat (n div 10))" using 1 by (simp add: div_le_mono)
    then show ?thesis using False by (simp add: dec_nat.simps [of m] dec_nat.simps [of n])
  qed
qed

lemma char_digit_len_neg:
  assumes "x < 0" "-128 \<le> x"
  shows "length (dec_int x) < char_digit_len x"
proof -
  have "(x + 2 ^ 64) mod 2 ^ 64 = x + 2 ^ 64" by (rule mod_pos_pos_trivial) (use assms in simp_all)
  then have "x mod 2 ^ 64 = x + 2 ^ 64" by (simp only: mod_add_self2)
  then have "10000 \<le> nat (x mod 2 ^ 64)" using assms by simp
  then have "length (dec_nat 10000) \<le> char_digit_len x"
    unfolding char_digit_len_def get_digit_len_dec using length_dec_nat_mono by simp
  moreover have "length (dec_nat (nat (- x))) \<le> length (dec_nat 128)"
    by (rule length_dec_nat_mono) (use assms in simp)
  moreover have "length (dec_nat 10000) = 5" "length (dec_nat 128) = 3"
    by (simp_all add: dec_nat.simps)
  moreover have "length (dec_int x) = Suc (length (dec_nat (nat (- x))))"
    using assms(1) by (simp add: dec_int_def)
  ultimately show ?thesis by linarith
qed

text \<open>
  C40: whatever the version the peer sent, the size computed for a response is enough for
  its text; it is exact when major and minor are not negative, and larger, so that bytes
  the code never wrote are sent, when one of them wrapped to a negative \<open>char\<close>.
\<close>

theorem response_size_enough:
  assumes "-128 \<le> major" "major < 128" "-128 \<le> minor" "minor < 128"
  shows "length (response_text major minor line headers body) \<le> response_size major minor line headers body \<and>
     (response_size major minor line headers body = length (response_text major minor line headers body) \<longleftrightarrow>
        0 \<le> major \<and> 0 \<le> minor)"
proof -
  have len: "length (response_text major minor line headers body) =
      5 + (length (dec_int major) + length (dec_int minor) + 2) + (length line + 2) +
     (\<Sum>f\<leftarrow>headers. length (fst f) + length (snd f) + 4) + 2 + length body"
    by (simp add: response_text_def length_concat_fields)
  have d: "length (dec_int x) \<le> char_digit_len x \<and> (char_digit_len x = length (dec_int x) \<longleftrightarrow> 0 \<le> x)"
    if "-128 \<le> x" "x < 128" for x
    using that char_digit_len_nonneg [of x] char_digit_len_neg [of x] by (cases "0 \<le> x") auto
  show ?thesis
    using d [OF assms(1,2)] d [OF assms(3,4)] unfolding len response_size_def by auto
qed

theorem response_size_enough_witness:
  "response_size 1 1 ''200 OK'' [(''A'', ''b'')] ''{}'' = length (response_text 1 1 ''200 OK'' [(''A'', ''b'')] ''{}'') \<and>
   response_size (-56) 1 ''200 OK'' [] [] \<noteq> length (response_text (-56) 1 ''200 OK'' [] [])"
  using response_size_enough [of 1 1 "''200 OK''" "[(''A'', ''b'')]" "''{}''"]
    response_size_enough [of "-56" 1 "''200 OK''" "[]" "[]"] by simp

text \<open>
  The error answer to a browser client writes outside its 1024-byte buffer as soon as
  the callback name the client chose is long enough.
\<close>

theorem send_error_overflow:
  assumes "w_conns w c = Some r" "has_flag (c_flag r) MASK_BIT_BROWSER" "http_get_status_line status = Some line"
    and "968 \<le> length (cstr (c_callback r))" "length line + length (g_server_name (w_conf w)) \<ge> 20"
  shows "stream_send_error c status w = (Exc (Fault Out_of_bounds), w)"
proof -
  have "0 < length (dec_int status)" by (simp add: dec_int_def)
  then have "ERROR_BUF_SIZE \<le> length (callback_body (c_callback r) status line (g_server_name (w_conf w)))"
    using assms(4,5) by (simp add: callback_body_def quoted_def ERROR_BUF_SIZE_def)
  then show ?thesis
    using assms by (simp add: stream_send_error_def with_conn_def bind_def conn_get_def reads_def throw_def Let_def)
qed


theorem send_error_overflow_witness:
  "(let r = (new_conn 7 ''ip'' 80)\<lparr>c_callback := replicate 1000 (CHR ''f''), c_flag := MASK_BIT_BROWSER\<rparr>;
        w = (start_world default_settings)\<lparr>w_conns := [1 \<mapsto> r]\<rparr>
    in stream_send_error 1 HTTP_BAD_REQUEST w = (Exc (Fault Out_of_bounds), w))"
proof -
  let ?r = "(new_conn 7 ''ip'' 80)\<lparr>c_callback := replicate 1000 (CHR ''f''), c_flag := MASK_BIT_BROWSER\<rparr>"
  let ?w = "(start_world default_settings)\<lparr>w_conns := [1 \<mapsto> ?r]\<rparr>"
  have "http_get_status_line HTTP_BAD_REQUEST = Some ''400 Bad Request''" by code_simp
  moreover have "cstr (replicate 1000 (CHR ''f'')) = replicate 1000 (CHR ''f'')" by (rule cstr_id) simp
  ultimately show ?thesis
    using send_error_overflow [of ?w 1 ?r HTTP_BAD_REQUEST "''400 Bad Request''"]
    by (simp add: Let_def has_flag_def MASK_BIT_BROWSER_def start_world_def default_settings_def)
qed

end
