(* ===== verification/Conn_Match.thy ===== *)
theory Conn_Match
  imports Http_Response Http_Uri
begin

text \<open>
  How a request decides what a connection becomes, the rest of \<open>core/connection.cpp\<close>: the
  URI is searched for the device identifier, the callback and the socket to connect back
  to; a client asks the stun server to have its device connect, a device's connection is
  matched with the client that waits for it, in the same worker or by moving to the
  client's worker.
\<close>

section \<open>The URI\<close>

text \<open>Pointers into the URI are offsets; \<open>NULL\<close> is \<open>None\<close>.\<close>

record uri_info =
  ui_is_client :: bool
  ui_dev_beg :: "nat option"
  ui_dev_end :: "nat option"
  ui_sock :: int
  ui_cb :: "(nat \<times> nat) option"

definition sc_match1 :: bytes where "sc_match1 = ''/proxy/response?Ver=1&Cmd=2&DeviceID=''"
definition sc_match2 :: bytes where "sc_match2 = ''&ConnectID=''"
definition sc_match3 :: bytes where "sc_match3 = ''DeviceID=''"
definition sc_match4 :: bytes where "sc_match4 = ''callback=''"
definition sc_match5 :: char where "sc_match5 = CHR ''&''"

text \<open>\<open>strcasestr\<close> and \<open>strchr\<close> from an offset, as an offset into the whole.\<close>

definition find_from :: "(bytes \<Rightarrow> nat option) \<Rightarrow> bytes \<Rightarrow> nat \<Rightarrow> nat option" where
  "find_from f s i = map_option (\<lambda>k. i + k) (f (drop i s))"

definition amp_or_end :: "bytes \<Rightarrow> nat \<Rightarrow> nat" where
  "amp_or_end uri i = (case find_from (\<lambda>s. strchr s sc_match5) uri i of Some e \<Rightarrow> e | None \<Rightarrow> length uri)"

definition get_uri_info :: "int \<Rightarrow> bytes \<Rightarrow> uri_info" where
  "get_uri_info verb uri =
     (case strcasestr uri sc_match1 of
        Some i \<Rightarrow>
          if verb = HTTP_POST then
            let beg = i + length sc_match1; end = find_from (\<lambda>s. strcasestr s sc_match2) uri beg
            in \<lparr>ui_is_client = False, ui_dev_beg = Some beg, ui_dev_end = end,
                ui_sock = (case end of Some e \<Rightarrow> c_atoi (drop (e + length sc_match2) uri) | None \<Rightarrow> 0), ui_cb = None\<rparr>
          else \<lparr>ui_is_client = True,
                ui_dev_beg = map_option (\<lambda>i. i + length sc_match3) (strcasestr uri sc_match3),
                ui_dev_end = map_option (\<lambda>i. amp_or_end uri (i + length sc_match3)) (strcasestr uri sc_match3), ui_sock = 0,
                ui_cb = map_option (\<lambda>i. (i + length sc_match4, amp_or_end uri (i + length sc_match4))) (strcasestr uri sc_match4)\<rparr>
      | None \<Rightarrow> \<lparr>ui_is_client = True,
                ui_dev_beg = map_option (\<lambda>i. i + length sc_match3) (strcasestr uri sc_match3),
                ui_dev_end = map_option (\<lambda>i. amp_or_end uri (i + length sc_match3)) (strcasestr uri sc_match3), ui_sock = 0,
                ui_cb = map_option (\<lambda>i. (i + length sc_match4, amp_or_end uri (i + length sc_match4))) (strcasestr uri sc_match4)\<rparr>)"

section \<open>Requests to other threads\<close>

definition notify_match_conn :: "wid \<Rightarrow> cid \<Rightarrow> int \<Rightarrow> bool \<Rightarrow> bool act" where
  "notify_match_conn h src dst flag = bind (worker_get h) (\<lambda>_. bind outcome (\<lambda>ok.
     if \<not> ok then ret False
     else bind (reads w_junk) (\<lambda>junk. bind (worker_upd h (\<lambda>k. k\<lparr>wk_pipe := wk_pipe k @ encode_msg junk (Match_sock src dst flag)\<rparr>))
       (\<lambda>_. ret True))))"

text \<open>\<open>request_new_server\<close>: the timer is armed before the message is handed to the connector.\<close>

definition request_new_server :: "cid \<Rightarrow> unit act" where
  "request_new_server c = with_conn c (\<lambda>r. bind (reads w_conf) (\<lambda>g. bind (reads w_junk) (\<lambda>junk.
     seq (c_assert (length (c_dev_id r) \<le> DEV_ID_MAX_LEN))
     (seq (only_if (has_flag (c_flag r) MASK_BIT_TIMEOUT)
            (seq (timer_del c) (clear_flags c MASK_BIT_TIMEOUT)))
     (bind outcome (\<lambda>armed. if \<not> armed then throw (Http_exc HTTP_PROXY_SERVER_INTERNAL_ERROR)
        else seq (timer_add c)
     (bind outcome (\<lambda>sent. if \<not> sent then throw (Http_exc HTTP_PROXY_SERVER_INTERNAL_ERROR)
        else seq (modify (\<lambda>w. w\<lparr>w_stun := w_stun w @ [stun_bytes junk (stun_request (c_sock r) (cstr (c_dev_id r)) (g_pub_ip g)
                      (g_port g) (if has_flag (c_flag r) MASK_BIT_SSL then g_ssl_port g else 0))]\<rparr>))
             (set_flags c MASK_BIT_TIMEOUT)))))))))"

section \<open>Matching\<close>

text \<open>\<open>match(connection*,bool)\<close>.\<close>

definition conn_match :: "cid \<Rightarrow> cid \<Rightarrow> bool \<Rightarrow> unit act" where
  "conn_match c p is_client = with_conn p (\<lambda>q. with_conn c (\<lambda>r.
     seq (c_assert (c_other q = None)) (seq (c_assert (c_other r = None))
     (seq (if is_client then
        (if \<not> has_flag (c_flag q) MASK_BIT_TIMEOUT then throw (Http_exc HTTP_INVALID_MATCH)
         else block
           [timer_del p,
            clear_flags p MASK_BIT_TIMEOUT,
            send_ok c False nosend,
            with_conn p (\<lambda>q. with_conn c (\<lambda>r. case q_push_all (c_out r) (c_in q) of (out, inq) \<Rightarrow>
              seq (conn_upd c (\<lambda>r. r\<lparr>c_out := out\<rparr>)) (conn_upd p (\<lambda>q. q\<lparr>c_in := inq\<rparr>)))),
            async_send c SELF_WR_ERROR,
            with_conn c (\<lambda>r. c_assert (c_type r = IDLE_SERVER)),
            set_type c BUSY_SERVER])
      else block
        [with_conn c (\<lambda>r. with_conn p (\<lambda>q. case q_push_all (c_out q) (c_in r) of (out, inq) \<Rightarrow>
           seq (conn_upd p (\<lambda>q. q\<lparr>c_out := out\<rparr>)) (conn_upd c (\<lambda>r. r\<lparr>c_in := inq\<rparr>)))),
         async_send p SELF_WR_ERROR,
         set_type p BUSY_SERVER])
     (seq (set_other c (Some p)) (set_other p (Some c)))))))"

text \<open>\<open>match(int,bool)\<close>, in the worker both connections are to be in.\<close>

definition conn_match_sock :: "cid \<Rightarrow> int \<Rightarrow> bool \<Rightarrow> unit act" where
  "conn_match_sock c sock is_client = seq (c_assert (sock \<noteq> -1)) (with_conn c (\<lambda>r.
     if is_client then bind (client_table_get sock) (\<lambda>found. case found of
         None \<Rightarrow> throw (Http_exc HTTP_NULL_CONNECTION)
       | Some (p, host) \<Rightarrow> with_conn p (\<lambda>q.
           if host \<noteq> c_host r then throw (Http_exc HTTP_INVALID_CONNECTION)
           else if c_other q \<noteq> None then throw (Http_exc HTTP_MATCHED_CONNECTION)
           else if \<not> strcaseeq (cstr (c_dev_id q)) (cstr (c_dev_id r)) then throw (Http_exc HTTP_DEVICE_ID_DIFFERENT)
           else conn_match c p True))
     else bind (server_table_get (cstr (c_dev_id r)) sock) (\<lambda>found. case found of
         None \<Rightarrow> request_new_server c
       | Some (p, host) \<Rightarrow> with_conn p (\<lambda>q.
           if host \<noteq> c_host r \<or> c_other q \<noteq> None then request_new_server c else conn_match c p False))))"

definition match_client :: "cid \<Rightarrow> int \<Rightarrow> unit act" where
  "match_client c sock = bind (client_table_get sock) (\<lambda>found. case found of
      None \<Rightarrow> throw (Http_exc HTTP_NULL_CONNECTION)
    | Some (p, host) \<Rightarrow>
        if p = c then throw (Http_exc HTTP_CONFLICT_CONNECTION)
        else with_conn c (\<lambda>r. with_conn p (\<lambda>q. case host of
            None \<Rightarrow> throw (Fault Assert_failed)
          | Some h \<Rightarrow> seq (c_assert (c_host r \<noteq> None)) (seq (c_assert (c_other r = None))
             (if c_host r \<noteq> host then
                seq (c_assert (c_bucket r \<noteq> None)) (seq (conn_detach c)
                  (bind (notify_match_conn h c sock True) (\<lambda>ok.
                     if ok then ret () else throw (Http_exc HTTP_PROXY_SERVER_INTERNAL_ERROR))))
              else if c_other q = None then
                (if strcaseeq (cstr (c_dev_id q)) (cstr (c_dev_id r)) then conn_match c p True
                 else throw (Http_exc HTTP_DEVICE_ID_DIFFERENT))
              else throw (Http_exc HTTP_MATCHED_CONNECTION))))))"

definition match_server :: "cid \<Rightarrow> bytes option \<Rightarrow> bool \<Rightarrow> unit act" where
  "match_server c dev_id reuse_server = seq
     (case dev_id of None \<Rightarrow> ret () | Some d \<Rightarrow> conn_upd c (\<lambda>r. r\<lparr>c_dev_id := d\<rparr>))
     (if \<not> reuse_server then request_new_server c
      else with_conn c (\<lambda>r. bind (server_table_get_idle (c_dev_id r)) (\<lambda>found. case found of
          None \<Rightarrow> request_new_server c
        | Some (p, sock, host) \<Rightarrow> (case host of None \<Rightarrow> throw (Fault Assert_failed)
            | Some h \<Rightarrow> seq (c_assert (c_host r \<noteq> None))
                (if c_host r \<noteq> host then seq (c_assert (c_bucket r \<noteq> None)) (seq (conn_detach c)
                   (bind (notify_match_conn h c sock False) (\<lambda>ok.
                      if ok then ret () else throw (Http_exc HTTP_PROXY_SERVER_INTERNAL_ERROR))))
                 else conn_match c p False)))))"

section \<open>Handling a request\<close>

definition stream_upd :: "cid \<Rightarrow> (http_stream \<Rightarrow> http_stream) \<Rightarrow> unit act" where
  "stream_upd c f = conn_upd c (\<lambda>r. r\<lparr>c_stream := f (c_stream r)\<rparr>)"

text \<open>
  The array \<open>dev_id\<close> of the client branch: the copied bytes, then what the stack holds; the
  decoder may look at two bytes behind the last one it decodes.
\<close>

definition dev_id_array :: "bytes \<Rightarrow> bytes \<Rightarrow> bytes" where
  "dev_id_array junk d = take (DEV_ID_MAX_LEN + 1) (d @ junk @ replicate (DEV_ID_MAX_LEN + 1) NUL)"

definition handle_uri_client :: "cid \<Rightarrow> buffer \<Rightarrow> bytes \<Rightarrow> unit act" where
  "handle_uri_client c b dev_id = with_conn c (\<lambda>r. case c_other r of
      Some p \<Rightarrow>
        if strcaseeq (cstr (c_dev_id r)) dev_id then block
          [conn_upd p (\<lambda>q. q\<lparr>c_out := q_push (c_out q) b\<rparr>), stream_upd c (s_buf_update (\<lambda>_. None)), async_send p OTHER_WR_ERROR]
        else block
          [conn_upd c (\<lambda>r. r\<lparr>c_in := q_push (c_in r) b\<rparr>), stream_upd c (s_buf_update (\<lambda>_. None)),
           with_conn p (\<lambda>q. c_assert (c_type q = BUSY_SERVER)),
           conn_destroy p, set_other c None, match_server c (Some dev_id) False]
    | None \<Rightarrow> block
          [conn_upd c (\<lambda>r. r\<lparr>c_in := q_push (c_in r) b\<rparr>), stream_upd c (s_buf_update (\<lambda>_. None)),
           match_server c (Some dev_id) False])"

definition handle_uri_server :: "cid \<Rightarrow> bytes \<Rightarrow> bytes \<Rightarrow> int \<Rightarrow> unit act" where
  "handle_uri_server c data dev_id sock = block
     [conn_upd c (\<lambda>r. r\<lparr>c_dev_id := dev_id\<rparr>),
      stream_upd c (s_buf_update (map_option (b_data_update (\<lambda>_. data)))),
      with_conn c (\<lambda>r. bind (client_table_remove (c_sock r)) c_assert),
      server_table_add c,
      set_type c IDLE_SERVER,
      match_client c sock]"

definition handle_uri :: "cid \<Rightarrow> int \<Rightarrow> nat \<Rightarrow> nat \<Rightarrow> unit act" where
  "handle_uri c verb ptr len = with_conn c (\<lambda>r. case s_buf (c_stream r) of
      None \<Rightarrow> throw (Fault Assert_failed)
    | Some b \<Rightarrow>
      let uri = slice (b_data b) ptr len; ui = get_uri_info verb uri in
      seq (case (ui_is_client ui, ui_cb ui) of
             (True, Some (cb, ce)) \<Rightarrow> seq (conn_upd c (\<lambda>r. r\<lparr>c_callback := slice uri cb (ce - cb)\<rparr>)) (set_flags c MASK_BIT_BROWSER)
           | _ \<Rightarrow> clear_flags c MASK_BIT_BROWSER)
      (case (ui_dev_beg ui, ui_dev_end ui) of
         (Some beg, Some end) \<Rightarrow>
           let n = end - beg in
           if n = 0 \<or> n > DEV_ID_MAX_LEN then throw (Http_exc HTTP_BAD_REQUEST)
           else if ui_is_client ui then bind (reads w_junk) (\<lambda>junk.
             case http_decode_uri_inplace (dev_id_array junk (slice uri beg n)) n 0 of
               None \<Rightarrow> throw (Fault Out_of_bounds)
             | Some (mem, n') \<Rightarrow> handle_uri_client c b (cstr (take n' mem)))
           else if c_other r \<noteq> None then throw (Http_exc HTTP_BAD_REQUEST)
           else (case http_decode_uri_inplace (drop (ptr + beg) (b_data b)) n 0 of
               None \<Rightarrow> throw (Fault Out_of_bounds)
             | Some (mem, n') \<Rightarrow> handle_uri_server c (take (ptr + beg) (b_data b) @ mem) (take n' mem) (ui_sock ui))
       | _ \<Rightarrow> throw (Http_exc HTTP_BAD_REQUEST)))"

end
