(* ===== verification/Conn_Frame.thy ===== *)
theory Conn_Frame
  imports Conn_Match
begin

text \<open>
  What the operations on connections leave alone. Only a receive touches the incoming
  bytes, which is why the reading loops end; and only a few operations touch the part of
  the state the registry invariant speaks of.
\<close>

section \<open>Rules for the kept predicates\<close>

lemma keeps_modifyI: "(\<And>w. I w \<Longrightarrow> I (f w)) \<Longrightarrow> keeps I (modify f)"
  by (rule keepsI) (simp add: modify_def)

lemma keeps_conn_updI: "(\<And>w r. w_conns w c = Some r \<Longrightarrow> I w \<Longrightarrow> I (w\<lparr>w_conns := (w_conns w)(c \<mapsto> f r)\<rparr>)) \<Longrightarrow> keeps I (conn_upd c f)"
  by (rule keepsI) (simp add: conn_upd_def split: option.splits)

lemma keeps_outcomeI: "(\<And>w b bs. I w \<Longrightarrow> w_ok w = b # bs \<Longrightarrow> I (w\<lparr>w_ok := bs\<rparr>)) \<Longrightarrow> keeps I outcome"
  by (rule keepsI) (auto simp: outcome_def split: list.splits)

lemma keeps_worker_get [wp]: "keeps I (worker_get h)"
  by (rule keepsI) (simp add: worker_get_def split: option.splits)

lemma keeps_worker_updI: "(\<And>w k. I w \<Longrightarrow> I (w\<lparr>w_workers := (w_workers w)(h \<mapsto> f k)\<rparr>)) \<Longrightarrow> keeps I (worker_upd h f)"
  unfolding worker_upd_def by (intro wp keeps_modifyI) simp

lemma keeps_send_mode [wp]:
  "(flag = nosend \<Longrightarrow> keeps I a) \<Longrightarrow> (flag = send_close \<Longrightarrow> keeps I b) \<Longrightarrow> (flag = send_keepalive \<Longrightarrow> keeps I d) \<Longrightarrow>
   keeps I (case flag of nosend \<Rightarrow> a | send_close \<Rightarrow> b | send_keepalive \<Rightarrow> d)"
  by (cases flag) simp_all

lemma keeps_io_flag [wp]:
  "keeps I a \<Longrightarrow> keeps I b \<Longrightarrow> keeps I d \<Longrightarrow> keeps I e \<Longrightarrow> keeps I f \<Longrightarrow>
   keeps I (case flag of SELF_RD_ERROR \<Rightarrow> a | SELF_WR_ERROR \<Rightarrow> b | OTHER_RD_ERROR \<Rightarrow> d | OTHER_WR_ERROR \<Rightarrow> e | IDLE_TIMEOUT \<Rightarrow> f)"
  by (cases flag) simp_all

lemma keeps_case_bool [wp]: "keeps I m \<Longrightarrow> keeps I n \<Longrightarrow> keeps I (case b of True \<Rightarrow> m | False \<Rightarrow> n)"
  by (cases b) simp_all

lemma keeps_block_nil [wp]: "keeps I (block [])"
  and keeps_block_cons [wp]: "keeps I m \<Longrightarrow> keeps I (block ms) \<Longrightarrow> keeps I (block (m # ms))"
  by (simp_all add: keeps_ret keeps_seq)

lemma keeps_Let [wp]: "keeps I (f x) \<Longrightarrow> keeps I (Let x f)"
  by simp

lemma conn_send_frame:
  "conn_send c bs w = (x, w') \<Longrightarrow> w' = w\<lparr>w_tx := w_tx w', w_sent := w_sent w'\<rparr>"
  by (auto simp: conn_send_def deliver_def split: list.splits tx.splits if_splits)

lemma send_loop_frame:
  "send_loop c w = (x, w') \<Longrightarrow> w' = w\<lparr>w_conns := w_conns w', w_tx := w_tx w', w_sent := w_sent w'\<rparr>"
proof (induction c w rule: send_loop.induct)
  case (1 c w)
  show ?case
  proof (cases "w_conns w c")
    case None
    with 1(2) show ?thesis by (subst (asm) send_loop.simps) auto
  next
    case (Some r)
    show ?thesis
    proof (cases "q_top (c_out r)")
      case None
      with Some 1(2) show ?thesis by (subst (asm) send_loop.simps) auto
    next
      case (Some b)
      obtain op w1 where s: "conn_send c (unsent b) w = (op, w1)" by fastforce
      note f = conn_send_frame [OF s]
      have stop: ?thesis if "w' = w1"
        using f that by (cases w; cases w1) simp
      note step = 1(2) [unfolded send_loop.simps [of c w]]
      show ?thesis
      proof (cases op)
        case (OP_SIZE n)
        let ?w2 = "w1\<lparr>w_conns := (w_conns w1)(c \<mapsto> advance_out n r)\<rparr>"
        have "send_loop c ?w2 = (x, w')"
          using 1(2) \<open>w_conns w c = Some r\<close> Some s OP_SIZE by (subst (asm) send_loop.simps) simp
        from 1(1) [OF \<open>w_conns w c = Some r\<close> Some s [symmetric] OP_SIZE this] f show ?thesis
          by (cases w; cases w1; cases w') simp
      qed (use step \<open>w_conns w c = Some r\<close> Some s stop in simp_all)
    qed
  qed
qed

section \<open>What is behind the connections\<close>

text \<open>
  A predicate of the state that the connections, the tables, the workers, the timers and
  what is sent have no part in, and that survives the use of an outcome: every operation on
  a connection keeps it.
\<close>

locale world_frame =
  fixes I :: "world \<Rightarrow> bool"
  assumes conns: "I w \<Longrightarrow> I (w\<lparr>w_conns := cs\<rparr>)"
    and clients: "I w \<Longrightarrow> I (w\<lparr>w_clients := cl\<rparr>)"
    and servers: "I w \<Longrightarrow> I (w\<lparr>w_servers := se\<rparr>)"
    and workers: "I w \<Longrightarrow> I (w\<lparr>w_workers := ks\<rparr>)"
    and timers: "I w \<Longrightarrow> I (w\<lparr>w_timers := ts\<rparr>)"
    and sending: "I w \<Longrightarrow> I (w\<lparr>w_tx := tx, w_sent := sent\<rparr>)"
    and stun: "I w \<Longrightarrow> I (w\<lparr>w_stun := ms\<rparr>)"
    and next_conn: "I w \<Longrightarrow> I (w\<lparr>w_next := n, w_conns := cs\<rparr>)"
    and outcomes: "I w \<Longrightarrow> w_ok w = b # bs \<Longrightarrow> I (w\<lparr>w_ok := bs\<rparr>)"
begin

lemmas frame = conns clients servers workers timers sending stun next_conn outcomes

lemma update: "I w \<Longrightarrow> I (w_clients_update f w)" "I w \<Longrightarrow> I (w_servers_update g w)" "I w \<Longrightarrow> I (w_timers_update h w)"
proof -
  have "w_clients_update f w = w\<lparr>w_clients := f (w_clients w)\<rparr>" "w_servers_update g w = w\<lparr>w_servers := g (w_servers w)\<rparr>"
    "w_timers_update h w = w\<lparr>w_timers := h (w_timers w)\<rparr>" by simp_all
  then show "I w \<Longrightarrow> I (w_clients_update f w)" "I w \<Longrightarrow> I (w_servers_update g w)" "I w \<Longrightarrow> I (w_timers_update h w)"
    using frame by metis+
qed

lemma frame_conn_upd [wp]: "keeps I (conn_upd c f)"
  by (rule keeps_conn_updI) (rule conns)

lemma frame_outcome [wp]: "keeps I outcome"
  by (rule keeps_outcomeI) (rule outcomes)

lemma frame_worker_upd [wp]: "keeps I (worker_upd h f)"
  by (rule keeps_worker_updI) (rule workers)

lemma frame_timers [wp]: "keeps I (timer_add c)" "keeps I (timer_del c)"
  unfolding timer_add_def timer_del_def by (rule keeps_modifyI; erule update)+

lemma frame_flags [wp]: "keeps I (set_flags c m)" "keeps I (clear_flags c m)" "keeps I (set_type c t)"
    "keeps I (set_other c p)" "keeps I (stream_upd c g)"
  unfolding set_flags_def clear_flags_def set_type_def set_other_def stream_upd_def by (rule frame_conn_upd)+

lemma frame_tables [wp]:
  "keeps I (client_table_add c)" "keeps I (client_table_remove s)" "keeps I (client_table_get s)"
  "keeps I (server_table_add c)" "keeps I (server_table_remove c)"
  "keeps I client_table_size" "keeps I server_table_size" "keeps I client_table_match_size"
  unfolding client_table_add_def client_table_remove_def client_table_get_def server_table_add_def
    server_table_remove_def client_table_size_def server_table_size_def
  by (intro wp keeps_modifyI; (erule frame update)?)+ (rule keepsI, simp add: client_table_match_size_def)

lemma frame_find_sock [wp]: "keeps I (find_sock cs s)"
  by (induction cs) (auto intro!: wp)

lemma frame_take_idle [wp]: "keeps I (take_idle cs)"
  by (induction cs) (auto intro!: wp)

lemma frame_table_gets [wp]: "keeps I (server_table_get d s)" "keeps I (server_table_get_idle d)"
  unfolding server_table_get_def server_table_get_idle_def by (intro wp)+

lemma frame_buckets [wp]: "keeps I (bucket_get b)" "keeps I (bucket_erase b c)" "keeps I (bucket_insert b c)"
    "keeps I (back_bucket h)"
  unfolding bucket_erase_def bucket_insert_def bucket_get_def back_bucket_def by (intro wp)+

lemma frame_conn_update [wp]: "keeps I (conn_update c)"
  unfolding conn_update_def by (intro wp)

lemma frame_attach [wp]: "keeps I (conn_attach c h)" "keeps I (conn_detach c)" "keeps I (conn_destroy c)"
  unfolding conn_attach_def conn_detach_def conn_destroy_def by (intro wp keeps_modifyI; (erule frame update)?)+

lemma frame_enable [wp]: "keeps I (enable_read c)" "keeps I (disable_read c)"
  unfolding enable_read_def disable_read_def by (intro wp)+

lemma frame_send_loop [wp]: "keeps I (send_loop c)"
proof (rule keepsI)
  fix w assume "I w"
  moreover obtain x w' where r: "send_loop c w = (x, w')" by fastforce
  then have "w' = (w\<lparr>w_conns := w_conns w'\<rparr>)\<lparr>w_tx := w_tx w', w_sent := w_sent w'\<rparr>"
    using send_loop_frame [OF r] by (cases w; cases w') simp
  ultimately show "I (snd (send_loop c w))" using r conns sending by (metis snd_conv)
qed

lemma frame_send [wp]: "keeps I (async_send_impl c f)" "keeps I (async_send c f)"
  unfolding async_send_impl_def async_send_def by (intro wp)+

lemma frame_close [wp]: "keeps I (close_self c f b)" "keeps I (conn_close c f b)"
  unfolding conn_close_def close_self_def release_partner_def by (intro wp)+

lemma frame_response [wp]: "keeps I (send_response c s hs body flag)" "keeps I (stream_send_error c s)"
    "keeps I (send_ok c b flag)" "keeps I (send_crossdomain c)" "keeps I (send_system_info c)"
    "keeps I (send_error c e)"
  unfolding send_response_def stream_send_error_def send_ok_def send_crossdomain_def send_system_info_def send_error_def
  by (intro wp)+

lemma frame_match [wp]: "keeps I (notify_match_conn h c s b)" "keeps I (request_new_server c)"
    "keeps I (conn_match c p b)" "keeps I (conn_match_sock c s b)" "keeps I (match_client c s)"
    "keeps I (match_server c d b)"
  unfolding notify_match_conn_def request_new_server_def conn_match_def conn_match_sock_def match_client_def match_server_def
  by (intro wp keeps_modifyI; (erule frame update)?)+

lemma frame_conn_create [wp]: "keeps I (conn_create sock ip port ssl)"
  unfolding conn_create_def by (intro wp keeps_modifyI) (erule next_conn)

lemma frame_handle_uri [wp]: "keeps I (handle_uri c verb ptr len)"
  unfolding handle_uri_def handle_uri_client_def handle_uri_server_def by (intro wp)

end

section \<open>Incoming bytes, and calls that succeed\<close>

abbreviation rx_is :: "(cid \<Rightarrow> rx list) \<Rightarrow> world \<Rightarrow> bool" where
  "rx_is v w \<equiv> w_rx w = v"

interpretation rx: world_frame "rx_is v" for v
  by unfold_locales simp_all

text \<open>Every system call whose outcome is laid down succeeds.\<close>

definition calls_ok :: "world \<Rightarrow> bool" where
  "calls_ok w \<longleftrightarrow> list_all id (w_ok w)"

interpretation ok: world_frame calls_ok
  by unfold_locales (simp_all add: calls_ok_def)

end
