(* ===== verification/Http_Reader.thy ===== *)
theory Http_Reader
  imports Conn_Frame
begin

text \<open>
  Reading a request, the second half of \<open>core/http.cpp\<close>: the header byte by byte until the
  blank line, the body by its framing, the trailer, and the loop that goes on until the
  socket is empty; and the loop that passes the bytes of a matched server through.
\<close>

section \<open>Limits\<close>

definition READABLE_MAX_LEN :: nat where "READABLE_MAX_LEN = 65535"
definition SSL_READ_BUFFER_LEN :: nat where "SSL_READ_BUFFER_LEN = 1024"

lemmas http_limit_defs = HTTP_INIT_HEADER_SIZE_def HTTP_MAX_CHUNK_SIZE_LEN_def HTTP_CHUNK_SIZE_LEN_def
  HTTP_EACH_BODY_SIZE_def READABLE_MAX_LEN_def SSL_READ_BUFFER_LEN_def

datatype data_state = data_finish | data_error | data_unreadable | conn_closed | conn_error

section \<open>Buffers of the stream\<close>

definition set_buf :: "cid \<Rightarrow> buffer option \<Rightarrow> unit act" where
  "set_buf c b = stream_upd c (s_buf_update (\<lambda>_. b))"

definition set_state :: "cid \<Rightarrow> read_state \<Rightarrow> unit act" where
  "set_state c s = stream_upd c (s_state_update (\<lambda>_. s))"

definition with_buf :: "cid \<Rightarrow> (http_stream \<Rightarrow> buffer \<Rightarrow> 'a act) \<Rightarrow> 'a act" where
  "with_buf c f = with_conn c (\<lambda>r. case s_buf (c_stream r) of
      None \<Rightarrow> throw (Fault Dangling_pointer) | Some b \<Rightarrow> f (c_stream r) b)"

text \<open>
  \<open>recv(buf_->data_+buf_->dlen_,n)\<close> and, when bytes came, \<open>buf_->dlen_ += ret\<close>: the bytes must
  fit behind those that are there.
\<close>

definition recv_append :: "cid \<Rightarrow> nat \<Rightarrow> op_code act" where
  "recv_append c n = bind (conn_recv c n) (\<lambda>(op, got). case op of
      OP_SIZE k \<Rightarrow> with_buf c (\<lambda>_ b.
        if b_dlen b + k > b_dsize b then throw (Fault Out_of_bounds)
        else seq (set_buf c (Some (b\<lparr>b_dlen := b_dlen b + k, b_data := b_data b @ got\<rparr>))) (ret op))
    | _ \<Rightarrow> ret op)"

text \<open>A full buffer is copied into one of twice the size.\<close>

definition grow_buf :: "buffer \<Rightarrow> buffer" where
  "grow_buf b = (new_buffer (2 * b_dlen b))\<lparr>b_dlen := b_dlen b, b_data := b_data b\<rparr>"

definition broken :: "op_code \<Rightarrow> data_state" where
  "broken op = (if op = OP_CLOSE then conn_closed else conn_error)"

section \<open>The events\<close>

definition handle_special_request :: "cid \<Rightarrow> bool act" where
  "handle_special_request c = with_buf c (\<lambda>s b.
     let h = p_hdr (s_parser s) in
     if h_code h = HTTP_GET then
       (let uri = slice (b_data b) (h_ptr h) (h_len h) in
        if strcasestr uri ''crossdomain.xml'' \<noteq> None then seq (send_crossdomain c) (seq (set_buf c None) (ret True))
        else if uri = ''/'' then seq (send_system_info c) (seq (set_buf c None) (ret True))
        else ret False)
     else ret False)"

definition onHeader :: "cid \<Rightarrow> unit act" where
  "onHeader c = with_buf c (\<lambda>s b.
     let h = p_hdr (s_parser s) in
     if h_type h = HTTP_REQUEST then bind (handle_special_request c) (\<lambda>special.
       if special then ret () else handle_uri c (h_code h) (h_ptr h) (h_len h))
     else throw (Http_exc HTTP_BAD_REQUEST))"

definition onHeaderError :: "int \<Rightarrow> 'a act" where
  "onHeaderError error = throw (Http_exc error)"

definition onBodyError :: "int \<Rightarrow> 'a act" where
  "onBodyError error = throw (Http_exc error)"

definition onTrailerError :: "int \<Rightarrow> 'a act" where
  "onTrailerError error = throw (Http_exc error)"

definition onReadError :: "unit act" where
  "onReadError = throw (Io_exc SELF_RD_ERROR)"

text \<open>The buffer goes to the partner, or waits in the input queue for one.\<close>

definition onBody :: "cid \<Rightarrow> unit act" where
  "onBody c = with_buf c (\<lambda>_ b. with_conn c (\<lambda>r. case c_other r of
      Some p \<Rightarrow> seq (conn_upd p (\<lambda>q. q\<lparr>c_out := q_push (c_out q) b\<rparr>)) (seq (set_buf c None)
        (with_conn p (\<lambda>q. only_if (\<not> q_empty (c_out q)) (async_send p OTHER_WR_ERROR))))
    | None \<Rightarrow> seq (conn_upd c (\<lambda>r. r\<lparr>c_in := q_push (c_in r) b\<rparr>)) (set_buf c None)))"

section \<open>The header\<close>

definition ends_with :: "bytes \<Rightarrow> bytes \<Rightarrow> bool" where
  "ends_with s e \<longleftrightarrow> length e \<le> length s \<and> drop (length s - length e) s = e"

definition CONTINUE_FIELD :: bytes where "CONTINUE_FIELD = ''Except: 100-Continue'' @ CRLF"

text \<open>The field is cut out of the header before the header is passed on.\<close>

definition drop_continue :: "nat \<Rightarrow> buffer \<Rightarrow> buffer option" where
  "drop_continue hdr_len b = (case strcasestr (b_data b) CONTINUE_FIELD of None \<Rightarrow> None
     | Some beg \<Rightarrow> (let end = beg + length CONTINUE_FIELD in
         Some (b\<lparr>b_dlen := b_dlen b - length CONTINUE_FIELD,
                 b_data := take beg (b_data b) @ slice (b_data b) end (hdr_len - end)\<rparr>)))"

definition header_complete :: "cid \<Rightarrow> data_state act" where
  "header_complete c = with_buf c (\<lambda>s b.
     case parse_header 0 (b_data b) (b_dlen b) (parser_reset (s_parser s)) of
       (POk, ps) \<Rightarrow>
         (case get_body_info (p_hdr ps) (s_body_type s) (s_body_len s) 0 of (ok, type, len, error) \<Rightarrow>
           seq (stream_upd c (\<lambda>s. s\<lparr>s_parser := ps, s_body_type := type, s_body_len := len\<rparr>))
           (if \<not> ok then ret data_error
            else seq (only_if (error = HTTP_CONTINUE) (seq (send_response c error [] [] send_keepalive)
                (case drop_continue (p_hdr_len ps) b of None \<Rightarrow> throw (Fault Assert_failed)
                   | Some b' \<Rightarrow> set_buf c (Some b'))))
            (seq (onHeader c)
            (with_conn c (\<lambda>r. let s = c_stream r in
               seq (only_if (s_body_type s = HTTP_BODY_CONTENT \<and> s_body_len s \<noteq> 0 \<or> s_body_type s = HTTP_BODY_CHUNK_SIZE)
                 (seq (stream_upd c (\<lambda>s. s\<lparr>s_state := reading_body, s_body_tran := 0\<rparr>))
                      (set_buf c (Some (new_buffer
                        (if s_body_type s = HTTP_BODY_CONTENT then min HTTP_EACH_BODY_SIZE (s_body_len s) else HTTP_CHUNK_SIZE_LEN))))))
               (ret data_finish))))))
     | (PFail, ps) \<Rightarrow> seq (stream_upd c (\<lambda>s. s\<lparr>s_parser := ps\<rparr>)) (ret data_error)
     | (PMore, ps) \<Rightarrow> throw (Fault Assert_failed)
     | (PDangling, ps) \<Rightarrow> throw (Fault Dangling_pointer))"

definition read_header :: "cid \<Rightarrow> data_state act" where
  "read_header c = with_conn c (\<lambda>r. seq (c_assert (s_state (c_stream r) = reading_header))
     (seq (only_if (s_buf (c_stream r) = None) (set_buf c (Some (new_buffer HTTP_INIT_HEADER_SIZE))))
     (bind (recv_append c 1) (\<lambda>op. case op of
        OP_SIZE _ \<Rightarrow> with_buf c (\<lambda>s b. bind (reads w_conf) (\<lambda>g.
          if 4 \<le> b_dlen b \<and> ends_with (b_data b) (CRLF @ CRLF) then header_complete c
          else if b_dlen b < g_max_header g \<and> b_dlen b = b_dsize b then seq (set_buf c (Some (grow_buf b))) (ret data_finish)
          else if b_dlen b \<ge> g_max_header g then ret data_error
          else ret data_finish))
      | OP_AGAIN \<Rightarrow> ret data_unreadable
      | _ \<Rightarrow> ret (broken op)))))"

section \<open>The body\<close>

definition read_content :: "cid \<Rightarrow> data_state act" where
  "read_content c = with_buf c (\<lambda>s b. bind (recv_append c (b_dsize b - b_dlen b)) (\<lambda>op. case op of
      OP_SIZE _ \<Rightarrow> with_buf c (\<lambda>s b. seq
        (only_if (b_dlen b = b_dsize b) (seq
          (stream_upd c (\<lambda>s. s\<lparr>s_body_tran := s_body_tran s + b_dlen b\<rparr>)) (seq (onBody c)
          (with_conn c (\<lambda>r. let s = c_stream r in
             if s_body_tran s < s_body_len s
             then set_buf c (Some (new_buffer (min (s_body_len s - s_body_tran s) HTTP_EACH_BODY_SIZE)))
             else if s_body_type s = HTTP_BODY_CHUNK_DATA
             then seq (stream_upd c (s_body_type_update (\<lambda>_. HTTP_BODY_CHUNK_SIZE))) (set_buf c (Some (new_buffer HTTP_CHUNK_SIZE_LEN)))
             else set_state c reading_header)))))
        (ret data_finish))
    | OP_AGAIN \<Rightarrow> ret data_unreadable
    | _ \<Rightarrow> ret (broken op)))"

definition chunk_size_line :: "cid \<Rightarrow> data_state act" where
  "chunk_size_line c = with_buf c (\<lambda>s b.
     case base_strtoul (b_data b) 16 False of (ok, len) \<Rightarrow>
       seq (stream_upd c (s_body_len_update (\<lambda>_. len)))
       (if \<not> ok then ret data_error
        else seq (onBody c)
          (seq (if len \<noteq> 0 then
                  seq (stream_upd c (\<lambda>s. s\<lparr>s_body_type := HTTP_BODY_CHUNK_DATA, s_body_tran := 0, s_body_len := add64 len 2\<rparr>))
                      (set_buf c (Some (new_buffer (min (add64 len 2) HTTP_EACH_BODY_SIZE))))
                else seq (set_state c reading_trailer) (set_buf c (Some (new_buffer HTTP_INIT_HEADER_SIZE))))
          (ret data_finish))))"

definition read_chunk_size :: "cid \<Rightarrow> data_state act" where
  "read_chunk_size c = bind (recv_append c 1) (\<lambda>op. case op of
      OP_SIZE _ \<Rightarrow> with_buf c (\<lambda>s b.
        if 2 < b_dlen b \<and> ends_with (b_data b) CRLF then chunk_size_line c
        else if b_dlen b < HTTP_MAX_CHUNK_SIZE_LEN \<and> b_dlen b = b_dsize b then seq (set_buf c (Some (grow_buf b))) (ret data_finish)
        else if b_dlen b \<ge> HTTP_MAX_CHUNK_SIZE_LEN then ret data_error
        else ret data_finish)
    | OP_AGAIN \<Rightarrow> ret data_unreadable
    | _ \<Rightarrow> ret (broken op))"

definition read_body :: "cid \<Rightarrow> data_state act" where
  "read_body c = with_conn c (\<lambda>r. let s = c_stream r in
     seq (c_assert (s_state s = reading_body))
     (if s_body_type s = HTTP_BODY_CONTENT \<or> s_body_type s = HTTP_BODY_CHUNK_DATA then read_content c
      else if s_body_type s = HTTP_BODY_CHUNK_SIZE then read_chunk_size c
      else throw (Fault Assert_failed)))"

definition read_trailer :: "cid \<Rightarrow> data_state act" where
  "read_trailer c = with_conn c (\<lambda>r. seq (c_assert (s_state (c_stream r) = reading_trailer))
     (bind (recv_append c 1) (\<lambda>op. case op of
        OP_SIZE _ \<Rightarrow> with_buf c (\<lambda>s b. bind (reads w_conf) (\<lambda>g.
          if 2 \<le> b_dlen b \<and> ends_with (b_data b) CRLF then
            (case parse_trailer 1 (b_data b) (b_dlen b) (s_parser s) of
               (PFail, ps) \<Rightarrow> seq (stream_upd c (\<lambda>s. s\<lparr>s_parser := ps\<rparr>)) (ret data_error)
             | (POk, ps) \<Rightarrow> seq (stream_upd c (\<lambda>s. s\<lparr>s_parser := ps\<rparr>)) (seq (onBody c)
                 (seq (set_state c reading_header) (ret data_finish)))
             | (PMore, ps) \<Rightarrow> throw (Fault Assert_failed)
             | (PDangling, ps) \<Rightarrow> throw (Fault Dangling_pointer))
          else if b_dlen b < g_max_header g \<and> b_dlen b = b_dsize b then seq (set_buf c (Some (grow_buf b))) (ret data_finish)
          else if b_dlen b \<ge> g_max_header g then ret data_error
          else ret data_finish))
      | OP_AGAIN \<Rightarrow> ret data_unreadable
      | _ \<Rightarrow> ret (broken op))))"

definition read_message :: "cid \<Rightarrow> data_state act" where
  "read_message c = with_conn c (\<lambda>r. case s_state (c_stream r) of
      reading_header \<Rightarrow> bind (read_header c) (\<lambda>ds. if ds = data_error then onHeaderError HTTP_BAD_REQUEST else ret ds)
    | reading_body \<Rightarrow> bind (read_body c) (\<lambda>ds. if ds = data_error then onBodyError HTTP_BAD_REQUEST else ret ds)
    | reading_trailer \<Rightarrow> bind (read_trailer c) (\<lambda>ds. if ds = data_error then onTrailerError HTTP_BAD_REQUEST else ret ds))"

section \<open>Each message part consumes a byte\<close>

definition rx_size :: "world \<Rightarrow> cid \<Rightarrow> nat" where
  "rx_size w c = (\<Sum>x\<leftarrow>w_rx w c. case x of Rx_data bs \<Rightarrow> length bs + 1 | _ \<Rightarrow> 1)"

lemma conn_recv_result:
  assumes "conn_recv c n w = (Val (op, got), w')"
  shows "op = OP_SIZE k \<Longrightarrow> k = length got \<and> 0 < k \<and> k \<le> n \<and> rx_size w' c < rx_size w c" "rx_size w' c \<le> rx_size w c"
proof -
  obtain r where r: "w_conns w c = Some r" and
    1: "(case w_rx w c of
      [] \<Rightarrow> (Val (OP_AGAIN, []), w)
    | Rx_data bs # rest \<Rightarrow>
        let got = take n bs in
        if got = [] then (Val (OP_CLOSE, []), w)
        else (Val (OP_SIZE (length got), got),
              w\<lparr>w_rx := (w_rx w)(c := (if drop n bs = [] then rest else Rx_data (drop n bs) # rest))\<rparr>)
    | Rx_again # rest \<Rightarrow> (Val (OP_AGAIN, []), w\<lparr>w_rx := (w_rx w)(c := rest)\<rparr>)
    | Rx_error # rest \<Rightarrow> (Val (OP_ERROR, []), w\<lparr>w_rx := (w_rx w)(c := rest)\<rparr>)
    | Rx_close # _ \<Rightarrow> (Val (OP_CLOSE, []), w)) = (Val (op, got), w')"
    using assms by (auto simp: conn_recv_def seq_def bind_def with_conn_def conn_get_def ret_def split: option.splits)
  from 1 show "op = OP_SIZE k \<Longrightarrow> k = length got \<and> 0 < k \<and> k \<le> n \<and> rx_size w' c < rx_size w c" "rx_size w' c \<le> rx_size w c"
    by (auto simp: rx_size_def Let_def min_def split: list.splits rx.splits if_splits)
qed

text \<open>
  A part that ends in \<open>data_finish\<close> has received at least one byte, and nothing after the
  receive puts bytes back.
\<close>

definition consumes :: "cid \<Rightarrow> 'a \<Rightarrow> 'a act \<Rightarrow> bool" where
  "consumes c v m \<longleftrightarrow> (\<forall>w w'. m w = (Val v, w') \<longrightarrow> rx_size w' c < rx_size w c)"

lemma rx_with_buf [wp]: "(\<And>s b. keeps (rx_is v) (f s b)) \<Longrightarrow> keeps (rx_is v) (with_buf c f)"
  unfolding with_buf_def by (intro wp)

lemma rx_set [wp]: "keeps (rx_is v) (set_buf c b)" "keeps (rx_is v) (set_state c s)"
  unfolding set_buf_def set_state_def by (rule rx.frame_flags)+

lemma rx_events [wp]: "keeps (rx_is v) (handle_special_request c)" "keeps (rx_is v) (onBody c)"
  unfolding handle_special_request_def onBody_def by (intro wp)+

lemma rx_onHeader [wp]: "keeps (rx_is v) (onHeader c)"
  unfolding onHeader_def by (intro wp)

lemma keeps_case_parse [wp]:
  "(\<And>ps. keeps I (a ps)) \<Longrightarrow> (\<And>ps. keeps I (b ps)) \<Longrightarrow> (\<And>ps. keeps I (d ps)) \<Longrightarrow> (\<And>ps. keeps I (e ps)) \<Longrightarrow>
   keeps I (case x of (PFail, ps) \<Rightarrow> a ps | (POk, ps) \<Rightarrow> b ps | (PMore, ps) \<Rightarrow> d ps | (PDangling, ps) \<Rightarrow> e ps)"
  by (cases x; cases "fst x") auto

lemma rx_header_complete [wp]: "keeps (rx_is v) (header_complete c)"
  unfolding header_complete_def by (intro wp)

lemma rx_chunk_size_line [wp]: "keeps (rx_is v) (chunk_size_line c)"
  unfolding chunk_size_line_def by (intro wp)

lemma keeps_rx_size: "(\<And>v. keeps (rx_is v) m) \<Longrightarrow> m w = (x, w') \<Longrightarrow> rx_size w' c = rx_size w c"
  using keepsD [of "rx_is (w_rx w)" m w] by (simp add: rx_size_def)

lemma recv_append_size:
  assumes "recv_append c n w = (Val op, w')"
  shows "(\<exists>k. op = OP_SIZE k) \<Longrightarrow> rx_size w' c < rx_size w c" "rx_size w' c \<le> rx_size w c"
proof -
  obtain op' got w1 where 1: "conn_recv c n w = (Val (op', got), w1)"
      and 2: "(case op' of OP_SIZE k \<Rightarrow> with_buf c (\<lambda>_ b.
        if b_dlen b + k > b_dsize b then throw (Fault Out_of_bounds)
        else seq (set_buf c (Some (b\<lparr>b_dlen := b_dlen b + k, b_data := b_data b @ got\<rparr>))) (ret op'))
    | _ \<Rightarrow> ret op') w1 = (Val op, w')"
    using assms by (auto simp: recv_append_def bind_def split: prod.splits result.splits)
  have "keeps (rx_is v) (case op' of OP_SIZE k \<Rightarrow> with_buf c (\<lambda>_ b.
        if b_dlen b + k > b_dsize b then throw (Fault Out_of_bounds)
        else seq (set_buf c (Some (b\<lparr>b_dlen := b_dlen b + k, b_data := b_data b @ got\<rparr>))) (ret op'))
    | _ \<Rightarrow> ret op')" for v
    by (cases op') (auto intro!: wp)
  from keeps_rx_size [OF this 2] have eq: "rx_size w' c = rx_size w1 c" .
  have "(\<exists>k. op = OP_SIZE k) \<longrightarrow> (\<exists>k. op' = OP_SIZE k)"
    using 2 by (cases op') (auto simp: ret_def)
  with conn_recv_result [OF 1] eq
  show "(\<exists>k. op = OP_SIZE k) \<Longrightarrow> rx_size w' c < rx_size w c" "rx_size w' c \<le> rx_size w c" by auto
qed

lemma consumes_recv:
  assumes "\<And>k u. keeps (rx_is u) (f (OP_SIZE k))" "\<And>op w w'. (\<forall>k. op \<noteq> OP_SIZE k) \<Longrightarrow> f op w \<noteq> (Val v, w')"
  shows "consumes c v (bind (recv_append c n) f)"
  unfolding consumes_def
proof (intro allI impI)
  fix w w' assume "bind (recv_append c n) f w = (Val v, w')"
  then obtain op w1 where 1: "recv_append c n w = (Val op, w1)" "f op w1 = (Val v, w')"
    by (auto simp: bind_def split: prod.splits result.splits)
  with assms(2) obtain k where k: "op = OP_SIZE k" by metis
  have "rx_size w' c = rx_size w1 c" using keeps_rx_size [OF assms(1), of k w1] 1(2) k by simp
  with recv_append_size(1) [OF 1(1)] k show "rx_size w' c < rx_size w c" by simp
qed

lemma consumes_seq: "(\<And>u. keeps (rx_is u) m) \<Longrightarrow> consumes c v n \<Longrightarrow> consumes c v (seq m n)"
  unfolding consumes_def
proof (intro allI impI)
  fix w w' assume m: "\<And>u. keeps (rx_is u) m" and n: "\<forall>w w'. n w = (Val v, w') \<longrightarrow> rx_size w' c < rx_size w c"
    and run: "seq m n w = (Val v, w')"
  then obtain u w1 where 1: "m w = (Val u, w1)" "n w1 = (Val v, w')"
    by (auto simp: seq_def bind_def split: prod.splits result.splits)
  from keeps_rx_size [OF m 1(1), of c] n 1(2) show "rx_size w' c < rx_size w c" by metis
qed

lemma consumes_with_conn: "(\<And>r. consumes c v (f r)) \<Longrightarrow> consumes c v (with_conn d f)"
  by (auto simp: consumes_def with_conn_def bind_def conn_get_def split: option.splits)

lemma consumes_throw: "consumes c v (throw e)"
  by (simp add: consumes_def throw_def)

lemma not_finish: "op \<noteq> OP_AGAIN \<Longrightarrow> ret (broken op) w \<noteq> (Val data_finish, w')" "ret data_unreadable w \<noteq> (Val data_finish, w')"
  by (simp_all add: ret_def broken_def)

lemma consumes_read_header: "consumes c data_finish (read_header c)"
  unfolding read_header_def
proof (intro consumes_with_conn consumes_seq consumes_recv wp)
  fix op w w' f assume "\<forall>k. op \<noteq> OP_SIZE k"
  then show "(case op of OP_SIZE k \<Rightarrow> f k | OP_AGAIN \<Rightarrow> ret data_unreadable | _ \<Rightarrow> ret (broken op)) w \<noteq> (Val data_finish, w')"
    by (cases op) (simp_all add: ret_def broken_def)
qed (simp, intro wp)


lemma consumes_with_buf: "(\<And>s b. consumes c v (f s b)) \<Longrightarrow> consumes c v (with_buf d f)"
  unfolding with_buf_def
  by (intro consumes_with_conn) (auto split: option.splits intro: consumes_throw)

lemma consumes_read_content: "consumes c data_finish (read_content c)"
  unfolding read_content_def
proof (intro consumes_with_buf consumes_recv)
  fix op w w' f assume "\<forall>k. op \<noteq> OP_SIZE k"
  then show "(case op of OP_SIZE k \<Rightarrow> f k | OP_AGAIN \<Rightarrow> ret data_unreadable | _ \<Rightarrow> ret (broken op)) w \<noteq> (Val data_finish, w')"
    by (cases op) (simp_all add: ret_def broken_def)
qed (simp, intro wp)

lemma consumes_read_chunk_size: "consumes c data_finish (read_chunk_size c)"
  unfolding read_chunk_size_def
proof (intro consumes_recv)
  fix op w w' f assume "\<forall>k. op \<noteq> OP_SIZE k"
  then show "(case op of OP_SIZE k \<Rightarrow> f k | OP_AGAIN \<Rightarrow> ret data_unreadable | _ \<Rightarrow> ret (broken op)) w \<noteq> (Val data_finish, w')"
    by (cases op) (simp_all add: ret_def broken_def)
qed (simp, intro wp)

lemma consumes_read_body: "consumes c data_finish (read_body c)"
  unfolding read_body_def Let_def
  by (intro consumes_with_conn consumes_seq wp)
    (simp add: consumes_read_content consumes_read_chunk_size consumes_throw)

lemma consumes_read_trailer: "consumes c data_finish (read_trailer c)"
  unfolding read_trailer_def
proof (intro consumes_with_conn consumes_seq consumes_recv wp)
  fix op w w' f assume "\<forall>k. op \<noteq> OP_SIZE k"
  then show "(case op of OP_SIZE k \<Rightarrow> f k | OP_AGAIN \<Rightarrow> ret data_unreadable | _ \<Rightarrow> ret (broken op)) w \<noteq> (Val data_finish, w')"
    by (cases op) (simp_all add: ret_def broken_def)
qed (simp, intro wp)

lemma consumes_filter:
  assumes "consumes c v m" "\<And>ds w w'. f ds w = (Val v, w') \<Longrightarrow> ds = v \<and> w' = w"
  shows "consumes c v (bind m f)"
  using assms by (fastforce simp: consumes_def bind_def split: prod.splits result.splits)

lemma consumes_read_message: "consumes c data_finish (read_message c)"
  unfolding read_message_def
proof (intro consumes_with_conn)
  fix r
  show "consumes c data_finish (case s_state (c_stream r) of
      reading_header \<Rightarrow> bind (read_header c) (\<lambda>ds. if ds = data_error then onHeaderError HTTP_BAD_REQUEST else ret ds)
    | reading_body \<Rightarrow> bind (read_body c) (\<lambda>ds. if ds = data_error then onBodyError HTTP_BAD_REQUEST else ret ds)
    | reading_trailer \<Rightarrow> bind (read_trailer c) (\<lambda>ds. if ds = data_error then onTrailerError HTTP_BAD_REQUEST else ret ds))"
    by (cases "s_state (c_stream r)")
      (auto intro!: consumes_filter simp: consumes_read_header consumes_read_body consumes_read_trailer
        onHeaderError_def onBodyError_def onTrailerError_def throw_def ret_def split: if_splits)
qed

section \<open>The loops\<close>

text \<open>
  What \<open>read_request\<close> looks at after a part was read: reading pauses when the partner's queue
  is high, and stops when the connection has left this worker between two messages.
\<close>

definition after_part :: "cid \<Rightarrow> bool act" where
  "after_part c = with_conn c (\<lambda>r.
     let gone = (s_state (c_stream r) = reading_header \<and> is_detach r) in
     case c_other r of
       Some p \<Rightarrow> with_conn p (\<lambda>q. if q_is_high (c_out q) then seq (disable_read c) (ret True) else ret gone)
     | None \<Rightarrow> ret gone)"

lemma rx_after_part [wp]: "keeps (rx_is v) (after_part c)"
  unfolding after_part_def by (intro wp)

lemma read_progress:
  assumes "read_message c w = (Val data_finish, w1)" "after_part c w1 = (Val stop, w2)"
  shows "rx_size w2 c < rx_size w c"
  using assms consumes_read_message [of c] keeps_rx_size [OF rx_after_part, of c w1 "Val stop" w2 c]
  by (auto simp: consumes_def)

function read_request :: "cid \<Rightarrow> unit act" where
  "read_request c w = (case read_message c w of
      (Exc e, w') \<Rightarrow> (Exc e, w')
    | (Val ds, w') \<Rightarrow>
        (if ds = data_finish then (case after_part c w' of
            (Exc e, w2) \<Rightarrow> (Exc e, w2)
          | (Val stop, w2) \<Rightarrow> if stop then (Val (), w2) else read_request c w2)
         else if ds = data_unreadable \<or> ds = data_error then (Val (), w')
         else onReadError w'))"
  by auto
termination
  by (relation "measure (\<lambda>(c, w). rx_size w c)") (simp, drule sym, drule sym [of _ "after_part _ _"], auto intro: read_progress)

declare read_request.simps [simp del]

text \<open>One round of \<open>read_message_no_parse\<close>: whether the loop is left.\<close>

definition pass_through :: "cid \<Rightarrow> cid \<Rightarrow> bool act" where
  "pass_through c p = with_conn c (\<lambda>r. bind (reads (\<lambda>w. w_readable w c)) (\<lambda>avail.
     let len = (if has_flag (c_flag r) MASK_BIT_SSL then SSL_READ_BUFFER_LEN
                else if avail > READABLE_MAX_LEN then READABLE_MAX_LEN else avail) in
     seq (only_if (s_buf (c_stream r) = None) (set_buf c (Some (new_buffer len))))
     (with_buf c (\<lambda>_ b. bind (conn_recv c (b_dsize b)) (\<lambda>(op, got). case op of
        OP_SIZE k \<Rightarrow>
          seq (conn_upd p (\<lambda>q. q\<lparr>c_out := q_push (c_out q) (b\<lparr>b_dlen := k, b_data := got\<rparr>)\<rparr>))
          (seq (set_buf c None)
          (with_conn p (\<lambda>q. if q_is_high (c_out q)
             then seq (disable_read c) (seq (async_send p OTHER_WR_ERROR) (ret True)) else ret False)))
      | OP_AGAIN \<Rightarrow> with_conn p (\<lambda>q. seq (only_if (\<not> q_empty (c_out q)) (async_send p OTHER_WR_ERROR)) (ret True))
      | _ \<Rightarrow> seq (set_buf c None) (throw (Io_exc SELF_RD_ERROR)))))))"

lemma consumes_conn_recv:
  assumes "\<And>k got u. keeps (rx_is u) (f (OP_SIZE k, got))"
    and "\<And>op got w w'. (\<forall>k. op \<noteq> OP_SIZE k) \<Longrightarrow> f (op, got) w \<noteq> (Val v, w')"
  shows "consumes c v (bind (conn_recv c n) f)"
  unfolding consumes_def
proof (intro allI impI)
  fix w w' assume "bind (conn_recv c n) f w = (Val v, w')"
  then obtain op got w1 where 1: "conn_recv c n w = (Val (op, got), w1)" "f (op, got) w1 = (Val v, w')"
    by (auto simp: bind_def split: prod.splits result.splits)
  with assms(2) obtain k where k: "op = OP_SIZE k" by metis
  have "rx_size w' c = rx_size w1 c" using keeps_rx_size [OF assms(1), of k got w1] 1(2) k by simp
  with conn_recv_result(1) [OF 1(1) k] show "rx_size w' c < rx_size w c" by simp
qed

lemma consumes_bind_reads: "(\<And>x. consumes c v (f x)) \<Longrightarrow> consumes c v (bind (reads g) f)"
  by (simp add: consumes_def bind_def reads_def)

lemma seq_ret_other: "x \<noteq> v \<Longrightarrow> seq m (ret x) w \<noteq> (Val v, w')"
  by (auto simp: seq_def bind_def ret_def split: prod.splits result.splits)

lemma consumes_pass_through: "consumes c False (pass_through c p)"
  unfolding pass_through_def Let_def
proof (intro consumes_with_conn consumes_bind_reads consumes_seq consumes_with_buf consumes_conn_recv wp)
  fix b op w w' and got :: bytes
  assume "\<forall>k. op \<noteq> OP_SIZE k"
  then show "(case (op, got) of (op, got) \<Rightarrow> (case op of
        OP_SIZE k \<Rightarrow>
          seq (conn_upd p (\<lambda>q. q\<lparr>c_out := q_push (c_out q) (b\<lparr>b_dlen := k, b_data := got\<rparr>)\<rparr>))
          (seq (set_buf c None)
          (with_conn p (\<lambda>q. if q_is_high (c_out q)
             then seq (disable_read c) (seq (async_send p OTHER_WR_ERROR) (ret True)) else ret False)))
      | OP_AGAIN \<Rightarrow> with_conn p (\<lambda>q. seq (only_if (\<not> q_empty (c_out q)) (async_send p OTHER_WR_ERROR)) (ret True))
      | _ \<Rightarrow> seq (set_buf c None) (throw (Io_exc SELF_RD_ERROR)))) w \<noteq> (Val False, w')"
    by (cases op)
      (auto simp: with_conn_def bind_def conn_get_def throw_def seq_def ret_def split: option.splits prod.splits result.splits)
qed (simp, intro wp)

function pass_loop :: "cid \<Rightarrow> cid \<Rightarrow> unit act" where
  "pass_loop c p w = (case pass_through c p w of
      (Exc e, w') \<Rightarrow> (Exc e, w')
    | (Val stop, w') \<Rightarrow> if stop then (Val (), w') else pass_loop c p w')"
  by auto
termination
  by (relation "measure (\<lambda>(c, p, w). rx_size w c)")
     (auto simp: eq_commute [of "(_, _)" "pass_through _ _ _"] intro: consumes_pass_through [unfolded consumes_def, rule_format])

declare pass_loop.simps [simp del]

definition read_message_no_parse :: "cid \<Rightarrow> unit act" where
  "read_message_no_parse c = with_conn c (\<lambda>r. case c_other r of
      None \<Rightarrow> throw (Fault Assert_failed) | Some p \<Rightarrow> pass_loop c p)"

definition read_response :: "cid \<Rightarrow> unit act" where
  "read_response c = read_message_no_parse c"

end
