(* ===== verification/Worker_Loop.thy ===== *)
theory Worker_Loop
  imports Http_Reader
begin

text \<open>
  The entry points: the handlers the event library calls for a connection
  (\<open>core/connection.cpp\<close>), and what a worker does with a message from its pipe and at a tick of
  its timing wheel (\<open>core/worker.cpp\<close>); and the steps of the whole program made of them.
\<close>

section \<open>Events of a connection\<close>

text \<open>The \<open>catch\<close> clauses of \<open>handle_read\<close>.\<close>

definition read_failed :: "cid \<Rightarrow> exc \<Rightarrow> unit act" where
  "read_failed c e = (case e of
      Http_exc code \<Rightarrow> send_error c code
    | Io_exc flag \<Rightarrow> conn_close c flag False
    | _ \<Rightarrow> conn_close c SELF_RD_ERROR False)"

definition handle_read :: "cid \<Rightarrow> unit act" where
  "handle_read c = with_conn c (\<lambda>r. only_if (is_enable_read r)
     (try_catch
       (seq (conn_update c) (with_conn c (\<lambda>r.
          if c_type r = CLIENT then read_request c
          else if c_other r \<noteq> None then read_response c
          else conn_destroy c)))
       (read_failed c)))"

definition handle_write :: "cid \<Rightarrow> unit act" where
  "handle_write c = try_catch (async_send c SELF_WR_ERROR)
     (\<lambda>e. case e of Io_exc flag \<Rightarrow> conn_close c flag False | _ \<Rightarrow> conn_close c SELF_WR_ERROR False)"

text \<open>The timer is not persistent: it is no longer pending when its handler runs.\<close>

definition handle_timeout :: "cid \<Rightarrow> unit act" where
  "handle_timeout c = seq (timer_del c) (with_conn c (\<lambda>r. block
     [c_assert (c_other r = None),
      c_assert (has_flag (c_flag r) MASK_BIT_TIMEOUT),
      send_error c HTTP_ORIGINAL_SERVER_TIMEOUT]))"

section \<open>The timing wheel\<close>

text \<open>
  \<open>conn_bucket::clear\<close>: the iteration meets the elements that are in the bucket when their
  turn comes.
\<close>

definition evict :: "cid \<Rightarrow> unit act" where
  "evict c = with_conn c (\<lambda>r. seq (conn_close c IDLE_TIMEOUT False)
     (case c_other r of None \<Rightarrow> ret ()
      | Some p \<Rightarrow> with_conn p (\<lambda>q. only_if (c_type q = CLIENT) (conn_close p IDLE_TIMEOUT False))))"

primrec clear_loop :: "bucket \<Rightarrow> cid list \<Rightarrow> unit act" where
  "clear_loop b [] = ret ()"
| "clear_loop b (c # cs) = seq (bind (bucket_get b) (\<lambda>now. only_if (c \<in> set now) (evict c))) (clear_loop b cs)"

definition conn_bucket_clear :: "bucket \<Rightarrow> unit act" where
  "conn_bucket_clear b = bind (bucket_get b) (clear_loop b)"

text \<open>\<open>data_[i] = conn_bucket()\<close>.\<close>

definition bucket_assign_empty :: "bucket \<Rightarrow> unit act" where
  "bucket_assign_empty b = seq (conn_bucket_clear b) (worker_upd (fst b) (ring_slot_upd (snd b) (\<lambda>_. [])))"

text \<open>\<open>worker::handle_timeout\<close> with \<open>push_back\<close> of the ring written out around the assignment.\<close>

definition wheel_tick :: "wid \<Rightarrow> unit act" where
  "wheel_tick h = bind (worker_get h) (\<lambda>k. let b = wk_ring k in
     if cb_full b then
       (if cb_empty b then ret ()
        else seq (bucket_assign_empty (h, cb_front b))
          (worker_upd h (\<lambda>k. k\<lparr>wk_ring := (wk_ring k)\<lparr>cb_back := cb_front (wk_ring k),
              cb_front := cb_index (wk_ring k) (cb_front (wk_ring k) + 1)\<rparr>\<rparr>)))
     else let i = cb_index b (add64 (cb_back b) 1) in
       seq (worker_upd h (\<lambda>k. k\<lparr>wk_ring := (wk_ring k)\<lparr>cb_back := i\<rparr>\<rparr>))
       (seq (bucket_assign_empty (h, i))
         (worker_upd h (\<lambda>k. k\<lparr>wk_ring := (wk_ring k)\<lparr>cb_size := cb_size (wk_ring k) + 1\<rparr>\<rparr>))))"

section \<open>Messages from other threads\<close>

text \<open>The \<open>catch\<close> clauses of \<open>state_machine\<close>.\<close>

definition message_failed :: "cid \<Rightarrow> exc \<Rightarrow> unit act" where
  "message_failed c e = (case e of
      Http_exc code \<Rightarrow> send_error c code
    | Io_exc flag \<Rightarrow> conn_close c flag False
    | _ \<Rightarrow> conn_destroy c)"

definition handle_message :: "wid \<Rightarrow> pipe_msg \<Rightarrow> unit act" where
  "handle_message h m = (case m of
      Exit_worker \<Rightarrow> worker_upd h (\<lambda>k. k\<lparr>wk_stop := True\<rparr>)
    | Add_sock sock ip port ssl \<Rightarrow> bind (conn_create sock ip port ssl) (\<lambda>c.
        try_catch (conn_attach c h) (message_failed c))
    | Match_sock src dst flag \<Rightarrow>
        try_catch (seq (conn_attach src h) (conn_match_sock src dst flag)) (message_failed src))"

text \<open>One round of the loop of \<open>handle_notify\<close>: a read of what is due, and the state machine.\<close>

definition notify_round :: "wid \<Rightarrow> unit act" where
  "notify_round h = bind (worker_get h) (\<lambda>k.
     if wk_pipe k = [] then ret ()
     else case read_pipe (length (wk_pipe k)) (wk_pipe k) (wk_reader k) of (stream, reader) \<Rightarrow>
       (case reader_step reader of
          None \<Rightarrow> throw (Fault Assert_failed)
        | Some (msg, reader') \<Rightarrow> seq (worker_upd h (\<lambda>k. k\<lparr>wk_pipe := stream, wk_reader := reader'\<rparr>))
            (case msg of None \<Rightarrow> ret () | Some m \<Rightarrow> handle_message h m)))"

primrec handle_notify :: "nat \<Rightarrow> wid \<Rightarrow> unit act" where
  "handle_notify 0 h = ret ()"
| "handle_notify (Suc n) h = seq (notify_round h) (handle_notify n h)"

text \<open>\<open>notify_add_conn\<close>, called by the accepting thread.\<close>

definition notify_add_conn :: "wid \<Rightarrow> int \<Rightarrow> bytes \<Rightarrow> nat \<Rightarrow> bool \<Rightarrow> bool act" where
  "notify_add_conn h sock ip port ssl = bind (worker_get h) (\<lambda>_. bind outcome (\<lambda>ok.
     if \<not> ok then ret False
     else bind (reads w_junk) (\<lambda>junk. bind (worker_upd h (\<lambda>k. k\<lparr>wk_pipe := wk_pipe k @ encode_msg junk (Add_sock sock ip port ssl)\<rparr>))
       (\<lambda>_. ret True))))"

definition new_worker :: "nat \<Rightarrow> worker" where
  "new_worker timeout_idle = \<lparr>wk_ring = cb_new timeout_idle [], wk_pipe = [], wk_reader = new_reader, wk_stop = False\<rparr>"

section \<open>Steps of the program\<close>

text \<open>
  An event runs one handler from its beginning to its end. The environment may at any
  moment decide differently what the system calls will return. A handler that ends in a
  fault has no successor state: the process is gone.
\<close>

datatype event =
    Read_event cid
  | Write_event cid
  | Timer_event cid
  | Notify_event nat wid
  | Tick_event wid
  | Accept_event wid int bytes nat bool

definition run_event :: "event \<Rightarrow> unit act" where
  "run_event e = (case e of
      Read_event c \<Rightarrow> handle_read c
    | Write_event c \<Rightarrow> handle_write c
    | Timer_event c \<Rightarrow> handle_timeout c
    | Notify_event n h \<Rightarrow> handle_notify n h
    | Tick_event h \<Rightarrow> wheel_tick h
    | Accept_event h sock ip port ssl \<Rightarrow> bind (notify_add_conn h sock ip port ssl) (\<lambda>_. ret ()))"

definition event_enabled :: "event \<Rightarrow> world \<Rightarrow> bool" where
  "event_enabled e w = (case e of
      Read_event c \<Rightarrow> (case w_conns w c of None \<Rightarrow> False | Some r \<Rightarrow> has_flag (c_flag r) MASK_BIT_RD \<or> c_active r)
    | Write_event c \<Rightarrow> (case w_conns w c of None \<Rightarrow> False | Some r \<Rightarrow> has_flag (c_flag r) MASK_BIT_WR)
    | Timer_event c \<Rightarrow> c \<in> set (w_timers w)
    | Notify_event n h \<Rightarrow> w_workers w h \<noteq> None
    | Tick_event h \<Rightarrow> w_workers w h \<noteq> None
    | Accept_event h sock ip port ssl \<Rightarrow> w_workers w h \<noteq> None)"

definition environment_change :: "world \<Rightarrow> world \<Rightarrow> bool" where
  "environment_change w w' \<longleftrightarrow> (\<exists>rx tx est rd ok junk usage.
     w' = w\<lparr>w_rx := rx, w_tx := tx, w_est := est, w_readable := rd, w_ok := ok, w_junk := junk, w_usage := usage\<rparr>)"

inductive step :: "world \<Rightarrow> world \<Rightarrow> bool" where
  step_event: "event_enabled e w \<Longrightarrow> run_event e w = (Val (), w') \<Longrightarrow> step w w'"
| step_environment: "environment_change w w' \<Longrightarrow> step w w'"

inductive reachable :: "world \<Rightarrow> bool" where
  reachable_start: "reachable ((start_world g)\<lparr>w_workers := map_of [(h, new_worker n). h \<leftarrow> [0..<k]]\<rparr>)"
| reachable_step: "reachable w \<Longrightarrow> step w w' \<Longrightarrow> reachable w'"

inductive_cases step_cases: "step w w'"

section \<open>No exception leaves a handler\<close>

definition only_faults :: "'a act \<Rightarrow> bool" where
  "only_faults m \<longleftrightarrow> (\<forall>w e w'. m w = (Exc e, w') \<longrightarrow> is_fault e)"

named_theorems faults \<open>actions that throw nothing but faults\<close>

lemma faults_basic [faults]:
  "only_faults (ret x)" "only_faults (c_assert b)" "only_faults (throw (Fault f))" "only_faults (conn_get c)"
  "only_faults (conn_upd c g)" "only_faults (reads h)" "only_faults (modify k)" "only_faults outcome"
  "only_faults (worker_get wk)"
  by (auto simp: only_faults_def ret_def c_assert_def throw_def is_fault_def conn_get_def conn_upd_def reads_def
      modify_def outcome_def worker_get_def split: option.splits list.splits if_splits)

lemma faults_bind [faults]: "only_faults m \<Longrightarrow> (\<And>x. only_faults (f x)) \<Longrightarrow> only_faults (bind m f)"
  unfolding only_faults_def bind_def by (fastforce split: prod.splits result.splits)

lemma faults_seq [faults]: "only_faults m \<Longrightarrow> only_faults n \<Longrightarrow> only_faults (seq m n)"
  unfolding seq_def by (intro faults)

lemma faults_with_conn [faults]: "(\<And>r. only_faults (f r)) \<Longrightarrow> only_faults (with_conn c f)"
  unfolding with_conn_def by (intro faults)

lemma faults_block [faults]: "only_faults (block [])" "only_faults m \<Longrightarrow> only_faults (block ms) \<Longrightarrow> only_faults (block (m # ms))"
  by (simp_all add: faults)

lemma faults_if [faults]: "(b \<Longrightarrow> only_faults m) \<Longrightarrow> (\<not> b \<Longrightarrow> only_faults n) \<Longrightarrow> only_faults (if b then m else n)"
  by simp

lemma faults_only_if [faults]: "(b \<Longrightarrow> only_faults m) \<Longrightarrow> only_faults (only_if b m)"
  by (simp add: only_if_def faults)

lemma faults_option [faults]:
  "only_faults m \<Longrightarrow> (\<And>x. p = Some x \<Longrightarrow> only_faults (f x)) \<Longrightarrow> only_faults (case p of None \<Rightarrow> m | Some x \<Rightarrow> f x)"
  by (cases p) simp_all

lemma faults_prod [faults]: "(\<And>a b. x = (a, b) \<Longrightarrow> only_faults (f a b)) \<Longrightarrow> only_faults (case x of (a, b) \<Rightarrow> f a b)"
  by (cases x) simp

lemma faults_Let [faults]: "only_faults (f x) \<Longrightarrow> only_faults (Let x f)"
  by simp

lemma faults_try [faults]: "(\<And>e. \<not> is_fault e \<Longrightarrow> only_faults (h e)) \<Longrightarrow> only_faults (try_catch m h)"
  unfolding only_faults_def try_catch_def by (auto split: prod.splits result.splits if_splits)

lemma faults_state [faults]:
  "only_faults (set_flags c m)" "only_faults (clear_flags c m)" "only_faults (set_type c t)" "only_faults (set_other c p)"
  "only_faults (timer_add c)" "only_faults (timer_del c)" "only_faults (worker_upd h g)"
  "only_faults (bucket_get b)" "only_faults (bucket_erase b c)" "only_faults (bucket_insert b c)" "only_faults (back_bucket h)"
  unfolding set_flags_def clear_flags_def set_type_def set_other_def timer_add_def timer_del_def worker_upd_def
    bucket_erase_def bucket_insert_def bucket_get_def back_bucket_def
  by (intro faults)+

lemma faults_tables [faults]:
  "only_faults (client_table_add c)" "only_faults (client_table_remove s)" "only_faults (server_table_remove c)"
  unfolding client_table_add_def client_table_remove_def server_table_remove_def by (intro faults)+

lemma faults_conn [faults]: "only_faults (conn_update c)" "only_faults (conn_detach c)" "only_faults (conn_destroy c)"
    "only_faults (enable_read c)" "only_faults (disable_read c)" "only_faults (conn_create s i p b)"
  unfolding conn_update_def conn_detach_def conn_destroy_def enable_read_def disable_read_def conn_create_def
  by (intro faults)+

lemma faults_io_flag [faults]:
  "only_faults a \<Longrightarrow> only_faults b \<Longrightarrow> only_faults d \<Longrightarrow> only_faults e \<Longrightarrow> only_faults f \<Longrightarrow>
   only_faults (case flag of SELF_RD_ERROR \<Rightarrow> a | SELF_WR_ERROR \<Rightarrow> b | OTHER_RD_ERROR \<Rightarrow> d | OTHER_WR_ERROR \<Rightarrow> e | IDLE_TIMEOUT \<Rightarrow> f)"
  by (cases flag) simp_all

lemma faults_close [faults]: "only_faults (close_self c flag r)" "only_faults (conn_close c flag r)"
  unfolding conn_close_def close_self_def release_partner_def by (intro faults)+

lemma faults_send_error [faults]: "only_faults (send_error c code)"
  unfolding send_error_def by (intro faults)

lemma faults_exc [faults]:
  "(\<And>x. only_faults (a x)) \<Longrightarrow> (\<And>x. only_faults (b x)) \<Longrightarrow> only_faults d \<Longrightarrow> (\<And>x. only_faults (f x)) \<Longrightarrow>
   only_faults (case e of Http_exc x \<Rightarrow> a x | Io_exc x \<Rightarrow> b x | Std_exc \<Rightarrow> d | Fault x \<Rightarrow> f x)"
  by (cases e) simp_all

lemma faults_handlers [faults]: "only_faults (handle_read c)" "only_faults (handle_write c)" "only_faults (handle_timeout c)"
  unfolding handle_read_def handle_write_def handle_timeout_def read_failed_def by (intro faults)+

lemma faults_clear_loop [faults]: "only_faults (clear_loop b cs)"
  by (induction cs) (auto intro!: faults simp: evict_def)

lemma faults_wheel [faults]: "only_faults (wheel_tick h)"
  unfolding wheel_tick_def bucket_assign_empty_def conn_bucket_clear_def by (intro faults)

lemma faults_pipe_msg [faults]:
  "only_faults a \<Longrightarrow> (\<And>s i p t. only_faults (b s i p t)) \<Longrightarrow> (\<And>s i p. only_faults (d s i p)) \<Longrightarrow>
   only_faults (case m of Exit_worker \<Rightarrow> a | Add_sock s i p t \<Rightarrow> b s i p t | Match_sock s i p \<Rightarrow> d s i p)"
  by (cases m) simp_all

lemma faults_message [faults]: "only_faults (handle_message h m)" "only_faults (message_failed c e)"
  unfolding handle_message_def message_failed_def by (intro faults)+

lemma faults_notify [faults]: "only_faults (handle_notify n h)"
  by (induction n) (auto intro!: faults simp: notify_round_def)


end
