(* ===== verification/Registry.thy ===== *)
theory Registry
  imports Worker_Loop
begin

text \<open>
  The invariant of the registry of connections, over every step of the program: the links
  between partners are symmetric and never dangle, and every entry of the client table is
  a live client connection with that socket.
\<close>

section \<open>The part of the state it speaks of\<close>

type_synonym link = "cid option \<times> bool \<times> int"

definition conn_key :: "conn \<Rightarrow> link" where
  "conn_key r = (c_other r, c_type r = CLIENT, c_sock r)"

definition links :: "world \<Rightarrow> cid \<Rightarrow> link option" where
  "links w c = map_option conn_key (w_conns w c)"

type_synonym core = "(cid \<Rightarrow> link option) \<times> (int \<times> cid) list \<times> (bytes \<times> cid) list \<times> nat"

definition core :: "world \<Rightarrow> core" where
  "core w = (links w, w_clients w, w_servers w, w_next w)"

abbreviation core_is :: "core \<Rightarrow> world \<Rightarrow> bool" where
  "core_is v w \<equiv> core w = v"

text \<open>The connections outside \<open>X\<close> are paired among themselves.\<close>

definition pairs_ok :: "cid set \<Rightarrow> (cid \<Rightarrow> link option) \<Rightarrow> bool" where
  "pairs_ok X L \<longleftrightarrow> (\<forall>c p t s. c \<notin> X \<longrightarrow> L c = Some (Some p, t, s) \<longrightarrow> p \<notin> X \<and> (\<exists>t' s'. L p = Some (Some c, t', s')))"

definition clients_ok :: "(cid \<Rightarrow> link option) \<Rightarrow> (int \<times> cid) list \<Rightarrow> bool" where
  "clients_ok L m \<longleftrightarrow> (\<forall>s c. (s, c) \<in> set m \<longrightarrow> (\<exists>p. L c = Some (p, True, s)))"

definition servers_ok :: "(cid \<Rightarrow> link option) \<Rightarrow> (bytes \<times> cid) list \<Rightarrow> nat \<Rightarrow> bool" where
  "servers_ok L m n \<longleftrightarrow> (\<forall>d c. (d, c) \<in> set m \<longrightarrow> c < n \<and> (\<forall>p t s. L c = Some (p, t, s) \<longrightarrow> \<not> t))"

definition reg :: "cid set \<Rightarrow> core \<Rightarrow> bool" where
  "reg X v = (case v of (L, cl, se, n) \<Rightarrow>
     pairs_ok X L \<and> clients_ok L cl \<and> servers_ok L se n \<and> (\<forall>c. L c \<noteq> None \<longrightarrow> c < n))"

section \<open>What leaves it alone\<close>

lemma core_conn_updI: "(\<And>r. conn_key (f r) = conn_key r) \<Longrightarrow> keeps (core_is v) (conn_upd c f)"
  by (rule keeps_conn_updI) (auto simp: core_def links_def fun_eq_iff)

lemma core_outcome [wp]: "keeps (core_is v) outcome"
  by (rule keeps_outcomeI) (auto simp: core_def links_def fun_eq_iff)

lemma core_worker_upd [wp]: "keeps (core_is v) (worker_upd h f)"
  by (rule keeps_worker_updI) (auto simp: core_def links_def fun_eq_iff)

lemma core_timers [wp]: "keeps (core_is v) (timer_add c)" "keeps (core_is v) (timer_del c)"
  unfolding timer_add_def timer_del_def by (rule keeps_modifyI; auto simp: core_def links_def fun_eq_iff)+

lemma core_flags [wp]: "keeps (core_is v) (set_flags c m)" "keeps (core_is v) (clear_flags c m)" "keeps (core_is v) (stream_upd c g)"
  unfolding set_flags_def clear_flags_def stream_upd_def by (rule core_conn_updI; simp add: conn_key_def)+

lemma core_tables [wp]: "keeps (core_is v) (client_table_get s)" "keeps (core_is v) client_table_size"
    "keeps (core_is v) server_table_size" "keeps (core_is v) client_table_match_size"
  unfolding client_table_get_def client_table_size_def server_table_size_def
  by (intro wp; simp)+ (rule keepsI, simp add: client_table_match_size_def)

lemma core_find_sock [wp]: "keeps (core_is v) (find_sock cs s)"
  by (induction cs) (auto intro!: wp)

lemma core_server_get [wp]: "keeps (core_is v) (server_table_get d s)"
  unfolding server_table_get_def by (intro wp)

lemma core_buckets [wp]: "keeps (core_is v) (bucket_get b)" "keeps (core_is v) (bucket_erase b c)"
    "keeps (core_is v) (bucket_insert b c)" "keeps (core_is v) (back_bucket h)"
  unfolding bucket_erase_def bucket_insert_def bucket_get_def back_bucket_def by (intro wp)+

lemma core_conn_update [wp]: "keeps (core_is v) (conn_update c)"
  unfolding conn_update_def by (intro wp core_conn_updI) (simp add: conn_key_def)

lemma core_attach [wp]: "keeps (core_is v) (conn_attach c h)" "keeps (core_is v) (conn_detach c)"
  unfolding conn_attach_def conn_detach_def by (intro wp core_conn_updI; simp add: conn_key_def)+

lemma core_enable [wp]: "keeps (core_is v) (enable_read c)" "keeps (core_is v) (disable_read c)"
  unfolding enable_read_def disable_read_def by (intro wp core_conn_updI; simp add: conn_key_def)+

lemma conn_key_advance: "conn_key (advance_out n r) = conn_key r"
  by (simp add: advance_out_def conn_key_def Let_def split: list.splits)

lemma core_send_step: "conn_send c bs w = (x, w') \<Longrightarrow> core w' = core w"
  using conn_send_frame [of c bs w x w'] by (cases w; cases w') (simp add: core_def links_def fun_eq_iff)

lemma core_send_loop_aux: "core (snd (send_loop c w)) = core w"
proof (induction c w rule: send_loop.induct)
  case (1 c w)
  show ?case
  proof (cases "w_conns w c")
    case None
    then show ?thesis by (simp add: send_loop.simps [of c w])
  next
    case (Some r)
    show ?thesis
    proof (cases "q_top (c_out r)")
      case None
      with Some show ?thesis by (simp add: send_loop.simps [of c w])
    next
      case (Some b)
      obtain op w1 where s: "conn_send c (unsent b) w = (op, w1)" by fastforce
      note f = core_send_step [OF s]
      note step = send_loop.simps [of c w]
      show ?thesis
      proof (cases op)
        case (OP_SIZE n)
        let ?w2 = "w1\<lparr>w_conns := (w_conns w1)(c \<mapsto> advance_out n r)\<rparr>"
        have "w_conns w1 c = Some r"
          using conn_send_frame [OF s] \<open>w_conns w c = Some r\<close> by (cases w; cases w1) simp
        then have "core ?w2 = core w1" by (auto simp: core_def links_def conn_key_advance fun_eq_iff)
        then show ?thesis
          using 1 [OF \<open>w_conns w c = Some r\<close> Some s [symmetric] OP_SIZE] f step s OP_SIZE Some \<open>w_conns w c = Some r\<close> by simp
      qed (use step \<open>w_conns w c = Some r\<close> Some s f in simp_all)
    qed
  qed
qed

lemma core_send_loop [wp]: "keeps (core_is v) (send_loop c)"
  by (rule keepsI) (simp add: core_send_loop_aux)

text \<open>A server may go from busy to idle and back.\<close>

lemma core_set_type_known:
  assumes "\<And>r. P r \<Longrightarrow> (c_type r = CLIENT) = (t = CLIENT)"
  shows "keeps (core_is v) (with_conn c (\<lambda>r. if F r then throw e else only_if (P r) (set_type c t)))"
proof (rule keepsI)
  fix w assume "core_is v w"
  then show "core_is v (snd (with_conn c (\<lambda>r. if F r then throw e else only_if (P r) (set_type c t)) w))"
    using assms
    by (auto simp: with_conn_def bind_def conn_get_def throw_def only_if_def ret_def set_type_def conn_upd_def
        core_def links_def conn_key_def fun_eq_iff split: option.splits)
qed

lemma core_send [wp]: "keeps (core_is v) (async_send_impl c f)" "keeps (core_is v) (async_send c f)"
proof -
  show "keeps (core_is v) (async_send_impl c f)" for v
    unfolding async_send_impl_def by (intro wp core_set_type_known) simp
  then show "keeps (core_is v) (async_send c f)"
    unfolding async_send_def by (intro wp)
qed

lemma core_response [wp]: "keeps (core_is v) (send_response c s hs body flag)" "keeps (core_is v) (stream_send_error c s)"
    "keeps (core_is v) (send_ok c b flag)" "keeps (core_is v) (send_crossdomain c)" "keeps (core_is v) (send_system_info c)"
proof -
  show r: "keeps (core_is v) (send_response c s hs body flag)" for s hs body flag
    unfolding send_response_def by (intro wp core_conn_updI) (simp add: conn_key_def)
  show "keeps (core_is v) (stream_send_error c s)" "keeps (core_is v) (send_ok c b flag)"
    "keeps (core_is v) (send_crossdomain c)" "keeps (core_is v) (send_system_info c)"
    unfolding stream_send_error_def send_ok_def send_crossdomain_def send_system_info_def by (intro wp r)+
qed

lemma core_requests [wp]: "keeps (core_is v) (notify_match_conn h c s b)" "keeps (core_is v) (request_new_server c)"
  unfolding notify_match_conn_def request_new_server_def
  by (intro wp keeps_modifyI; auto simp: core_def links_def fun_eq_iff)+

lemma core_match_server [wp]: "keeps (core_is v) (match_server c d False)"
proof -
  have eq: "match_server c d False = seq (case d of None \<Rightarrow> ret () | Some d \<Rightarrow> conn_upd c (\<lambda>r. r\<lparr>c_dev_id := d\<rparr>)) (request_new_server c)"
    by (simp add: match_server_def)
  have upd: "keeps (core_is v) (conn_upd c (\<lambda>r. r\<lparr>c_dev_id := x\<rparr>))" for x
    by (rule core_conn_updI) (simp add: conn_key_def)
  show ?thesis unfolding eq by (cases d) (simp_all add: keeps_seq keeps_ret core_requests upd)
qed

section \<open>Maintaining an invariant unless the process dies\<close>

definition maintains :: "(world \<Rightarrow> bool) \<Rightarrow> 'a act \<Rightarrow> bool" where
  "maintains I m \<longleftrightarrow> triple I m (\<lambda>_. I) (\<lambda>e w. is_fault e \<or> I w)"

named_theorems mt \<open>actions that maintain an invariant\<close>

lemma maintains_keeps: "keeps I m \<Longrightarrow> maintains I m"
  unfolding maintains_def keeps_def by (erule triple_post) auto

lemma keeps_core_eq: "(\<And>v. keeps (core_is v) m) \<Longrightarrow> core (snd (m w)) = core w"
  using keepsD [of "core_is (core w)" m w] by simp

lemma keeps_core_maintains:
  assumes "\<And>v. keeps (core_is v) m"
  shows "maintains (\<lambda>w. P (core w)) m"
  by (rule maintains_keeps, rule keepsI) (simp add: keeps_core_eq [OF assms])

lemma maintains_bind [mt]: "maintains I m \<Longrightarrow> (\<And>x. maintains I (f x)) \<Longrightarrow> maintains I (bind m f)"
  unfolding maintains_def by (rule triple_bind)

lemma maintains_seq [mt]: "maintains I m \<Longrightarrow> maintains I n \<Longrightarrow> maintains I (seq m n)"
  unfolding seq_def by (intro mt)

lemma maintains_basic [mt]: "maintains I (ret x)" "maintains I (throw e)" "maintains I (c_assert b)" "maintains I (reads f)"
    "maintains I (conn_get c)"
  by (intro maintains_keeps wp)+

lemma maintains_with_conn [mt]: "(\<And>r. maintains I (f r)) \<Longrightarrow> maintains I (with_conn c f)"
  unfolding with_conn_def by (intro mt)

lemma maintains_block [mt]: "maintains I (block [])" "maintains I m \<Longrightarrow> maintains I (block ms) \<Longrightarrow> maintains I (block (m # ms))"
  by (simp_all add: mt)

lemma maintains_if [mt]: "(b \<Longrightarrow> maintains I m) \<Longrightarrow> (\<not> b \<Longrightarrow> maintains I n) \<Longrightarrow> maintains I (if b then m else n)"
  by simp

lemma maintains_only_if [mt]: "(b \<Longrightarrow> maintains I m) \<Longrightarrow> maintains I (only_if b m)"
  by (simp add: only_if_def mt)

lemma maintains_option [mt]:
  "maintains I m \<Longrightarrow> (\<And>x. p = Some x \<Longrightarrow> maintains I (f x)) \<Longrightarrow> maintains I (case p of None \<Rightarrow> m | Some x \<Rightarrow> f x)"
  by (cases p) simp_all

lemma maintains_prod [mt]: "(\<And>a b. x = (a, b) \<Longrightarrow> maintains I (f a b)) \<Longrightarrow> maintains I (case x of (a, b) \<Rightarrow> f a b)"
  by (cases x) simp

lemma maintains_Let [mt]: "maintains I (f x) \<Longrightarrow> maintains I (Let x f)"
  by simp

lemma maintains_try [mt]:
  assumes "maintains I m" "\<And>e. \<not> is_fault e \<Longrightarrow> maintains I (h e)"
  shows "maintains I (try_catch m h)"
  unfolding maintains_def
proof (rule triple_try [OF assms(1) [unfolded maintains_def]])
  fix e assume "\<not> is_fault e"
  then show "triple (\<lambda>w. is_fault e \<or> I w) (h e) (\<lambda>_. I) (\<lambda>e w. is_fault e \<or> I w)"
    using assms(2) by (simp add: maintains_def)
qed auto


text \<open>Normal ends, taken apart.\<close>

lemma seq_Val: "seq m n w = (Val x, w') \<longleftrightarrow> (\<exists>w1. m w = (Val (), w1) \<and> n w1 = (Val x, w'))"
  by (auto simp: seq_def bind_def split: prod.splits result.splits)

lemma bind_Val: "bind m f w = (Val x, w') \<longleftrightarrow> (\<exists>y w1. m w = (Val y, w1) \<and> f y w1 = (Val x, w'))"
  by (auto simp: bind_def split: prod.splits result.splits)

lemma with_conn_Val: "with_conn c f w = (Val x, w') \<longleftrightarrow> (\<exists>r. w_conns w c = Some r \<and> f r w = (Val x, w'))"
  by (auto simp: with_conn_def bind_def conn_get_def split: option.splits)

lemma basic_Val:
  "ret y w = (Val x, w') \<longleftrightarrow> x = y \<and> w' = w" "\<not> throw e w = (Val x, w')"
  "modify f w = (Val u, w') \<longleftrightarrow> w' = f w" "reads g w = (Val z, w') \<longleftrightarrow> z = g w \<and> w' = w"
  "only_if b m w = (Val u, w') \<longleftrightarrow> (if b then m w = (Val (), w') else w' = w)"
  "conn_upd c h w = (Val u, w') \<longleftrightarrow> (\<exists>r. w_conns w c = Some r \<and> w' = w\<lparr>w_conns := (w_conns w)(c \<mapsto> h r)\<rparr>)"
  "c_assert b w = (Val u, w') \<longleftrightarrow> b \<and> w' = w"
  by (auto simp: ret_def throw_def modify_def reads_def only_if_def conn_upd_def c_assert_def split: option.splits)

lemma try_Val: "try_catch m h w = (Val x, w') \<longleftrightarrow> m w = (Val x, w') \<or>
    (\<exists>e w1. m w = (Exc e, w1) \<and> \<not> is_fault e \<and> h e w1 = (Val x, w'))"
  by (auto simp: try_catch_def split: prod.splits result.splits)

lemmas val_simps = seq_Val bind_Val with_conn_Val basic_Val try_Val block.simps

lemma core_eqD: "(\<And>v. keeps (core_is v) m) \<Longrightarrow> m w = (x, w') \<Longrightarrow> core w' = core w"
  using keeps_core_eq [of m w] by simp

section \<open>Deleting and relinking\<close>

definition destroyed :: "core \<Rightarrow> cid \<Rightarrow> core \<Rightarrow> bool" where
  "destroyed v c v' \<longleftrightarrow> (case v of (L, cl, se, n) \<Rightarrow> case v' of (L', cl', se', n') \<Rightarrow>
     L' = L(c := None) \<and> n' = n \<and> set se' \<subseteq> set se \<and>
     (\<exists>p t s. L c = Some (p, t, s) \<and> cl' = (if t then al_erase cl s else cl)))"

lemma set_mm_erase: "mm_erase m k v = Some m' \<Longrightarrow> set m' \<subseteq> set m"
  by (induction m k v arbitrary: m' rule: mm_erase.induct) (auto split: if_splits option.splits)

lemma al_erase_absent: "map_of m k = None \<Longrightarrow> al_erase m k = m"
  unfolding al_erase_def map_of_eq_None_iff by (rule filter_True) force

lemma destroy_core:
  assumes "conn_destroy c w = (Val u, w')"
  shows "destroyed (core w) c (core w')"
proof -
  from assms obtain w1 w2 r where 1: "conn_detach c w = (Val (), w1)" "w_conns w1 c = Some r"
      "(if c_type r = CLIENT then bind (client_table_remove (c_sock r)) (\<lambda>_. ret ())
                       else bind (server_table_remove c) (\<lambda>_. ret ())) w1 = (Val (), w2)"
      "w' = w2\<lparr>w_conns := (w_conns w2)(c := None)\<rparr>"
    by (auto simp: conn_destroy_def val_simps)
  have core1: "core w1 = core w" by (rule core_eqD [OF core_attach(2) 1(1)])
  have "destroyed (core w1) c (core w')"
  proof (cases "c_type r = CLIENT")
    case True
    with 1 have "w2 = w1\<lparr>w_clients := al_erase (w_clients w1) (c_sock r)\<rparr>"
      by (auto simp: val_simps client_table_remove_def al_erase_absent split: if_splits)
    then show ?thesis using 1(2,4) True
      by (auto simp: destroyed_def core_def links_def conn_key_def fun_eq_iff)
  next
    case False
    define m where "m = (case mm_erase (w_servers w1) (c_dev_id r) c of None \<Rightarrow> w_servers w1 | Some m \<Rightarrow> m)"
    have "w2 = w1\<lparr>w_servers := m\<rparr>"
      using 1(2,3) False by (auto simp: val_simps server_table_remove_def m_def split: option.splits)
    moreover have "set m \<subseteq> set (w_servers w1)"
      by (auto simp: m_def split: option.splits dest: set_mm_erase)
    ultimately show ?thesis using 1(2,4) False
      by (auto simp: destroyed_def core_def links_def conn_key_def fun_eq_iff)
  qed
  then show ?thesis using core1 by simp
qed

lemma destroyed_tables:
  assumes "destroyed (L, cl, se, n) c (L', cl', se', n')" "clients_ok L cl" "servers_ok L se n" "\<forall>c. L c \<noteq> None \<longrightarrow> c < n"
  shows "clients_ok L' cl' \<and> servers_ok L' se' n' \<and> (\<forall>c. L' c \<noteq> None \<longrightarrow> c < n')"
proof -
  from assms(1) obtain p t s where d: "L' = L(c := None)" "n' = n" "set se' \<subseteq> set se" "L c = Some (p, t, s)"
      "cl' = (if t then al_erase cl s else cl)"
    by (auto simp: destroyed_def)
  have sub: "set cl' \<subseteq> set cl" by (auto simp: d(5) al_erase_def)
  have "x \<noteq> c" if "(k, x) \<in> set cl'" for k x
  proof
    assume "x = c"
    with that sub have "(k, c) \<in> set cl" by blast
    with assms(2) d(4) have "t \<and> k = s" by (fastforce simp: clients_ok_def)
    with that d(5) show False by (auto simp: al_erase_def)
  qed
  with sub assms(2) have "clients_ok L' cl'" by (fastforce simp: clients_ok_def d(1))
  moreover have "servers_ok L' se' n'" using assms(3) d by (fastforce simp: servers_ok_def)
  ultimately show ?thesis using assms(4) d(1,2) by auto
qed

lemma reg_destroyedI:
  assumes "reg X v" "destroyed v c v'" "pairs_ok Y (fst v')"
  shows "reg Y v'"
proof -
  obtain L cl se n L' cl' se' n' where v: "v = (L, cl, se, n)" "v' = (L', cl', se', n')" by (cases v; cases v')
  have "clients_ok L cl" "servers_ok L se n" "\<forall>c. L c \<noteq> None \<longrightarrow> c < n" using assms(1) by (simp_all add: reg_def v)
  from destroyed_tables [OF assms(2) [unfolded v] this] assms(3) show ?thesis by (simp add: reg_def v)
qed

lemma reg_destroyed:
  assumes "reg X v" "destroyed v c v'" "c \<in> X"
  shows "reg (X - {c}) v'"
proof -
  obtain L cl se n L' cl' se' n' where v: "v = (L, cl, se, n)" "v' = (L', cl', se', n')" by (cases v; cases v')
  have L': "L' = L(c := None)" using assms(2) by (simp add: destroyed_def v)
  have "pairs_ok (X - {c}) L'"
    unfolding pairs_ok_def L'
  proof (intro allI impI)
    fix d e t0 s0 assume d: "d \<notin> X - {c}" "(L(c := None)) d = Some (Some e, t0, s0)"
    then have "d \<noteq> c" "d \<notin> X" "L d = Some (Some e, t0, s0)" using assms(3) by (auto split: if_splits)
    then have "e \<notin> X \<and> (\<exists>t' s'. L e = Some (Some d, t', s'))"
      using assms(1) by (auto simp: reg_def v pairs_ok_def)
    with assms(3) show "e \<notin> X - {c} \<and> (\<exists>t' s'. (L(c := None)) e = Some (Some d, t', s'))" by auto
  qed
  then show ?thesis using reg_destroyedI [OF assms(1,2)] v by simp
qed

text \<open>The partner of \<open>c\<close>, when there is one left, is no longer linked to anything.\<close>

definition partner_free :: "cid \<Rightarrow> core \<Rightarrow> bool" where
  "partner_free c v \<longleftrightarrow> (\<forall>p t s q t' s'. fst v c = Some (Some p, t, s) \<longrightarrow> fst v p = Some (q, t', s') \<longrightarrow> q = None)"

lemma reg_destroyed_free:
  assumes "reg {c} v" "partner_free c v" "fst v c = Some (Some p, t, s)" "destroyed v p v'"
  shows "reg {c} v' \<and> partner_free c v'"
proof -
  obtain L cl se n L' cl' se' n' where v: "v = (L, cl, se, n)" "v' = (L', cl', se', n')" by (cases v; cases v')
  have L': "L' = L(p := None)" using assms(4) by (simp add: destroyed_def v)
  from assms(4) obtain q t' s' where Lp: "L p = Some (q, t', s')" by (auto simp: destroyed_def v)
  from assms(2) [unfolded partner_free_def v fst_conv, rule_format, OF assms(3) [unfolded v fst_conv] Lp] Lp
  have q: "L p = Some (None, t', s')" by simp
  have "pairs_ok {c} L'"
    unfolding pairs_ok_def L'
  proof (intro allI impI)
    fix d e t0 s0 assume d: "d \<notin> {c}" "(L(p := None)) d = Some (Some e, t0, s0)"
    then have "L d = Some (Some e, t0, s0)" by (simp split: if_splits)
    moreover have "pairs_ok {c} L" using assms(1) by (simp add: reg_def v)
    ultimately obtain t1 s1 where e: "e \<notin> {c}" "L e = Some (Some d, t1, s1)"
      using d(1) unfolding pairs_ok_def by blast
    with q have "e \<noteq> p" by auto
    with e show "e \<notin> {c} \<and> (\<exists>t' s'. (L(p := None)) e = Some (Some d, t', s'))" by simp
  qed
  moreover have "partner_free c v'"
    unfolding partner_free_def v fst_conv L'
  proof (intro allI impI)
    fix e t0 s0 q t1 s1
    assume a: "(L(p := None)) c = Some (Some e, t0, s0)" "(L(p := None)) e = Some (q, t1, s1)"
    then have "L c = Some (Some e, t0, s0)" "L e = Some (q, t1, s1)" by (auto split: if_splits)
    with assms(2) show "q = None" unfolding partner_free_def v fst_conv by blast
  qed
  moreover have "L' = fst v'" by (simp add: v)
  ultimately show ?thesis using reg_destroyedI [OF assms(1,4), of "{c}"] by simp
qed

definition relinked :: "core \<Rightarrow> cid \<Rightarrow> cid option \<Rightarrow> core \<Rightarrow> bool" where
  "relinked v c p v' \<longleftrightarrow> (\<exists>q t s. fst v c = Some (q, t, s) \<and> v' = ((fst v)(c \<mapsto> (p, t, s)), snd v))"

lemma set_other_core: "set_other c p w = (Val u, w') \<Longrightarrow> relinked (core w) c p (core w')"
  by (auto simp: set_other_def val_simps relinked_def core_def links_def conn_key_def fun_eq_iff)

lemma relinked_tables:
  assumes "relinked (L, cl, se, n) c p (L', cl', se', n')" "clients_ok L cl" "servers_ok L se n" "\<forall>c. L c \<noteq> None \<longrightarrow> c < n"
  shows "clients_ok L' cl' \<and> servers_ok L' se' n' \<and> (\<forall>c. L' c \<noteq> None \<longrightarrow> c < n')"
proof -
  from assms(1) obtain q t s where r: "L c = Some (q, t, s)" "L' = L(c \<mapsto> (p, t, s))" "cl' = cl" "se' = se" "n' = n"
    by (auto simp: relinked_def)
  have "clients_ok L' cl'"
    unfolding clients_ok_def
  proof (intro allI impI)
    fix s0 d assume "(s0, d) \<in> set cl'"
    then obtain p0 where "L d = Some (p0, True, s0)" using assms(2) r(3) unfolding clients_ok_def by blast
    with r(1,2) show "\<exists>p0. L' d = Some (p0, True, s0)" by (cases "d = c") auto
  qed
  moreover have "servers_ok L' se' n'"
    unfolding servers_ok_def
  proof (intro allI impI)
    fix k d assume "(k, d) \<in> set se'"
    then have "d < n \<and> (\<forall>p t s. L d = Some (p, t, s) \<longrightarrow> \<not> t)" using assms(3) r(4) unfolding servers_ok_def by blast
    with r(1,2,5) show "d < n' \<and> (\<forall>p t s. L' d = Some (p, t, s) \<longrightarrow> \<not> t)" by (cases "d = c") auto
  qed
  moreover have "\<forall>d. L' d \<noteq> None \<longrightarrow> d < n'" using assms(4) r by auto
  ultimately show ?thesis by blast
qed

lemma reg_unlink:
  assumes "reg X v" "relinked v c None v'" "c \<in> X"
  shows "reg (X - {c}) v'"
proof -
  obtain L cl se n L' cl' se' n' where v: "v = (L, cl, se, n)" "v' = (L', cl', se', n')" by (cases v; cases v')
  from assms(2) obtain q t s where L': "L c = Some (q, t, s)" "L' = L(c \<mapsto> (None, t, s))" by (auto simp: relinked_def v)
  have "pairs_ok (X - {c}) L'"
    unfolding pairs_ok_def L'(2)
  proof (intro allI impI)
    fix d e t0 s0 assume d: "d \<notin> X - {c}" "(L(c \<mapsto> (None, t, s))) d = Some (Some e, t0, s0)"
    then have "d \<noteq> c" "d \<notin> X" "L d = Some (Some e, t0, s0)" using assms(3) by (auto split: if_splits)
    then have "e \<notin> X \<and> (\<exists>t' s'. L e = Some (Some d, t', s'))"
      using assms(1) by (auto simp: reg_def v pairs_ok_def)
    with assms(3) show "e \<notin> X - {c} \<and> (\<exists>t' s'. (L(c \<mapsto> (None, t, s))) e = Some (Some d, t', s'))" by auto
  qed
  then show ?thesis
    using assms(1) relinked_tables [OF assms(2) [unfolded v]] by (simp add: reg_def v)
qed

lemma reg_alone:
  assumes "reg {} v" "fst v c = Some (None, t, s)"
  shows "reg {c} v"
  using assms by (cases v) (fastforce simp: reg_def pairs_ok_def)

lemma reg_pair:
  assumes "reg {} v" "fst v c = Some (Some p, t, s)"
  shows "reg {c, p} v"
proof -
  obtain L cl se n where v: "v = (L, cl, se, n)" by (cases v)
  have sym: "L d = Some (Some e, t, s) \<Longrightarrow> \<exists>t' s'. L e = Some (Some d, t', s')" for d e t s
    using assms(1) by (auto simp: reg_def v pairs_ok_def)
  obtain tp sp where p: "L p = Some (Some c, tp, sp)" using sym [of c p] assms(2) v by auto
  have "pairs_ok {c, p} L"
    unfolding pairs_ok_def
  proof (intro allI impI)
    fix d e t0 s0 assume d: "d \<notin> {c, p}" "L d = Some (Some e, t0, s0)"
    then obtain t' s' where e: "L e = Some (Some d, t', s')" using sym by blast
    then have "e \<noteq> c" "e \<noteq> p" using d assms(2) p v by auto
    with e show "e \<notin> {c, p} \<and> (\<exists>t' s'. L e = Some (Some d, t', s'))" by blast
  qed
  then show ?thesis using assms(1) by (simp add: reg_def v)
qed

lemma reg_gone:
  assumes "reg {} v" "fst v c = None"
  shows "reg {c} v"
proof -
  obtain L cl se n where v: "v = (L, cl, se, n)" by (cases v)
  have "pairs_ok {c} L"
    unfolding pairs_ok_def
  proof (intro allI impI)
    fix d e t0 s0 assume d: "d \<notin> {c}" "L d = Some (Some e, t0, s0)"
    have "pairs_ok {} L" using assms(1) by (simp add: reg_def v)
    with d obtain t' s' where e: "L e = Some (Some d, t', s')" unfolding pairs_ok_def by blast
    then have "e \<noteq> c" using assms(2) by (auto simp: v)
    with e show "e \<notin> {c} \<and> (\<exists>t' s'. L e = Some (Some d, t', s'))" by blast
  qed
  then show ?thesis using assms(1) by (simp add: reg_def v)
qed

text \<open>Between the first part of \<open>close_self\<close> and the last: the connection may still name a partner that has let go.\<close>

definition half_closed :: "cid \<Rightarrow> core \<Rightarrow> bool" where
  "half_closed c v \<longleftrightarrow> reg {c} v \<and> partner_free c v"

lemma half_closed_alone: "reg {} v \<Longrightarrow> fst v c = Some (None, t, s) \<Longrightarrow> half_closed c v"
  using reg_alone [of v c t s] by (auto simp: half_closed_def partner_free_def)

lemma half_closed_unlinked:
  assumes "reg {} v" "fst v c = Some (Some p, t, s)" "relinked v p None v'"
  shows "half_closed c v'"
proof -
  have r: "reg ({c, p} - {p}) v'" using reg_unlink [OF reg_pair [OF assms(1,2)] assms(3)] by simp
  obtain t' s' where p: "fst v' p = Some (None, t', s')" using assms(3) by (auto simp: relinked_def)
  show ?thesis
  proof (cases "c = p")
    case True
    with r p show ?thesis by (auto intro: half_closed_alone)
  next
    case False
    moreover have "fst v' c = Some (Some p, t, s)" using assms(2,3) False by (auto simp: relinked_def)
    ultimately show ?thesis using r p by (auto simp: half_closed_def partner_free_def insert_Diff_if)
  qed
qed

lemma half_closed_destroyed:
  assumes "reg {} v" "fst v c = Some (Some p, t, s)" "destroyed v p v'"
  shows "half_closed c v'"
proof -
  have r: "reg ({c, p} - {p}) v'" using reg_destroyed [OF reg_pair [OF assms(1,2)] assms(3)] by simp
  have L': "fst v' = (fst v)(p := None)" using assms(3) by (auto simp: destroyed_def split: prod.splits)
  show ?thesis
  proof (cases "c = p")
    case True
    with r L' show ?thesis using reg_gone [of v' c] by (auto simp: half_closed_def partner_free_def)
  next
    case False
    then show ?thesis using r assms(2) by (auto simp: half_closed_def partner_free_def insert_Diff_if L')
  qed
qed

lemma half_closed_forget:
  assumes "half_closed c v" "relinked v c None v'"
  shows "half_closed c v'"
proof -
  have "reg {} v'" using reg_unlink [OF _ assms(2), of "{c}"] assms(1) by (simp add: half_closed_def)
  then show ?thesis using assms(2) by (auto simp: relinked_def intro: half_closed_alone)
qed

lemma half_closed_done: "half_closed c v \<Longrightarrow> destroyed v c v' \<Longrightarrow> reg {} v'"
  using reg_destroyed [of "{c}" v c v'] by (simp add: half_closed_def)

lemma fst_core: "fst (core w) c = map_option conn_key (w_conns w c)"
  by (simp add: core_def links_def)

end
