(* ===== verification/Registry_Inv.thy ===== *)
theory Registry_Inv
  imports Registry
begin

text \<open>
  The registry invariant over the handlers: closing, matching, reading and every event keep
  it, so it holds in every reachable state.
\<close>

section \<open>The invariant\<close>

definition registry_ok :: "world \<Rightarrow> bool" where
  "registry_ok w \<longleftrightarrow> reg {} (core w)"

lemma maintains_only_faults:
  assumes "only_faults m" "\<And>w u w'. I w \<Longrightarrow> m w = (Val u, w') \<Longrightarrow> I w'"
  shows "maintains I m"
  unfolding maintains_def
proof (rule tripleI)
  fix w assume "I w"
  then show "case m w of (Val x, w') \<Rightarrow> I w' | (Exc e, w') \<Rightarrow> is_fault e \<or> I w'"
    using assms by (cases "m w"; cases "fst (m w)") (auto simp: only_faults_def)
qed

lemma registry_keeps: "(\<And>v. keeps (core_is v) m) \<Longrightarrow> maintains registry_ok m"
  unfolding registry_ok_def by (rule keeps_core_maintains)

section \<open>Closing\<close>

lemma release_partner_core: "release_partner p w = (Val u, w') \<Longrightarrow> relinked (core w) p None (core w')"
proof -
  assume "release_partner p w = (Val u, w')"
  then obtain w1 where 1: "set_flags p MASK_BIT_CLOSE w = (Val (), w1)" "set_other p None w1 = (Val u, w')"
    by (auto simp: release_partner_def val_simps)
  have "core w1 = core w" by (rule core_eqD [OF core_flags(1) 1(1)])
  with set_other_core [OF 1(2)] show ?thesis by simp
qed

definition drop_partner :: "cid \<Rightarrow> io_flag \<Rightarrow> unit act" where
  "drop_partner c flag = with_conn c (\<lambda>r. case c_other r of None \<Rightarrow> ret ()
        | Some p \<Rightarrow>
           if c_type r = CLIENT then
             (if \<not> is_data_break r then
                (if False then block
                   [set_other p None, enable_read p,
                    with_conn p (\<lambda>q. only_if (q_empty (c_out q)) (set_type p IDLE_SERVER))]
                 else if flag = SELF_RD_ERROR then release_partner p
                 else conn_destroy p)
              else seq (conn_destroy p) (set_other c None))
           else if flag = SELF_RD_ERROR then release_partner p
           else conn_destroy p)"

lemma drop_partner_half_closed:
  assumes "reg {} (core w)" "drop_partner c flag w = (Val u, w')"
  shows "half_closed c (core w')"
proof -
  from assms(2) obtain r where r: "w_conns w c = Some r"
    by (auto simp: drop_partner_def val_simps)
  show ?thesis
  proof (cases "c_other r")
    case None
    with assms r have "w' = w" by (simp add: drop_partner_def val_simps)
    then show ?thesis using half_closed_alone [OF assms(1)] r None by (simp add: fst_core conn_key_def)
  next
    case (Some p)
    have k: "fst (core w) c = Some (Some p, c_type r = CLIENT, c_sock r)" using r Some by (simp add: fst_core conn_key_def)
    have "release_partner p w = (Val (), w') \<or> conn_destroy p w = (Val (), w') \<or>
        (\<exists>w1. conn_destroy p w = (Val (), w1) \<and> set_other c None w1 = (Val (), w'))"
      using assms(2) r Some by (auto simp: drop_partner_def val_simps split: if_splits)
    then consider "release_partner p w = (Val (), w')" | "conn_destroy p w = (Val (), w')"
      | w1 where "conn_destroy p w = (Val (), w1)" "set_other c None w1 = (Val (), w')" by blast
    then show ?thesis
    proof cases
      case 1
      then show ?thesis by (rule half_closed_unlinked [OF assms(1) k release_partner_core])
    next
      case 2
      then show ?thesis by (rule half_closed_destroyed [OF assms(1) k destroy_core])
    next
      case 3
      show ?thesis
        by (rule half_closed_forget [OF half_closed_destroyed [OF assms(1) k destroy_core [OF 3(1)]] set_other_core [OF 3(2)]])
    qed
  qed
qed

definition flush_partner :: "cid \<Rightarrow> io_flag \<Rightarrow> unit act" where
  "flush_partner c flag = with_conn c (\<lambda>r. case c_other r of None \<Rightarrow> ret ()
        | Some p \<Rightarrow> only_if (flag = SELF_RD_ERROR) (try_catch (async_send p SELF_WR_ERROR) (\<lambda>_. conn_destroy p)))"

lemma flush_partner_half_closed:
  assumes "half_closed c (core w)" "flush_partner c flag w = (Val u, w')"
  shows "half_closed c (core w')"
proof -
  from assms(2) obtain r where r: "w_conns w c = Some r" by (auto simp: flush_partner_def val_simps)
  show ?thesis
  proof (cases "c_other r = None \<or> flag \<noteq> SELF_RD_ERROR")
    case True
    with assms r show ?thesis by (auto simp: flush_partner_def val_simps split: option.splits)
  next
    case False
    then obtain p where p: "c_other r = Some p" "flag = SELF_RD_ERROR" by auto
    with assms(2) r consider "async_send p SELF_WR_ERROR w = (Val (), w')"
      | e w1 where "async_send p SELF_WR_ERROR w = (Exc e, w1)" "conn_destroy p w1 = (Val (), w')"
      by (auto simp: flush_partner_def val_simps)
    then show ?thesis
    proof cases
      case 1
      then have "core w' = core w" by (rule core_eqD [OF core_send(2)])
      with assms(1) show ?thesis by simp
    next
      case 2
      have eq: "core w1 = core w" by (rule core_eqD [OF core_send(2) 2(1)])
      have k: "fst (core w1) c = Some (Some p, c_type r = CLIENT, c_sock r)" using r p eq by (simp add: fst_core conn_key_def)
      show ?thesis
        using reg_destroyed_free [OF _ _ k destroy_core [OF 2(2)]] assms(1) eq by (simp add: half_closed_def)
    qed
  qed
qed

lemma close_self_parts: "close_self c flag False = seq (drop_partner c flag) (seq (flush_partner c flag) (conn_destroy c))"
  by (simp add: close_self_def drop_partner_def flush_partner_def)

lemma registry_close_self [mt]: "maintains registry_ok (close_self c flag False)"
proof (rule maintains_only_faults [OF faults_close(1)])
  fix w u w' assume I: "registry_ok w" and run: "close_self c flag False w = (Val u, w')"
  from run obtain w1 w2 where 1: "drop_partner c flag w = (Val (), w1)" "flush_partner c flag w1 = (Val (), w2)"
      "conn_destroy c w2 = (Val u, w')"
    by (auto simp: close_self_parts val_simps)
  have "half_closed c (core w2)"
    using flush_partner_half_closed [OF drop_partner_half_closed [OF _ 1(1)] 1(2)] I by (simp add: registry_ok_def)
  from half_closed_done [OF this destroy_core [OF 1(3)]] show "registry_ok w'" by (simp add: registry_ok_def)
qed

lemma registry_destroy_alone:
  assumes "registry_ok w" "w_conns w c = Some r" "c_other r = None" "conn_destroy c w = (Val u, w')"
  shows "registry_ok w'"
proof -
  have "fst (core w) c = Some (None, c_type r = CLIENT, c_sock r)" using assms(2,3) by (simp add: fst_core conn_key_def)
  with assms(1) have "reg {c} (core w)" unfolding registry_ok_def by (rule reg_alone)
  from reg_destroyed [OF this destroy_core [OF assms(4)]] show ?thesis by (simp add: registry_ok_def)
qed

lemma registry_destroy_other:
  assumes "registry_ok w" "w_conns w c = Some r" "c_other r = Some p"
    and "conn_destroy p w = (Val u, w1)" "conn_destroy c w1 = (Val u, w')"
  shows "registry_ok w'"
proof -
  have k: "fst (core w) c = Some (Some p, c_type r = CLIENT, c_sock r)" using assms by (simp add: fst_core conn_key_def)
  show ?thesis
    using half_closed_done [OF half_closed_destroyed [OF _ k destroy_core [OF assms(4)]] destroy_core [OF assms(5)]] assms(1)
    by (simp add: registry_ok_def)
qed

lemma registry_conn_close [mt]: "maintains registry_ok (conn_close c flag False)"
proof (cases "flag = SELF_RD_ERROR \<or> flag = SELF_WR_ERROR")
  case True
  then show ?thesis by (auto simp: conn_close_def mt)
next
  case False
  show ?thesis
  proof (rule maintains_only_faults [OF faults_close(2)])
    fix w u w' assume I: "registry_ok w" and run: "conn_close c flag False w = (Val u, w')"
    from False run obtain r where r: "w_conns w c = Some r" by (cases flag) (auto simp: conn_close_def val_simps)
    show "registry_ok w'"
    proof (cases "c_other r")
      case None
      with False run r have "conn_destroy c w = (Val u, w')" by (cases flag) (auto simp: conn_close_def val_simps)
      with registry_destroy_alone [OF I r None] show ?thesis by blast
    next
      case (Some p)
      show ?thesis
      proof (cases "flag = OTHER_WR_ERROR")
        case True
        with run r Some obtain w1 where "conn_destroy p w = (Val (), w1)" "conn_destroy c w1 = (Val (), w')"
          by (auto simp: conn_close_def val_simps)
        with registry_destroy_other [OF I r Some] show ?thesis by blast
      next
        case f: False
        with False run r Some consider "w' = w"
          | w1 where "set_other p None w = (Val (), w1)" "conn_destroy c w1 = (Val (), w')"
          by (cases flag) (auto simp: conn_close_def val_simps split: if_splits)
        then show ?thesis
        proof cases
          case 1
          with I show ?thesis by simp
        next
          case 2
          have k: "fst (core w) c = Some (Some p, c_type r = CLIENT, c_sock r)" using r Some by (simp add: fst_core conn_key_def)
          show ?thesis
            using half_closed_done [OF half_closed_unlinked [OF _ k set_other_core [OF 2(1)]] destroy_core [OF 2(2)]] I
            by (simp add: registry_ok_def)
        qed
      qed
    qed
  qed
qed

section \<open>Steps that leave the links alone\<close>

lemmas registry_frame [mt] =
  core_outcome [THEN registry_keeps] core_worker_upd [THEN registry_keeps] core_timers [THEN registry_keeps]
  core_flags [THEN registry_keeps] core_tables [THEN registry_keeps] core_server_get [THEN registry_keeps]
  core_buckets [THEN registry_keeps] core_conn_update [THEN registry_keeps] core_attach [THEN registry_keeps]
  core_enable [THEN registry_keeps] core_send [THEN registry_keeps] core_response [THEN registry_keeps]
  core_requests [THEN registry_keeps] core_match_server [THEN registry_keeps]

lemma registry_conn_updI: "(\<And>r. conn_key (f r) = conn_key r) \<Longrightarrow> maintains registry_ok (conn_upd c f)"
  by (rule registry_keeps, rule core_conn_updI)

lemma registry_send_error [mt]: "maintains registry_ok (send_error c code)"
  unfolding send_error_def by (intro mt registry_conn_updI) (simp add: conn_key_def)

lemma registry_destroy_linked:
  assumes "registry_ok w" "w_conns w c = Some r" "c_other r = Some p"
    and "conn_destroy p w = (Val u, w1)" "set_other c None w1 = (Val u', w')"
  shows "registry_ok w'"
proof -
  have k: "fst (core w) c = Some (Some p, c_type r = CLIENT, c_sock r)" using assms by (simp add: fst_core conn_key_def)
  have "half_closed c (core w')"
    using half_closed_forget [OF half_closed_destroyed [OF _ k destroy_core [OF assms(4)]] set_other_core [OF assms(5)]] assms(1)
    by (simp add: registry_ok_def)
  moreover obtain t s where "fst (core w') c = Some (None, t, s)" using set_other_core [OF assms(5)] by (auto simp: relinked_def)
  ultimately have "reg ({c} - {c}) (core w')"
    using reg_unlink [of "{c}" "core w'" c "core w'"] by (simp add: half_closed_def relinked_def map_upd_triv)
  then show ?thesis by (simp add: registry_ok_def)
qed

section \<open>At one state\<close>

definition safe_at :: "'a act \<Rightarrow> world \<Rightarrow> bool" where
  "safe_at m w \<longleftrightarrow> (case m w of (Val x, w') \<Rightarrow> registry_ok w' | (Exc e, w') \<Rightarrow> is_fault e \<or> registry_ok w')"

lemma safe_maintains: "maintains registry_ok m \<Longrightarrow> registry_ok w \<Longrightarrow> safe_at m w"
  by (simp add: maintains_def triple_def safe_at_def)

lemma maintains_safe: "(\<And>w. registry_ok w \<Longrightarrow> safe_at m w) \<Longrightarrow> maintains registry_ok m"
  by (simp add: maintains_def triple_def safe_at_def)

lemma safe_throw: "registry_ok w \<Longrightarrow> safe_at (throw e) w" "registry_ok w \<Longrightarrow> safe_at (ret x) w"
  by (simp_all add: safe_at_def throw_def ret_def)

lemma safe_with_conn: "(\<And>r. w_conns w c = Some r \<Longrightarrow> safe_at (f r) w) \<Longrightarrow> safe_at (with_conn c f) w"
  by (auto simp: safe_at_def with_conn_def bind_def conn_get_def is_fault_def split: option.splits)

lemma safe_bind:
  assumes "keeps (core_is (core w)) m" "registry_ok w" "\<And>x w1. m w = (Val x, w1) \<Longrightarrow> core w1 = core w \<Longrightarrow> safe_at (f x) w1"
  shows "safe_at (bind m f) w"
proof -
  obtain r w1 where m: "m w = (r, w1)" by fastforce
  then have c: "core w1 = core w" using keepsD [OF assms(1), of w] by simp
  show ?thesis
  proof (cases r)
    case (Val x)
    with assms(3) m c show ?thesis by (simp add: safe_at_def bind_def)
  next
    case (Exc e)
    then show ?thesis using m c assms(2) by (simp add: safe_at_def bind_def registry_ok_def)
  qed
qed

lemma safe_seq:
  assumes "keeps (core_is (core w)) m" "registry_ok w" "\<And>w1. m w = (Val (), w1) \<Longrightarrow> core w1 = core w \<Longrightarrow> safe_at n w1"
  shows "safe_at (seq m n) w"
  unfolding seq_def by (rule safe_bind [OF assms(1,2)]) (use assms(3) in simp)

text \<open>Steps that break the links and mend them, ended by nothing but a fault in between.\<close>

lemma safe_then:
  assumes "only_faults m" "\<And>w1. m w = (Val (), w1) \<Longrightarrow> safe_at n w1"
  shows "safe_at (seq m n) w"
proof -
  obtain r w1 where m: "m w = (r, w1)" by fastforce
  with assms show ?thesis by (cases r) (auto simp: safe_at_def seq_def bind_def only_faults_def)
qed

section \<open>Matching\<close>

lemma reg_linked:
  assumes "reg {} v" "fst v c = Some (None, t, s)" "fst v p = Some (None, t', s')"
    and "relinked v c (Some p) v1" "relinked v1 p (Some c) v2"
  shows "reg {} v2"
proof -
  obtain L cl se n L1 cl1 se1 n1 L2 cl2 se2 n2 where v: "v = (L, cl, se, n)" "v1 = (L1, cl1, se1, n1)" "v2 = (L2, cl2, se2, n2)"
    by (cases v; cases v1; cases v2)
  have L2: "L2 = L(c := Some (Some p, t, s), p := Some (Some c, t', s'))"
    using assms(2-5) by (cases "c = p") (auto simp: relinked_def v)
  have old: "pairs_ok {} L" "clients_ok L cl" "servers_ok L se n" "\<forall>c. L c \<noteq> None \<longrightarrow> c < n"
    using assms(1) by (simp_all add: reg_def v)
  have "pairs_ok {} L2"
    unfolding pairs_ok_def
  proof (intro allI impI)
    fix d e t0 s0 assume d: "d \<notin> {}" "L2 d = Some (Some e, t0, s0)"
    show "e \<notin> {} \<and> (\<exists>t' s'. L2 e = Some (Some d, t', s'))"
    proof (cases "d = c \<or> d = p")
      case True
      with d(2) show ?thesis by (auto simp: L2 split: if_splits)
    next
      case False
      then have "L d = Some (Some e, t0, s0)" using d(2) by (simp add: L2)
      then obtain t1 s1 where e: "L e = Some (Some d, t1, s1)" using old(1) unfolding pairs_ok_def by blast
      then have "e \<noteq> c" "e \<noteq> p" using assms(2,3) by (auto simp: v)
      with e show ?thesis by (simp add: L2)
    qed
  qed
  moreover have "clients_ok L2 cl2 \<and> servers_ok L2 se2 n2 \<and> (\<forall>c. L2 c \<noteq> None \<longrightarrow> c < n2)"
  proof -
    from relinked_tables [OF assms(4) [unfolded v] old(2-4)]
    have 1: "clients_ok L1 cl1" "servers_ok L1 se1 n1" "\<forall>c. L1 c \<noteq> None \<longrightarrow> c < n1" by blast+
    from relinked_tables [OF assms(5) [unfolded v] 1] show ?thesis .
  qed
  ultimately show ?thesis by (simp add: reg_def v)
qed

lemma only_faults_set_other: "only_faults (set_other c p)"
  by (rule faults_state)

lemma safe_link:
  assumes "registry_ok w" "fst (core w) c = Some (None, t, s)" "fst (core w) p = Some (None, t', s')"
  shows "safe_at (seq (set_other c (Some p)) (set_other p (Some c))) w"
proof (rule safe_then [OF only_faults_set_other])
  fix w1 assume 1: "set_other c (Some p) w = (Val (), w1)"
  obtain r w2 where 2: "set_other p (Some c) w1 = (r, w2)" by fastforce
  show "safe_at (set_other p (Some c)) w1"
  proof (cases r)
    case (Val u)
    with reg_linked [OF assms(1) [unfolded registry_ok_def] assms(2,3) set_other_core [OF 1] set_other_core] 2
    show ?thesis by (simp add: safe_at_def registry_ok_def)
  next
    case (Exc e)
    with 2 only_faults_set_other [of p "Some c"] show ?thesis by (auto simp: safe_at_def only_faults_def)
  qed
qed

lemma core_set_busy:
  assumes "\<And>q t s. fst v p = Some (q, t, s) \<Longrightarrow> \<not> t"
  shows "keeps (core_is v) (set_type p BUSY_SERVER)"
proof (rule keepsI)
  fix w assume v: "core_is v w"
  show "core_is v (snd (set_type p BUSY_SERVER w))"
  proof (cases "w_conns w p")
    case None
    with v show ?thesis by (simp add: set_type_def conn_upd_def)
  next
    case (Some r)
    then have "fst v p = Some (c_other r, c_type r = CLIENT, c_sock r)" using v by (auto simp: fst_core conn_key_def)
    with assms have "c_type r \<noteq> CLIENT" by blast
    with v Some show ?thesis by (auto simp: set_type_def conn_upd_def core_def links_def conn_key_def fun_eq_iff)
  qed
qed

lemma core_check_busy:
  "keeps (core_is v) (seq (with_conn c (\<lambda>r. c_assert (c_type r = IDLE_SERVER))) (seq (set_type c BUSY_SERVER) (ret ())))"
  by (rule keepsI)
    (auto simp: seq_def bind_def with_conn_def conn_get_def c_assert_def throw_def ret_def set_type_def conn_upd_def
      core_def links_def conn_key_def fun_eq_iff split: option.splits)

lemma core_conn_queue [wp]: "keeps (core_is v) (conn_upd c (\<lambda>r. r\<lparr>c_out := f r\<rparr>))" "keeps (core_is v) (conn_upd c (\<lambda>r. r\<lparr>c_in := f r\<rparr>))"
    "keeps (core_is v) (conn_upd c (\<lambda>r. r\<lparr>c_callback := k\<rparr>))" "keeps (core_is v) (conn_upd c (\<lambda>r. r\<lparr>c_dev_id := k\<rparr>))"
  by (rule core_conn_updI; simp add: conn_key_def)+

definition match_transfer :: "cid \<Rightarrow> cid \<Rightarrow> bool \<Rightarrow> conn \<Rightarrow> unit act" where
  "match_transfer c p is_client q = (if is_client then
        (if \<not> has_flag (c_flag q) MASK_BIT_TIMEOUT then throw (Http_exc HTTP_INVALID_MATCH)
         else block
           [timer_del p,
            clear_flags p MASK_BIT_TIMEOUT,
            send_ok c False nosend,
            with_conn p (\<lambda>q. with_conn c (\<lambda>r. case q_push_all (c_out r) (c_in q) of (out, inq) \<Rightarrow>
              seq (conn_upd c (\<lambda>r. r\<lparr>c_out := out\<rparr>)) (conn_upd p (\<lambda>q. q\<lparr>c_in := inq\<rparr>)))),
            async_send c SELF_WR_ERROR,
            with_conn c (\<lambda>r. c_assert (c_type r = IDLE_SERVER)),
            set_type c BUSY_SERVER])
      else block
        [with_conn c (\<lambda>r. with_conn p (\<lambda>q. case q_push_all (c_out q) (c_in r) of (out, inq) \<Rightarrow>
           seq (conn_upd p (\<lambda>q. q\<lparr>c_out := out\<rparr>)) (conn_upd c (\<lambda>r. r\<lparr>c_in := inq\<rparr>)))),
         async_send p SELF_WR_ERROR,
         set_type p BUSY_SERVER])"

lemma core_match_transfer:
  assumes "is_client \<or> (\<forall>q t s. fst v p = Some (q, t, s) \<longrightarrow> \<not> t)"
  shows "keeps (core_is v) (match_transfer c p is_client q)"
proof (cases is_client)
  case True
  show ?thesis
    unfolding match_transfer_def if_P [OF True] block.simps
    by (cases "has_flag (c_flag q) MASK_BIT_TIMEOUT")
      (simp_all add: keeps_throw keeps_seq core_timers core_flags core_response core_send core_check_busy del: block.simps,
       intro keeps_seq core_timers core_flags core_response core_send core_check_busy keeps_with_conn keeps_case_prod core_conn_queue)
next
  case False
  with assms have "keeps (core_is v) (set_type p BUSY_SERVER)" by (intro core_set_busy) blast
  then show ?thesis
    unfolding match_transfer_def if_not_P [OF False] block.simps by (intro wp)
qed

end
