(* ===== verification/Scenarios.thy ===== *)
theory Scenarios
  imports Worker_Loop
begin

text \<open>
  From the accepting thread to a worker: a socket that was announced becomes a registered
  client connection. The concrete runs the theorems on reachable states are applied to are
  instances of it.
\<close>

section \<open>A connection is announced and joins\<close>

definition add_body :: "int \<Rightarrow> bytes \<Rightarrow> nat \<Rightarrow> bool \<Rightarrow> bytes \<Rightarrow> bytes" where
  "add_body sock ip port ssl junk = int_bytes sock @ take INET6_ADDRSTRLEN (ip @ NUL # junk @ replicate INET6_ADDRSTRLEN NUL) @
     le_bytes 2 port @ [bool_byte ssl]"

lemma add_body:
  assumes "msg_ok (Add_sock sock ip port ssl)"
  shows "encode_msg junk (Add_sock sock ip port ssl) = byte ADD_SOCK # add_body sock ip port ssl junk"
    and "length (add_body sock ip port ssl junk) = ADD_CONN_SIZE"
    and "decode_add (add_body sock ip port ssl junk) = Add_sock sock ip port ssl"
    and "add_body sock ip port ssl junk \<noteq> []"
proof -
  show "encode_msg junk (Add_sock sock ip port ssl) = byte ADD_SOCK # add_body sock ip port ssl junk"
    unfolding encode_msg_def add_body_def by (simp only: pipe_msg.case)
  show len: "length (add_body sock ip port ssl junk) = ADD_CONN_SIZE" by (simp add: add_body_def int_bytes_def pipe_sizes)
  show "decode_add (add_body sock ip port ssl junk) = Add_sock sock ip port ssl"
    unfolding add_body_def by (rule decode_encode_add) (use assms in \<open>simp_all add: msg_ok_def\<close>)
  show "add_body sock ip port ssl junk \<noteq> []" using len by (auto simp: pipe_sizes)
qed

text \<open>A worker that waits: nothing in its pipe and a wheel with a newest bucket.\<close>

definition waiting :: "worker \<Rightarrow> bool" where
  "waiting k \<longleftrightarrow> wk_pipe k = [] \<and> wk_reader k = new_reader \<and> \<not> cb_empty (wk_ring k) \<and>
     cb_back (wk_ring k) < length (cb_data (wk_ring k))"

lemma accept_run:
  assumes "w_workers w h = Some k" "w_ok w = []"
  shows "run_event (Accept_event h sock ip port ssl) w = (Val (), w\<lparr>w_workers := (w_workers w)(h \<mapsto>
    k\<lparr>wk_pipe := wk_pipe k @ encode_msg (w_junk w) (Add_sock sock ip port ssl)\<rparr>)\<rparr>)"
  using assms by (simp add: run_event_def notify_add_conn_def bind_def worker_get_def outcome_def worker_upd_def reads_def ret_def modify_def)

lemma type_round:
  assumes "w_workers w h = Some k" "wk_pipe k = byte ADD_SOCK # body" "wk_reader k = new_reader"
  shows "notify_round h w = (Val (), w\<lparr>w_workers := (w_workers w)(h \<mapsto> k\<lparr>wk_pipe := body,
    wk_reader := \<lparr>r_buf = [], r_size = ADD_CONN_SIZE, r_state = add_conn\<rparr>\<rparr>)\<rparr>)"
  using assms
  by (simp add: notify_round_def bind_def seq_def worker_get_def worker_upd_def modify_def ret_def read_pipe_def new_reader_def
      reader_step_def pipe_sizes byte_def Let_def)

lemma body_round:
  assumes "w_workers w h = Some k" "wk_pipe k = body" "length body = ADD_CONN_SIZE" "body \<noteq> []"
    and "wk_reader k = \<lparr>r_buf = [], r_size = ADD_CONN_SIZE, r_state = add_conn\<rparr>" "decode_add body = Add_sock sock ip port ssl"
  shows "notify_round h w = handle_message h (Add_sock sock ip port ssl)
    (w\<lparr>w_workers := (w_workers w)(h \<mapsto> k\<lparr>wk_pipe := [], wk_reader := new_reader\<rparr>)\<rparr>)"
  using assms
  by (simp add: notify_round_def bind_def seq_def worker_get_def worker_upd_def modify_def ret_def read_pipe_def
      reader_step_def Let_def)

definition fresh_conn :: "int \<Rightarrow> bytes \<Rightarrow> nat \<Rightarrow> bool \<Rightarrow> conn" where
  "fresh_conn sock ip port ssl = (let r = new_conn sock ip port in if ssl then r\<lparr>c_flag := set_flag (c_flag r) MASK_BIT_SSL\<rparr> else r)"

definition joined_conn :: "wid \<Rightarrow> nat \<Rightarrow> int \<Rightarrow> bytes \<Rightarrow> nat \<Rightarrow> bool \<Rightarrow> conn" where
  "joined_conn h i sock ip port ssl = (fresh_conn sock ip port ssl)\<lparr>c_flag := set_flag (set_flag
     (c_flag (fresh_conn sock ip port ssl)) MASK_BIT_WR) (or MASK_BIT_RD MASK_BIT_ENABLE_RD), c_bucket := Some (h, i), c_host := Some h\<rparr>"

lemma attach_run:
  assumes "w_workers w h = Some k" "waiting k" "w_ok w = []" "w_conns w c = Some r"
    and "c \<notin> set (cb_data (wk_ring k) ! cb_back (wk_ring k))"
  shows "conn_attach c h w = (Val (), w\<lparr>w_workers := (w_workers w)(h \<mapsto> ring_slot_upd (cb_back (wk_ring k)) (\<lambda>cs. cs @ [c]) k),
    w_conns := (w_conns w)(c \<mapsto> r\<lparr>c_flag := set_flag (set_flag (c_flag r) MASK_BIT_WR) (or MASK_BIT_RD MASK_BIT_ENABLE_RD),
      c_bucket := Some (h, cb_back (wk_ring k)), c_host := Some h\<rparr>)\<rparr>)"
  using assms
  by (simp add: conn_attach_def bind_def back_bucket_def bucket_insert_def bucket_get_def worker_get_def worker_upd_def modify_def
        ret_def outcome_def seq_def c_assert_def set_flags_def conn_upd_def waiting_def)

lemma create_run:
  assumes "map_of (w_clients w) sock = None"
  shows "conn_create sock ip port ssl w = (Val (w_next w), w\<lparr>w_next := Suc (w_next w),
    w_conns := (w_conns w)(w_next w \<mapsto> fresh_conn sock ip port ssl), w_clients := al_insert (w_clients w) sock (w_next w)\<rparr>)"
  using assms
  by (simp add: conn_create_def bind_def seq_def reads_def modify_def client_table_add_def with_conn_def conn_get_def c_assert_def
      ret_def fresh_conn_def Let_def new_conn_def)

lemma add_sock_run:
  assumes "w_workers w h = Some k" "waiting k" "w_ok w = []" "map_of (w_clients w) sock = None"
    and "w_next w \<notin> set (cb_data (wk_ring k) ! cb_back (wk_ring k))"
  shows "handle_message h (Add_sock sock ip port ssl) w = (Val (), w\<lparr>w_next := Suc (w_next w),
    w_clients := al_insert (w_clients w) sock (w_next w),
    w_workers := (w_workers w)(h \<mapsto> ring_slot_upd (cb_back (wk_ring k)) (\<lambda>cs. cs @ [w_next w]) k),
    w_conns := (w_conns w)(w_next w \<mapsto> joined_conn h (cb_back (wk_ring k)) sock ip port ssl)\<rparr>)"
proof -
  let ?w = "w\<lparr>w_next := Suc (w_next w), w_conns := (w_conns w)(w_next w \<mapsto> fresh_conn sock ip port ssl),
    w_clients := al_insert (w_clients w) sock (w_next w)\<rparr>"
  let ?w' = "?w\<lparr>w_workers := (w_workers w)(h \<mapsto> ring_slot_upd (cb_back (wk_ring k)) (\<lambda>cs. cs @ [w_next w]) k),
    w_conns := (w_conns w)(w_next w \<mapsto> joined_conn h (cb_back (wk_ring k)) sock ip port ssl)\<rparr>"
  have "conn_attach (w_next w) h ?w = (Val (), ?w')"
    using attach_run [of ?w h k "w_next w" "fresh_conn sock ip port ssl"] assms by (simp add: joined_conn_def)
  then have "handle_message h (Add_sock sock ip port ssl) w = (Val (), ?w')"
    by (simp add: handle_message_def bind_def create_run [OF assms(4)] try_catch_def)
  then show ?thesis by (cases w) simp
qed

lemma announced_joins:
  assumes "w_workers w h = Some k" "waiting k" "w_ok w = []" "map_of (w_clients w) sock = None"
    and "w_next w \<notin> set (cb_data (wk_ring k) ! cb_back (wk_ring k))" "msg_ok (Add_sock sock ip port ssl)"
  shows "\<exists>w1. run_event (Accept_event h sock ip port ssl) w = (Val (), w1) \<and>
    run_event (Notify_event 2 h) w1 = (Val (), w\<lparr>w_next := Suc (w_next w),
      w_clients := al_insert (w_clients w) sock (w_next w),
      w_workers := (w_workers w)(h \<mapsto> ring_slot_upd (cb_back (wk_ring k)) (\<lambda>cs. cs @ [w_next w]) k),
      w_conns := (w_conns w)(w_next w \<mapsto> joined_conn h (cb_back (wk_ring k)) sock ip port ssl)\<rparr>)"
proof -
  define body where "body = add_body sock ip port ssl (w_junk w)"
  note add = add_body [OF assms(6), where junk = "w_junk w", folded body_def]
  have k: "wk_pipe k = []" "wk_reader k = new_reader" "k\<lparr>wk_pipe := [], wk_reader := new_reader\<rparr> = k"
    using assms(2) by (cases k; simp add: waiting_def)+
  let ?w1 = "w\<lparr>w_workers := (w_workers w)(h \<mapsto> k\<lparr>wk_pipe := byte ADD_SOCK # body\<rparr>)\<rparr>"
  let ?reader = "\<lparr>r_buf = [], r_size = ADD_CONN_SIZE, r_state = add_conn\<rparr>"
  let ?w2 = "?w1\<lparr>w_workers := (w_workers ?w1)(h \<mapsto> k\<lparr>wk_pipe := body, wk_reader := ?reader\<rparr>)\<rparr>"
  have accept: "run_event (Accept_event h sock ip port ssl) w = (Val (), ?w1)"
    using accept_run [OF assms(1,3)] add(1) k(1) by simp
  have 1: "notify_round h ?w1 = (Val (), ?w2)"
    using type_round [of ?w1 h "k\<lparr>wk_pipe := byte ADD_SOCK # body\<rparr>" body] k(2) by simp
  have "notify_round h ?w2 = handle_message h (Add_sock sock ip port ssl)
      (?w2\<lparr>w_workers := (w_workers ?w2)(h \<mapsto> k\<lparr>wk_pipe := [], wk_reader := new_reader\<rparr>)\<rparr>)"
    using body_round [of ?w2 h "k\<lparr>wk_pipe := body, wk_reader := ?reader\<rparr>" body sock ip port ssl] add(2-4) by simp
  also have "?w2\<lparr>w_workers := (w_workers ?w2)(h \<mapsto> k\<lparr>wk_pipe := [], wk_reader := new_reader\<rparr>)\<rparr> = w"
    using assms(1) k(3) by (cases w) (simp add: fun_upd_idem)
  finally have 2: "notify_round h ?w2 = handle_message h (Add_sock sock ip port ssl) w" .
  have "run_event (Notify_event 2 h) ?w1 = seq (handle_message h (Add_sock sock ip port ssl)) (ret ()) w"
    using 1 2 by (simp add: run_event_def numeral_2_eq_2 seq_def bind_def)
  then show ?thesis
    using accept add_sock_run [OF assms(1-5)] by (intro exI [of _ ?w1]) (simp add: seq_def bind_def ret_def)
qed

section \<open>Two clients\<close>

definition one_worker :: world where
  "one_worker = (start_world default_settings)\<lparr>w_workers := map_of [(h, new_worker 2). h \<leftarrow> [0..<1]]\<rparr>"

definition one_client :: world where
  "one_client = one_worker\<lparr>w_next := 1, w_clients := [(7, 0)],
     w_workers := (w_workers one_worker)(0 \<mapsto> ring_slot_upd 1 (\<lambda>cs. cs @ [0]) (new_worker 2)),
     w_conns := [0 \<mapsto> joined_conn 0 1 7 ''::1'' 80 False]\<rparr>"

definition two_clients :: world where
  "two_clients = one_client\<lparr>w_next := 2, w_clients := [(7, 0), (8, 1)],
     w_workers := (w_workers one_client)(0 \<mapsto> ring_slot_upd 1 (\<lambda>cs. cs @ [1]) (ring_slot_upd 1 (\<lambda>cs. cs @ [0]) (new_worker 2))),
     w_conns := [0 \<mapsto> joined_conn 0 1 7 ''::1'' 80 False, 1 \<mapsto> joined_conn 0 1 8 ''::1'' 81 False]\<rparr>"

lemma ring_two: "sub64 2 (Suc 0) = 1"
  by (simp add: sub64_def SIZE_RANGE_def)

lemma joins_once:
  "\<exists>w1. run_event (Accept_event 0 7 ''::1'' 80 False) one_worker = (Val (), w1) \<and> run_event (Notify_event 2 0) w1 = (Val (), one_client)"
proof -
  have bk: "cb_back (wk_ring (new_worker 2)) = 1" by (simp add: new_worker_def cb_new_def ring_two)
  have w: "w_workers one_worker 0 = Some (new_worker 2)" "w_ok one_worker = []" "w_clients one_worker = []" "w_next one_worker = 0"
      "w_conns one_worker = Map.empty"
    by (simp_all add: one_worker_def start_world_def)
  have "waiting (new_worker 2)" "0 \<notin> set (cb_data (wk_ring (new_worker 2)) ! 1)"
    by (simp_all add: new_worker_def cb_new_def waiting_def cb_empty_def ring_two)
  then show ?thesis
    using announced_joins [of one_worker 0 "new_worker 2" 7 "''::1''" 80 False] w
    by (simp add: bk msg_ok_def pipe_sizes one_client_def al_insert_def)
qed

lemma joins_twice:
  "\<exists>w1. run_event (Accept_event 0 8 ''::1'' 81 False) one_client = (Val (), w1) \<and> run_event (Notify_event 2 0) w1 = (Val (), two_clients)"
proof -
  let ?k = "ring_slot_upd 1 (\<lambda>cs. cs @ [0]) (new_worker 2)"
  have ring: "cb_back (wk_ring ?k) = 1" "waiting ?k" "cb_data (wk_ring ?k) ! 1 = [0]"
    by (simp_all add: new_worker_def cb_new_def ring_two ring_slot_upd_def waiting_def cb_empty_def)
  have w: "w_workers one_client 0 = Some ?k" "w_ok one_client = []" "w_clients one_client = [(7, 0)]" "w_next one_client = 1"
      "w_conns one_client = [0 \<mapsto> joined_conn 0 1 7 ''::1'' 80 False]"
    by (simp_all add: one_client_def one_worker_def start_world_def)
  have ok: "msg_ok (Add_sock 8 ''::1'' 81 False)" by (simp add: msg_ok_def pipe_sizes)
  have two: "Suc (Suc 0) = 2" by simp
  show ?thesis
    using announced_joins [of one_client 0 ?k 8 "''::1''" 81 False, OF w(1) ring(2) w(2)] w ring ok
    by (simp add: two_clients_def al_insert_def two)
qed

lemma event_reachable: "reachable w \<Longrightarrow> event_enabled e w \<Longrightarrow> run_event e w = (Val (), w') \<Longrightarrow> reachable w'"
  by (blast intro: reachable_step step_event)

lemma announced_reachable:
  assumes "reachable w" "w_workers w h = Some k" "w_ok w = []"
    and "run_event (Accept_event h sock ip port ssl) w = (Val (), w1)" "run_event (Notify_event n h) w1 = (Val (), w2)"
  shows "reachable w2"
proof -
  have "reachable w1" using event_reachable [OF assms(1) _ assms(4)] assms(2) by (simp add: event_enabled_def)
  moreover have "w_workers w1 h \<noteq> None" using accept_run [OF assms(2,3)] assms(4) by auto
  ultimately show ?thesis using event_reachable [OF _ _ assms(5)] by (simp add: event_enabled_def)
qed

lemma one_worker_facts:
  "w_workers one_worker 0 = Some (new_worker 2)" "w_ok one_worker = []"
  "w_workers one_client 0 = Some (ring_slot_upd 1 (\<lambda>cs. cs @ [0]) (new_worker 2))" "w_ok one_client = []"
  by (simp_all add: one_client_def one_worker_def start_world_def)

lemma reachable_one_client: "reachable one_client" and reachable_two_clients: "reachable two_clients"
proof -
  have 0: "reachable one_worker"
    using reachable_start [where g = default_settings and n = 2 and k = 1] by (simp add: one_worker_def)
  note w = one_worker_facts
  show 1: "reachable one_client" using joins_once announced_reachable [OF 0 w(1,2)] by blast
  show "reachable two_clients" using joins_twice announced_reachable [OF 1 w(3,4)] by blast
qed

lemma two_clients_conns:
  "w_conns two_clients 0 = Some (joined_conn 0 1 7 ''::1'' 80 False)" "w_conns two_clients 1 = Some (joined_conn 0 1 8 ''::1'' 81 False)"
  "w_rx two_clients = (\<lambda>_. [])" "w_sent two_clients = (\<lambda>_. [])" "w_workers two_clients 0 \<noteq> None" "w_ok two_clients = []"
  and two_clients_clients: "w_clients two_clients = [(7, 0), (8, 1)]"
  by (simp_all add: two_clients_def one_client_def one_worker_def start_world_def)



end
