(* ===== verification/Registry_Reach.thy ===== *)
theory Registry_Reach
  imports Registry_Inv Scenarios
begin

text \<open>
  The registry invariant over matching, request handling and reading, over every event, and
  so over every reachable state.
\<close>

section \<open>Matching\<close>

lemma conn_match_parts: "conn_match c p is_client = with_conn p (\<lambda>q. with_conn c (\<lambda>r.
     seq (c_assert (c_other q = None)) (seq (c_assert (c_other r = None))
     (seq (match_transfer c p is_client q) (seq (set_other c (Some p)) (set_other p (Some c)))))))"
  by (simp add: conn_match_def match_transfer_def)

lemma assert_Val: "c_assert b w = (Val (), w1) \<Longrightarrow> b"
  by (simp add: basic_Val)

lemma safe_conn_match:
  assumes "registry_ok w" "is_client \<or> (\<forall>q t s. fst (core w) p = Some (q, t, s) \<longrightarrow> \<not> t)"
  shows "safe_at (conn_match c p is_client) w"
  unfolding conn_match_parts
proof (intro safe_with_conn)
  fix q r assume q: "w_conns w p = Some q" and r: "w_conns w c = Some r"
  show "safe_at (seq (c_assert (c_other q = None)) (seq (c_assert (c_other r = None))
     (seq (match_transfer c p is_client q) (seq (set_other c (Some p)) (set_other p (Some c)))))) w"
  proof (rule safe_seq [OF keeps_assert assms(1)], rule safe_seq [OF keeps_assert])
    fix w1 assume w1: "c_assert (c_other q = None) w = (Val (), w1)" "core w1 = core w"
    show "registry_ok w1" using assms(1) w1(2) by (simp add: registry_ok_def)
    fix w2 assume w2: "c_assert (c_other r = None) w1 = (Val (), w2)" "core w2 = core w1"
    have eq: "core w2 = core w" using w1 w2 by simp
    have ok: "registry_ok w2" using assms(1) eq by (simp add: registry_ok_def)
    have none: "c_other q = None" "c_other r = None" using assert_Val w1(1) w2(1) by blast+
    show "safe_at (seq (match_transfer c p is_client q) (seq (set_other c (Some p)) (set_other p (Some c)))) w2"
    proof (rule safe_seq [OF core_match_transfer ok])
      show "is_client \<or> (\<forall>q t s. fst (core w2) p = Some (q, t, s) \<longrightarrow> \<not> t)" using assms(2) by (simp add: eq)
      fix w3 assume "core w3 = core w2"
      then have 3: "core w3 = core w" using eq by simp
      show "safe_at (seq (set_other c (Some p)) (set_other p (Some c))) w3"
        using assms(1) q r none by (intro safe_link) (simp_all add: registry_ok_def 3 fst_core conn_key_def)
    qed
  qed
qed

lemma registry_match_True [mt]: "maintains registry_ok (conn_match c p True)"
  by (rule maintains_safe, rule safe_conn_match) simp_all

lemma find_sock_in: "find_sock cs s w = (Val (Some (p, h)), w') \<Longrightarrow> p \<in> set cs"
  by (induction cs) (auto simp: val_simps split: if_splits)

lemma server_table_get_not_client:
  assumes "registry_ok w" "server_table_get d s w = (Val (Some (p, h)), w')"
  shows "\<forall>q t s. fst (core w) p = Some (q, t, s) \<longrightarrow> \<not> t"
proof -
  have "(d, p) \<in> set (w_servers w)"
    using find_sock_in [of "equal_range (w_servers w) d" s w p h w'] assms(2)
    by (auto simp: server_table_get_def val_simps set_equal_range)
  moreover have "servers_ok (links w) (w_servers w) (w_next w)" using assms(1) by (simp add: registry_ok_def core_def reg_def)
  ultimately show ?thesis unfolding servers_ok_def core_def fst_conv by blast
qed

lemma registry_match_sock [mt]: "maintains registry_ok (conn_match_sock c s is_client)"
proof (cases is_client)
  case True
  then have eq: "conn_match_sock c s is_client = seq (c_assert (s \<noteq> -1)) (with_conn c (\<lambda>r.
     bind (client_table_get s) (\<lambda>found. case found of
         None \<Rightarrow> throw (Http_exc HTTP_NULL_CONNECTION)
       | Some (p, host) \<Rightarrow> with_conn p (\<lambda>q.
           if host \<noteq> c_host r then throw (Http_exc HTTP_INVALID_CONNECTION)
           else if c_other q \<noteq> None then throw (Http_exc HTTP_MATCHED_CONNECTION)
           else if \<not> strcaseeq (cstr (c_dev_id q)) (cstr (c_dev_id r)) then throw (Http_exc HTTP_DEVICE_ID_DIFFERENT)
           else conn_match c p True))))"
    by (simp add: conn_match_sock_def)
  show ?thesis unfolding eq by (intro mt)
next
  case False
  then have eq: "conn_match_sock c s is_client = seq (c_assert (s \<noteq> -1)) (with_conn c (\<lambda>r.
     bind (server_table_get (cstr (c_dev_id r)) s) (\<lambda>found. case found of
         None \<Rightarrow> request_new_server c
       | Some (p, host) \<Rightarrow> with_conn p (\<lambda>q.
           if host \<noteq> c_host r \<or> c_other q \<noteq> None then request_new_server c else conn_match c p False))))"
    unfolding conn_match_sock_def by (simp only: if_False)
  have "safe_at (bind (server_table_get d s) (\<lambda>found. case found of
         None \<Rightarrow> request_new_server c
       | Some (p, host) \<Rightarrow> with_conn p (\<lambda>q.
           if host \<noteq> c_host r \<or> c_other q \<noteq> None then request_new_server c else conn_match c p False))) w"
    if ok: "registry_ok w" for d r w
  proof (rule safe_bind [OF core_server_get ok])
    fix found w1 assume w1: "server_table_get d s w = (Val found, w1)" "core w1 = core w"
    have ok1: "registry_ok w1" using ok w1(2) by (simp add: registry_ok_def)
    have req: "safe_at (request_new_server c) w1" by (rule safe_maintains [OF _ ok1]) (intro mt)
    show "safe_at (case found of None \<Rightarrow> request_new_server c
       | Some (p, host) \<Rightarrow> with_conn p (\<lambda>q.
           if host \<noteq> c_host r \<or> c_other q \<noteq> None then request_new_server c else conn_match c p False)) w1"
    proof (cases found)
      case None
      with req show ?thesis by simp
    next
      case (Some ph)
      obtain p h where ph: "ph = (p, h)" by fastforce
      have "safe_at (conn_match c p False) w1"
        using server_table_get_not_client [OF ok] w1 Some ph by (intro safe_conn_match ok1) simp
      with req Some ph show ?thesis by (auto intro: safe_with_conn)
    qed
  qed
  then have "maintains registry_ok (bind (server_table_get d s) (\<lambda>found. case found of
         None \<Rightarrow> request_new_server c
       | Some (p, host) \<Rightarrow> with_conn p (\<lambda>q.
           if host \<noteq> c_host r \<or> c_other q \<noteq> None then request_new_server c else conn_match c p False)))" for d r
    by (rule maintains_safe)
  then show ?thesis unfolding eq by (intro maintains_seq maintains_basic maintains_with_conn)
qed

lemma registry_match_client [mt]: "maintains registry_ok (match_client c s)"
  unfolding match_client_def by (intro mt)

section \<open>Requests\<close>

lemma registry_replace_partner:
  assumes "registry_ok w" "fst (core w) c = Some (Some p, t, s)" "maintains registry_ok n"
  shows "safe_at (seq (conn_destroy p) (seq (set_other c None) n)) w"
proof (rule safe_then [OF faults_conn(3)], rule safe_then [OF only_faults_set_other])
  fix w1 w2 assume 1: "conn_destroy p w = (Val (), w1)" and 2: "set_other c None w1 = (Val (), w2)"
  obtain r where r: "w_conns w c = Some r" "c_other r = Some p" using assms(2) by (auto simp: fst_core conn_key_def)
  show "safe_at n w2" by (rule safe_maintains [OF assms(3) registry_destroy_linked [OF assms(1) r 1 2]])
qed

lemma core_stream_upd [wp]: "keeps (core_is v) (stream_upd c f)"
  by (rule core_flags)

lemmas registry_conn_queue [mt] = core_conn_queue [THEN registry_keeps] core_stream_upd [THEN registry_keeps]

lemma registry_handle_uri_client [mt]: "maintains registry_ok (handle_uri_client c b d)"
proof (rule maintains_safe)
  fix w assume ok: "registry_ok w"
  have plain: "maintains registry_ok (block [conn_upd c (\<lambda>r. r\<lparr>c_in := q_push (c_in r) b\<rparr>), stream_upd c (s_buf_update (\<lambda>_. None)),
           match_server c (Some d) False])" by (intro mt)
  have other: "maintains registry_ok (block [conn_upd p (\<lambda>q. q\<lparr>c_out := q_push (c_out q) b\<rparr>), stream_upd c (s_buf_update (\<lambda>_. None)),
      async_send p OTHER_WR_ERROR])" for p by (intro mt)
  have new: "safe_at (block [conn_upd c (\<lambda>r. r\<lparr>c_in := q_push (c_in r) b\<rparr>), stream_upd c (s_buf_update (\<lambda>_. None)),
           with_conn p (\<lambda>q. c_assert (c_type q = BUSY_SERVER)),
           conn_destroy p, set_other c None, match_server c (Some d) False]) w"
    if k: "fst (core w) c = Some (Some p, t, s)" for p t s
  proof (unfold block.simps, rule safe_seq [OF core_conn_queue(2) ok], rule safe_seq [OF core_stream_upd], rule_tac [2] safe_seq)
    fix w1 assume 1: "core w1 = core w"
    then show ok1: "registry_ok w1" using ok by (simp add: registry_ok_def)
    fix w2 assume 2: "core w2 = core w1"
    then show ok2: "registry_ok w2" using ok1 by (simp add: registry_ok_def)
    show "keeps (core_is (core w2)) (with_conn p (\<lambda>q. c_assert (c_type q = BUSY_SERVER)))" by (intro wp)
    fix w3 assume 3: "core w3 = core w2"
    then have "registry_ok w3" using ok2 by (simp add: registry_ok_def)
    moreover have "fst (core w3) c = Some (Some p, t, s)" using k 1 2 3 by simp
    ultimately show "safe_at (seq (conn_destroy p) (seq (set_other c None) (seq (match_server c (Some d) False) (ret ())))) w3"
      by (rule registry_replace_partner) (intro mt)
  qed
  show "safe_at (handle_uri_client c b d) w"
    unfolding handle_uri_client_def
  proof (rule safe_with_conn)
    fix r assume r: "w_conns w c = Some r"
    show "safe_at (case c_other r of Some p \<Rightarrow>
        if strcaseeq (cstr (c_dev_id r)) d then block
          [conn_upd p (\<lambda>q. q\<lparr>c_out := q_push (c_out q) b\<rparr>), stream_upd c (s_buf_update (\<lambda>_. None)), async_send p OTHER_WR_ERROR]
        else block
          [conn_upd c (\<lambda>r. r\<lparr>c_in := q_push (c_in r) b\<rparr>), stream_upd c (s_buf_update (\<lambda>_. None)),
           with_conn p (\<lambda>q. c_assert (c_type q = BUSY_SERVER)),
           conn_destroy p, set_other c None, match_server c (Some d) False]
    | None \<Rightarrow> block
          [conn_upd c (\<lambda>r. r\<lparr>c_in := q_push (c_in r) b\<rparr>), stream_upd c (s_buf_update (\<lambda>_. None)),
           match_server c (Some d) False]) w"
    proof (cases "c_other r")
      case None
      then show ?thesis using safe_maintains [OF plain ok] by simp
    next
      case (Some p)
      have k: "fst (core w) c = Some (Some p, c_type r = CLIENT, c_sock r)" using r Some by (simp add: fst_core conn_key_def)
      show ?thesis using safe_maintains [OF other ok, of p] new [OF k] Some by simp
    qed
  qed
qed

text \<open>A device registers: out of one table, into the other, and no longer a client, as one step.\<close>

definition register_server :: "cid \<Rightarrow> unit act" where
  "register_server c = seq (with_conn c (\<lambda>r. bind (client_table_remove (c_sock r)) c_assert))
     (seq (server_table_add c) (set_type c IDLE_SERVER))"

lemma register_server_Val:
  assumes "register_server c w = (Val u, w')"
  shows "\<exists>r. w_conns w c = Some r \<and> w' = w\<lparr>w_clients := al_erase (w_clients w) (c_sock r),
     w_servers := mm_insert (w_servers w) (c_dev_id r) c, w_conns := (w_conns w)(c \<mapsto> r\<lparr>c_type := IDLE_SERVER\<rparr>)\<rparr>"
  using assms
  by (auto simp: register_server_def val_simps client_table_remove_def server_table_add_def set_type_def split: if_splits)

lemma reg_register:
  assumes "registry_ok w" "register_server c w = (Val u, w')"
  shows "registry_ok w'"
proof -
  obtain r where r: "w_conns w c = Some r" and w': "w' = w\<lparr>w_clients := al_erase (w_clients w) (c_sock r),
     w_servers := mm_insert (w_servers w) (c_dev_id r) c, w_conns := (w_conns w)(c \<mapsto> r\<lparr>c_type := IDLE_SERVER\<rparr>)\<rparr>"
    using register_server_Val [OF assms(2)] by blast
  let ?L = "links w" and ?k = "(c_other r, c_type r = CLIENT, c_sock r)"
  have Lc: "?L c = Some ?k" using r by (simp add: links_def conn_key_def)
  have L': "links w' = ?L(c \<mapsto> (c_other r, False, c_sock r))" by (auto simp: w' links_def conn_key_def fun_eq_iff)
  have old: "pairs_ok {} ?L" "clients_ok ?L (w_clients w)" "servers_ok ?L (w_servers w) (w_next w)" "\<forall>c. ?L c \<noteq> None \<longrightarrow> c < w_next w"
    using assms(1) by (simp_all add: registry_ok_def reg_def core_def)
  have "pairs_ok {} (links w')"
    unfolding pairs_ok_def
  proof (intro allI impI)
    fix d e t s assume "d \<notin> {}" and d: "links w' d = Some (Some e, t, s)"
    then obtain t0 where "?L d = Some (Some e, t0, s)" using Lc by (auto simp: L' split: if_splits)
    then obtain t1 s1 where "?L e = Some (Some d, t1, s1)" using old(1) unfolding pairs_ok_def by blast
    then show "e \<notin> {} \<and> (\<exists>t' s'. links w' e = Some (Some d, t', s'))" using Lc by (auto simp: L')
  qed
  moreover have "clients_ok (links w') (w_clients w')"
    unfolding clients_ok_def
  proof (intro allI impI)
    fix k d assume "(k, d) \<in> set (w_clients w')"
    then have d: "(k, d) \<in> set (w_clients w)" "k \<noteq> c_sock r" by (auto simp: w' al_erase_def)
    then obtain p where p: "?L d = Some (p, True, k)" using old(2) unfolding clients_ok_def by blast
    then have "d \<noteq> c" using Lc d(2) by auto
    with p show "\<exists>p. links w' d = Some (p, True, k)" by (simp add: L')
  qed
  moreover have "servers_ok (links w') (w_servers w') (w_next w')"
    unfolding servers_ok_def
  proof (intro allI impI)
    fix k d assume "(k, d) \<in> set (w_servers w')"
    then have "d = c \<or> (k, d) \<in> set (w_servers w)" by (auto simp: w')
    then have "d < w_next w \<and> (d = c \<or> (\<forall>p t s. ?L d = Some (p, t, s) \<longrightarrow> \<not> t))"
      using old(3,4) Lc unfolding servers_ok_def by blast
    then show "d < w_next w' \<and> (\<forall>p t s. links w' d = Some (p, t, s) \<longrightarrow> \<not> t)"
      by (cases "d = c") (auto simp: L', auto simp: w')
  qed
  moreover have "\<forall>d. links w' d \<noteq> None \<longrightarrow> d < w_next w'" using old(4) Lc by (auto simp: L') (simp_all add: w')
  ultimately show ?thesis by (simp add: registry_ok_def reg_def core_def)
qed

lemma only_faults_register: "only_faults (register_server c)"
  unfolding register_server_def server_table_add_def by (intro faults)

lemma registry_register [mt]: "maintains registry_ok (register_server c)"
  by (rule maintains_only_faults [OF only_faults_register reg_register])

lemma seq_assoc: "seq (seq a b) d = seq a (seq b d)"
  by (auto simp: seq_def bind_def fun_eq_iff split: prod.splits result.splits)

lemma registry_handle_uri_server [mt]: "maintains registry_ok (handle_uri_server c data d s)"
proof -
  have "handle_uri_server c data d s = seq (conn_upd c (\<lambda>r. r\<lparr>c_dev_id := d\<rparr>))
      (seq (stream_upd c (s_buf_update (map_option (b_data_update (\<lambda>_. data)))))
      (seq (register_server c) (seq (match_client c s) (ret ()))))"
    by (simp add: handle_uri_server_def register_server_def seq_assoc)
  then show ?thesis by (simp only:) (intro mt)
qed

lemma maintains_bool_case [mt]: "maintains I a \<Longrightarrow> maintains I b \<Longrightarrow> maintains I (case x of True \<Rightarrow> a | False \<Rightarrow> b)"
  by (cases x) simp_all

lemma registry_handle_uri [mt]: "maintains registry_ok (handle_uri c verb ptr len)"
  unfolding handle_uri_def Let_def by (intro mt)

section \<open>Reading\<close>

lemma core_set_stream [wp]: "keeps (core_is v) (set_buf c b)" "keeps (core_is v) (set_state c s)"
  unfolding set_buf_def set_state_def by (rule core_stream_upd)+

lemma core_conn_recv [wp]: "keeps (core_is v) (conn_recv c n)"
  by (rule keepsI)
    (auto simp: conn_recv_def seq_def bind_def with_conn_def conn_get_def ret_def Let_def core_def links_def
      split: option.splits list.splits rx.splits)

lemmas registry_stream [mt] = core_set_stream [THEN registry_keeps] core_conn_recv [THEN registry_keeps]

lemma maintains_with_buf [mt]: "(\<And>s b. maintains I (f s b)) \<Longrightarrow> maintains I (with_buf c f)"
  unfolding with_buf_def by (intro mt)

lemma maintains_op_code [mt]:
  "(\<And>k. maintains I (a k)) \<Longrightarrow> maintains I b \<Longrightarrow> maintains I d \<Longrightarrow> maintains I e \<Longrightarrow>
   maintains I (case op of OP_SIZE k \<Rightarrow> a k | OP_AGAIN \<Rightarrow> b | OP_CLOSE \<Rightarrow> d | OP_ERROR \<Rightarrow> e)"
  by (cases op) simp_all

lemma maintains_parse_ret [mt]:
  "(\<And>ps. maintains I (a ps)) \<Longrightarrow> (\<And>ps. maintains I (b ps)) \<Longrightarrow> (\<And>ps. maintains I (d ps)) \<Longrightarrow> (\<And>ps. maintains I (e ps)) \<Longrightarrow>
   maintains I (case x of (PFail, ps) \<Rightarrow> a ps | (POk, ps) \<Rightarrow> b ps | (PMore, ps) \<Rightarrow> d ps | (PDangling, ps) \<Rightarrow> e ps)"
  by (cases x; cases "fst x") auto

lemma maintains_read_state [mt]:
  "maintains I a \<Longrightarrow> maintains I b \<Longrightarrow> maintains I d \<Longrightarrow>
   maintains I (case st of reading_header \<Rightarrow> a | reading_body \<Rightarrow> b | reading_trailer \<Rightarrow> d)"
  by (cases st) simp_all

lemma registry_recv_append [mt]: "maintains registry_ok (recv_append c n)"
  unfolding recv_append_def by (intro mt)

lemma registry_events [mt]: "maintains registry_ok (handle_special_request c)" "maintains registry_ok (onBody c)"
  unfolding handle_special_request_def onBody_def Let_def by (intro mt)+

lemma registry_onHeader [mt]: "maintains registry_ok (onHeader c)"
  unfolding onHeader_def Let_def by (intro mt)

lemma registry_read_parts [mt]: "maintains registry_ok (header_complete c)" "maintains registry_ok (chunk_size_line c)"
    "maintains registry_ok (read_content c)"
  unfolding header_complete_def chunk_size_line_def read_content_def Let_def by (intro mt)+

lemma registry_read_message [mt]: "maintains registry_ok (read_message c)"
  unfolding read_message_def read_header_def read_body_def read_trailer_def read_chunk_size_def onHeaderError_def
    onBodyError_def onTrailerError_def Let_def
  by (intro mt)

lemma registry_after_part [mt]: "maintains registry_ok (after_part c)"
  unfolding after_part_def Let_def by (intro mt)

lemma maintainsD: "maintains I m \<Longrightarrow> I w \<Longrightarrow> m w = (Val x, w') \<Longrightarrow> I w'"
  "maintains I m \<Longrightarrow> I w \<Longrightarrow> m w = (Exc e, w') \<Longrightarrow> is_fault e \<or> I w'"
  by (force simp: maintains_def triple_def)+

lemma safe_read_request: "registry_ok w \<Longrightarrow> safe_at (read_request c) w"
proof (induction c w rule: read_request.induct)
  case (1 c w)
  obtain r w1 where r: "read_message c w = (r, w1)" by fastforce
  note step = read_request.simps [of c w]
  show ?case
  proof (cases r)
    case (Exc e)
    with r step maintainsD(2) [OF registry_read_message 1(2)] show ?thesis by (simp add: safe_at_def)
  next
    case (Val ds)
    have ok1: "registry_ok w1" using maintainsD(1) [OF registry_read_message 1(2)] r Val by simp
    show ?thesis
    proof (cases "ds = data_finish")
      case False
      with step r Val ok1 show ?thesis by (simp add: safe_at_def onReadError_def throw_def)
    next
      case True
      obtain r2 w2 where r2: "after_part c w1 = (r2, w2)" by fastforce
      show ?thesis
      proof (cases r2)
        case (Exc e)
        with r Val True r2 step maintainsD(2) [OF registry_after_part ok1] show ?thesis by (simp add: safe_at_def)
      next
        case v2: (Val stop)
        have ok2: "registry_ok w2" using maintainsD(1) [OF registry_after_part ok1] r2 v2 by simp
        show ?thesis
        proof (cases stop)
          case True
          with \<open>ds = data_finish\<close> r Val r2 v2 step ok2 show ?thesis by (simp add: safe_at_def)
        next
          case False
          have "safe_at (read_request c) w2"
            using 1(1) [OF r [symmetric] Val \<open>ds = data_finish\<close> r2 [symmetric] v2 False ok2] .
          with \<open>ds = data_finish\<close> r Val r2 v2 step False show ?thesis by (simp add: safe_at_def)
        qed
      qed
    qed
  qed
qed

lemma registry_pass_through [mt]: "maintains registry_ok (pass_through c p)"
  unfolding pass_through_def Let_def by (intro mt)

lemma safe_pass_loop: "registry_ok w \<Longrightarrow> safe_at (pass_loop c p) w"
proof (induction c p w rule: pass_loop.induct)
  case (1 c p w)
  obtain r w1 where r: "pass_through c p w = (r, w1)" by fastforce
  note step = pass_loop.simps [of c p w]
  show ?case
  proof (cases r)
    case (Exc e)
    with r step maintainsD(2) [OF registry_pass_through 1(2)] show ?thesis by (simp add: safe_at_def)
  next
    case (Val stop)
    have ok1: "registry_ok w1" using maintainsD(1) [OF registry_pass_through 1(2)] r Val by simp
    show ?thesis
    proof (cases stop)
      case True
      with r Val step ok1 show ?thesis by (simp add: safe_at_def)
    next
      case False
      with 1(1) [OF r [symmetric] Val False ok1] r Val step show ?thesis by (simp add: safe_at_def)
    qed
  qed
qed

lemma registry_read [mt]: "maintains registry_ok (read_request c)" "maintains registry_ok (pass_loop c p)"
  by (rule maintains_safe, erule safe_read_request) (rule maintains_safe, erule safe_pass_loop)

section \<open>A new connection\<close>

lemma conn_create_Val:
  assumes "conn_create sock ip port ssl w = (Val c, w')"
  shows "\<exists>r. c = w_next w \<and> conn_key r = (None, True, sock) \<and> map_of (w_clients w) sock = None \<and>
    w' = w\<lparr>w_next := Suc c, w_conns := (w_conns w)(c \<mapsto> r), w_clients := al_insert (w_clients w) sock c\<rparr>"
proof -
  define r where "r = (let r = new_conn sock ip port in if ssl then r\<lparr>c_flag := set_flag (c_flag r) MASK_BIT_SSL\<rparr> else r)"
  let ?w1 = "w\<lparr>w_next := Suc (w_next w), w_conns := (w_conns w)(w_next w \<mapsto> r)\<rparr>"
  have sock: "c_sock r = sock" by (simp add: r_def Let_def new_conn_def)
  have "c = w_next w \<and> client_table_add c ?w1 = (Val (), w')"
    using assms unfolding conn_create_def by (auto simp: val_simps r_def)
  then have "c = w_next w" "map_of (w_clients w) sock = None" "w' = w_clients_update (\<lambda>m. al_insert m sock c) ?w1"
    using sock by (auto simp: client_table_add_def val_simps)
  then show ?thesis by (intro exI [of _ r]) (simp add: conn_key_def r_def Let_def new_conn_def)
qed

lemma reg_create:
  assumes "registry_ok w" "conn_create sock ip port ssl w = (Val c, w')"
  shows "registry_ok w'"
proof -
  obtain r where r: "c = w_next w" "conn_key r = (None, True, sock)" "map_of (w_clients w) sock = None"
      "w' = w\<lparr>w_next := Suc c, w_conns := (w_conns w)(c \<mapsto> r), w_clients := al_insert (w_clients w) sock c\<rparr>"
    using conn_create_Val [OF assms(2)] by blast
  let ?L = "links w"
  have old: "pairs_ok {} ?L" "clients_ok ?L (w_clients w)" "servers_ok ?L (w_servers w) (w_next w)" "\<forall>c. ?L c \<noteq> None \<longrightarrow> c < w_next w"
    using assms(1) by (simp_all add: registry_ok_def reg_def core_def)
  have L': "links w' = ?L(c \<mapsto> (None, True, sock))" by (auto simp: r(4) links_def r(2) fun_eq_iff)
  have fresh: "?L c = None" using old(4) [rule_format, of "w_next w"] r(1) by blast
  have "pairs_ok {} (links w')"
    unfolding pairs_ok_def
  proof (intro allI impI)
    fix d e t s assume "d \<notin> {}" "links w' d = Some (Some e, t, s)"
    then have "?L d = Some (Some e, t, s)" by (auto simp: L' split: if_splits)
    then obtain t1 s1 where "?L e = Some (Some d, t1, s1)" using old(1) unfolding pairs_ok_def by blast
    with fresh show "e \<notin> {} \<and> (\<exists>t' s'. links w' e = Some (Some d, t', s'))" by (auto simp: L')
  qed
  moreover have "clients_ok (links w') (w_clients w')"
    unfolding clients_ok_def
  proof (intro allI impI)
    fix k d assume "(k, d) \<in> set (w_clients w')"
    then have "(k, d) = (sock, c) \<or> (k, d) \<in> set (w_clients w)" by (auto simp: r(4) al_insert_def split: option.splits)
    then show "\<exists>p. links w' d = Some (p, True, k)"
    proof
      assume "(k, d) \<in> set (w_clients w)"
      then obtain p where "?L d = Some (p, True, k)" using old(2) unfolding clients_ok_def by blast
      with fresh show ?thesis by (auto simp: L')
    qed (simp add: L')
  qed
  moreover have "servers_ok (links w') (w_servers w') (w_next w')"
    unfolding servers_ok_def
  proof (intro allI impI)
    fix k d assume "(k, d) \<in> set (w_servers w')"
    then have "(k, d) \<in> set (w_servers w)" by (simp add: r(4))
    then have "d < w_next w" "\<forall>p t s. ?L d = Some (p, t, s) \<longrightarrow> \<not> t" using old(3) unfolding servers_ok_def by blast+
    then show "d < w_next w' \<and> (\<forall>p t s. links w' d = Some (p, t, s) \<longrightarrow> \<not> t)"
      unfolding L' by (auto simp: r(1,4))
  qed
  moreover have "\<forall>d. links w' d \<noteq> None \<longrightarrow> d < w_next w'" unfolding L' using old(4) by (auto simp: r(1,4) less_Suc_eq)
  ultimately show ?thesis by (simp add: registry_ok_def reg_def core_def)
qed

lemma registry_conn_create [mt]: "maintains registry_ok (conn_create sock ip port ssl)"
  by (rule maintains_only_faults [OF faults_conn(6) reg_create])

lemma conn_create_alone:
  "conn_create sock ip port ssl w = (Val c, w') \<Longrightarrow> fst (core w') c = Some (None, True, sock)"
  using conn_create_Val [of sock ip port ssl w c w'] by (auto simp: fst_core)

section \<open>The handlers\<close>

lemma maintains_exc [mt]:
  "(\<And>x. maintains I (a x)) \<Longrightarrow> (\<And>x. maintains I (b x)) \<Longrightarrow> maintains I d \<Longrightarrow> (\<And>x. maintains I (f x)) \<Longrightarrow>
   maintains I (case e of Http_exc x \<Rightarrow> a x | Io_exc x \<Rightarrow> b x | Std_exc \<Rightarrow> d | Fault x \<Rightarrow> f x)"
  by (cases e) simp_all

lemma registry_handle_read [mt]: "maintains registry_ok (handle_read c)"
proof (rule maintains_safe)
  fix w assume ok: "registry_ok w"
  have tail: "maintains registry_ok (with_conn c (\<lambda>r.
          if c_type r = CLIENT then read_request c else if c_other r \<noteq> None then read_response c else conn_destroy c))"
  proof (rule maintains_safe, rule safe_with_conn)
    fix w r assume ok: "registry_ok w" and r: "w_conns w c = Some r"
    have "safe_at (conn_destroy c) w" if "c_other r = None"
    proof -
      obtain x w1 where x: "conn_destroy c w = (x, w1)" by fastforce
      then show ?thesis
        using registry_destroy_alone [OF ok r that] faults_conn(3) [of c] by (cases x) (auto simp: safe_at_def only_faults_def)
    qed
    moreover have "safe_at (read_request c) w" "safe_at (read_response c) w"
      using ok by (auto intro!: safe_maintains mt simp: read_response_def read_message_no_parse_def)
    ultimately show "safe_at (if c_type r = CLIENT then read_request c else if c_other r \<noteq> None then read_response c else conn_destroy c) w"
      by simp
  qed
  show "safe_at (handle_read c) w"
    unfolding handle_read_def read_failed_def
    by (rule safe_maintains [OF _ ok]) (intro maintains_with_conn maintains_only_if maintains_try maintains_seq tail mt)
qed

lemma registry_handle_write [mt]: "maintains registry_ok (handle_write c)"
  unfolding handle_write_def by (intro mt)

lemma registry_handle_timeout [mt]: "maintains registry_ok (handle_timeout c)"
  unfolding handle_timeout_def by (intro mt)

lemma registry_worker_get [mt]: "maintains registry_ok (worker_get h)"
  by (rule registry_keeps [OF keeps_worker_get])

lemma registry_clear_loop [mt]: "maintains registry_ok (clear_loop b cs)"
  by (induction cs) (auto intro!: mt simp: evict_def)

lemma registry_wheel [mt]: "maintains registry_ok (wheel_tick h)"
  unfolding wheel_tick_def bucket_assign_empty_def conn_bucket_clear_def Let_def by (intro mt)

section \<open>No standard exception after the attachment\<close>

definition no_std :: "'a act \<Rightarrow> bool" where
  "no_std m \<longleftrightarrow> (\<forall>w w'. m w \<noteq> (Exc Std_exc, w'))"

named_theorems std \<open>actions that throw no standard exception\<close>

lemma std_faults: "only_faults m \<Longrightarrow> no_std m"
  by (force simp: only_faults_def no_std_def is_fault_def)

lemma std_throw [std]: "e \<noteq> Std_exc \<Longrightarrow> no_std (throw e)"
  by (simp add: no_std_def throw_def)

lemma std_bind [std]: "no_std m \<Longrightarrow> (\<And>x. no_std (f x)) \<Longrightarrow> no_std (bind m f)"
  unfolding no_std_def bind_def by (fastforce split: prod.splits result.splits)

lemma std_seq [std]: "no_std m \<Longrightarrow> no_std n \<Longrightarrow> no_std (seq m n)"
  unfolding seq_def by (intro std)

lemma std_with_conn [std]: "(\<And>r. no_std (f r)) \<Longrightarrow> no_std (with_conn c f)"
  unfolding with_conn_def by (rule std_bind [OF std_faults [OF faults_basic(4)]])

lemma std_if [std]: "no_std m \<Longrightarrow> no_std n \<Longrightarrow> no_std (if b then m else n)"
  by simp

lemma std_option [std]: "no_std m \<Longrightarrow> (\<And>x. no_std (f x)) \<Longrightarrow> no_std (case p of None \<Rightarrow> m | Some x \<Rightarrow> f x)"
  by (cases p) simp_all

lemma std_prod [std]: "(\<And>a b. no_std (g a b)) \<Longrightarrow> no_std (case x of (a, b) \<Rightarrow> g a b)"
  by (cases x) simp

lemma std_Let [std]: "no_std (f x) \<Longrightarrow> no_std (Let x f)"
  by simp

lemma std_send_mode [std]: "no_std a \<Longrightarrow> no_std b \<Longrightarrow> no_std d \<Longrightarrow>
   no_std (case flag of nosend \<Rightarrow> a | send_close \<Rightarrow> b | send_keepalive \<Rightarrow> d)"
  by (cases flag) simp_all

lemma std_unit [std]: "no_std m \<Longrightarrow> no_std (only_if b m)" "no_std (block [])" "no_std m \<Longrightarrow> no_std (block ms) \<Longrightarrow> no_std (block (m # ms))"
  by (simp_all add: only_if_def std_faults faults std)

lemma std_basic [std]: "no_std (ret x)" "no_std (c_assert b)" "no_std (reads h)" "no_std (modify k)" "no_std outcome"
    "no_std (conn_upd c g)" "no_std (set_flags c m)" "no_std (clear_flags c m)" "no_std (set_type c t)" "no_std (set_other c p)"
    "no_std (timer_add c)" "no_std (timer_del c)" "no_std (enable_read c)" "no_std (conn_update c)" "no_std (worker_upd h' g')"
    "no_std (worker_get h')"
  by (intro std_faults faults)+

lemma std_send_loop [std]: "no_std (send_loop c)"
proof -
  have "fst (send_loop c w) \<noteq> Exc Std_exc" for w
  proof (induction c w rule: send_loop.induct)
    case (1 c w)
    show ?case
      by (subst send_loop.simps) (auto split: option.splits prod.splits op_code.splits simp: 1 [OF _ _ sym refl])
  qed
  then show ?thesis unfolding no_std_def by (metis fst_conv)
qed

lemma std_send [std]: "no_std (async_send c f)"
  unfolding async_send_def async_send_impl_def by (intro std; simp)

lemma std_send_ok [std]: "no_std (send_ok c b flag)"
  unfolding send_ok_def send_response_def by (intro std; simp)

lemma std_find_sock [std]: "no_std (find_sock cs s)"
  by (induction cs) (auto intro!: std)

lemma std_match [std]: "no_std (conn_match_sock c s b)"
  unfolding conn_match_sock_def conn_match_def request_new_server_def client_table_get_def server_table_get_def
  by (intro std; simp)

section \<open>Messages from other threads\<close>

text \<open>
  A connection that is handed over by another worker and cannot be registered is deleted
  without a look at its partner: while a worker handles its pipe, the calls are to succeed.
\<close>

definition std_free :: "'a act \<Rightarrow> bool" where
  "std_free m \<longleftrightarrow> (\<forall>w w'. calls_ok w \<longrightarrow> m w \<noteq> (Exc Std_exc, w'))"

lemma std_free_bind: "no_std m \<Longrightarrow> keeps calls_ok m \<Longrightarrow> (\<And>x. std_free (f x)) \<Longrightarrow> std_free (bind m f)"
  unfolding std_free_def
proof (intro allI impI)
  fix w w' assume m: "no_std m" "keeps calls_ok m" and f: "\<And>x. \<forall>w w'. calls_ok w \<longrightarrow> f x w \<noteq> (Exc Std_exc, w')" and ok: "calls_ok w"
  obtain r w1 where r: "m w = (r, w1)" by fastforce
  then have "calls_ok w1" using keepsD [OF m(2) ok] by simp
  then show "bind m f w \<noteq> (Exc Std_exc, w')" using r m(1) f by (cases r) (auto simp: bind_def no_std_def)
qed

lemma std_free_outcome: "std_free n \<Longrightarrow> std_free (bind outcome (\<lambda>ok. if \<not> ok then throw Std_exc else n))"
  by (auto simp: std_free_def bind_def outcome_def calls_ok_def throw_def split: list.splits)

lemma no_std_free: "no_std m \<Longrightarrow> std_free m"
  by (simp add: no_std_def std_free_def)

lemma std_free_attach: "std_free (conn_attach c h)"
proof -
  have basic: "no_std (back_bucket h)" "no_std (bucket_insert t c)" for t by (intro std_faults faults)+
  show ?thesis
    unfolding conn_attach_def
    by (intro std_free_bind basic ok.frame_buckets, unfold seq_def [of "c_assert _"], intro std_free_bind std_basic keeps_assert std_free_outcome)
      (intro no_std_free std; simp)
qed

definition handling_ok :: "world \<Rightarrow> bool" where
  "handling_ok w \<longleftrightarrow> registry_ok w \<and> calls_ok w"

lemma maintains_handling: "maintains registry_ok m \<Longrightarrow> keeps calls_ok m \<Longrightarrow> maintains handling_ok m"
proof -
  assume m: "maintains registry_ok m" and k: "keeps calls_ok m"
  have "case m w of (Val x, w') \<Rightarrow> handling_ok w' | (Exc e, w') \<Rightarrow> is_fault e \<or> handling_ok w'" if w: "handling_ok w" for w
  proof -
    have "safe_at m w" "calls_ok (snd (m w))" using w safe_maintains [OF m] keepsD [OF k] by (simp_all add: handling_ok_def)
    then show ?thesis by (auto simp: safe_at_def handling_ok_def split: prod.splits result.splits)
  qed
  then show ?thesis unfolding maintains_def by (rule tripleI)
qed

lemma safe_try:
  assumes "safe_at m w" "\<And>e w1. m w = (Exc e, w1) \<Longrightarrow> \<not> is_fault e \<Longrightarrow> safe_at (h e) w1"
  shows "safe_at (try_catch m h) w"
proof -
  obtain r w1 where r: "m w = (r, w1)" by fastforce
  with assms show ?thesis by (cases r) (auto simp: safe_at_def try_catch_def)
qed

lemma safe_destroy_alone:
  assumes "registry_ok w" "fst (core w) c = Some (None, t, s)"
  shows "safe_at (conn_destroy c) w"
proof -
  obtain r where r: "w_conns w c = Some r" "c_other r = None" using assms(2) by (auto simp: fst_core conn_key_def)
  obtain x w1 where x: "conn_destroy c w = (x, w1)" by fastforce
  then show ?thesis
    using registry_destroy_alone [OF assms(1) r] faults_conn(3) [of c] by (cases x) (auto simp: safe_at_def only_faults_def)
qed

lemma registry_message_failed:
  "e \<noteq> Std_exc \<Longrightarrow> \<not> is_fault e \<Longrightarrow> registry_ok w \<Longrightarrow> safe_at (message_failed c e) w"
  by (cases e) (auto simp: message_failed_def is_fault_def intro!: safe_maintains mt)

lemma registry_add_sock: "maintains registry_ok (bind (conn_create sock ip port ssl) (\<lambda>c. try_catch (conn_attach c h) (message_failed c)))"
proof (rule maintains_safe)
  fix w assume ok: "registry_ok w"
  obtain r w1 where r: "conn_create sock ip port ssl w = (r, w1)" by fastforce
  show "safe_at (bind (conn_create sock ip port ssl) (\<lambda>c. try_catch (conn_attach c h) (message_failed c))) w"
  proof (cases r)
    case (Exc e)
    with r faults_conn(6) [of sock ip port ssl] show ?thesis by (auto simp: safe_at_def bind_def only_faults_def)
  next
    case (Val c)
    have ok1: "registry_ok w1" using reg_create [OF ok] r Val by simp
    have alone: "fst (core w1) c = Some (None, True, sock)" using conn_create_alone r Val by blast
    have "safe_at (try_catch (conn_attach c h) (message_failed c)) w1"
    proof (rule safe_try)
      show "safe_at (conn_attach c h) w1" by (rule safe_maintains [OF _ ok1]) (intro mt)
      fix e w2 assume "conn_attach c h w1 = (Exc e, w2)" "\<not> is_fault e"
      then have eq: "core w2 = core w1" by (intro core_eqD [OF core_attach(1)])
      then have ok2: "registry_ok w2" using ok1 by (simp add: registry_ok_def)
      have destroy: "safe_at (conn_destroy c) w2" using safe_destroy_alone [OF ok2] alone eq by simp
      show "safe_at (message_failed c e) w2"
        using registry_message_failed [of e w2 c] ok2 destroy \<open>\<not> is_fault e\<close> by (cases e) (simp_all add: message_failed_def)
    qed
    with r Val show ?thesis by (simp add: safe_at_def bind_def)
  qed
qed

lemma ok_message [wp]: "keeps calls_ok (handle_message h m)"
proof -
  have failed: "keeps calls_ok (message_failed c e)" for c e by (cases e) (simp_all add: message_failed_def wp)
  show ?thesis unfolding handle_message_def by (cases m) (auto intro!: wp failed)
qed

lemma handling_message [mt]: "maintains handling_ok (handle_message h m)"
proof -
  have "safe_at (handle_message h m) w" if ok: "registry_ok w" "calls_ok w" for w
  proof (cases m)
    case Exit_worker
    then show ?thesis by (simp add: handle_message_def safe_maintains [OF _ ok(1)] mt)
  next
    case (Add_sock sock ip port ssl)
    with safe_maintains [OF registry_add_sock ok(1)] show ?thesis by (simp add: handle_message_def)
  next
    case (Match_sock src dst flag)
    have "safe_at (try_catch (seq (conn_attach src h) (conn_match_sock src dst flag)) (message_failed src)) w"
    proof (rule safe_try)
      have move: "maintains registry_ok (seq (conn_attach src h) (conn_match_sock src dst flag))" by (intro mt)
      then show "safe_at (seq (conn_attach src h) (conn_match_sock src dst flag)) w" by (rule safe_maintains [OF _ ok(1)])
      fix e w1 assume e: "seq (conn_attach src h) (conn_match_sock src dst flag) w = (Exc e, w1)" "\<not> is_fault e"
      then have "registry_ok w1" using maintainsD(2) [OF move ok(1)] by blast
      moreover have "e \<noteq> Std_exc"
        using e(1) std_free_attach [of src h] std_match [of src dst flag] ok(2)
        by (auto simp: seq_def bind_def std_free_def no_std_def split: prod.splits result.splits)
      ultimately show "safe_at (message_failed src e) w1" using registry_message_failed e(2) by blast
    qed
    then show ?thesis by (simp add: handle_message_def Match_sock)
  qed
  moreover note keepsD [OF ok_message [of h m]]
  ultimately show ?thesis
    unfolding maintains_def handling_ok_def
    by (intro tripleI) (fastforce simp: safe_at_def split: prod.splits result.splits)
qed

lemma handling_round [mt]: "maintains handling_ok (notify_round h)"
proof -
  have get: "maintains handling_ok (worker_get h)" by (rule maintains_handling) (intro registry_keeps wp)+
  have upd: "maintains handling_ok (worker_upd h f)" for f by (rule maintains_handling) (intro mt wp)+
  show ?thesis unfolding notify_round_def by (intro get upd mt)
qed

lemma handling_notify: "maintains handling_ok (handle_notify n h)"
  by (induction n) (auto intro!: mt)

section \<open>Reachable states\<close>

text \<open>
  The runs of the program in which the calls succeed while a worker handles its pipe; the
  peers, the clock, the sizes of reads and writes and all failures elsewhere are free.
\<close>

inductive steady :: "world \<Rightarrow> bool" where
  steady_start: "steady ((start_world g)\<lparr>w_workers := map_of [(h, new_worker n). h \<leftarrow> [0..<k]]\<rparr>)"
| steady_event: "steady w \<Longrightarrow> event_enabled e w \<Longrightarrow> run_event e w = (Val (), w') \<Longrightarrow>
    (\<And>n h. e = Notify_event n h \<Longrightarrow> calls_ok w) \<Longrightarrow> steady w'"
| steady_environment: "steady w \<Longrightarrow> environment_change w w' \<Longrightarrow> steady w'"

lemma steady_reachable: "steady w \<Longrightarrow> reachable w"
  by (induction rule: steady.induct) (auto intro: reachable.intros step.intros)

lemma registry_event:
  assumes "registry_ok w" "run_event e w = (Val (), w')" "\<And>n h. e = Notify_event n h \<Longrightarrow> calls_ok w"
  shows "registry_ok w'"
proof (cases "\<exists>n h. e = Notify_event n h")
  case True
  then obtain n h where e: "e = Notify_event n h" by blast
  then have "handling_ok w" "handle_notify n h w = (Val (), w')"
    using assms by (simp_all add: handling_ok_def run_event_def)
  from maintainsD(1) [OF handling_notify this] show ?thesis by (simp add: handling_ok_def)
next
  case False
  then have "maintains registry_ok (run_event e)"
    by (cases e) (auto simp: run_event_def notify_add_conn_def intro!: mt)
  from maintainsD(1) [OF this assms(1,2)] show ?thesis .
qed

lemma steady_registry: "steady w \<Longrightarrow> registry_ok w"
proof (induction rule: steady.induct)
  case (steady_start g k n)
  show ?case
    by (simp add: registry_ok_def core_def links_def start_world_def reg_def pairs_ok_def clients_ok_def servers_ok_def)
next
  case (steady_event w e w')
  then show ?case using registry_event by blast
next
  case (steady_environment w w')
  then have "core w' = core w" by (auto simp: environment_change_def core_def links_def fun_eq_iff)
  with steady_environment show ?case by (simp add: registry_ok_def)
qed

lemma announced_steady:
  assumes "steady w" "w_workers w h = Some k" "w_ok w = []"
    and "run_event (Accept_event h sock ip port ssl) w = (Val (), w1)" "run_event (Notify_event n h) w1 = (Val (), w2)"
  shows "steady w2"
proof -
  note w1 = accept_run [OF assms(2,3), of sock ip port ssl]
  have s: "steady w1" by (rule steady_event [OF assms(1) _ assms(4)]) (use assms(2) in \<open>simp_all add: event_enabled_def\<close>)
  show ?thesis
  proof (rule steady_event [OF s _ assms(5)])
    show "event_enabled (Notify_event n h) w1" using w1 assms(4) by (auto simp: event_enabled_def)
    show "calls_ok w1" using w1 assms(3,4) by (auto simp: calls_ok_def)
  qed
qed

lemma steady_two_clients: "steady two_clients"
proof -
  have 0: "steady one_worker"
    using steady_start [where g = default_settings and n = 2 and k = 1] by (simp add: one_worker_def)
  note w = one_worker_facts
  have 1: "steady one_client" using joins_once announced_steady [OF 0 w(1,2)] by blast
  show ?thesis using joins_twice announced_steady [OF 1 w(3,4)] by blast
qed



end
