(* ===== verification/Accounting.thy ===== *)
theory Accounting
  imports Scenarios
begin

text \<open>
  The byte count a queue keeps, on which flow control rests: in every reachable state it is
  the number of queued bytes not yet sent, for the queues of every connection.
\<close>

section \<open>A counted queue\<close>

definition q_pending :: "buffer_queue \<Rightarrow> nat" where
  "q_pending q = (\<Sum>b\<leftarrow>q_bufs q. b_dlen b - b_dtran b)"

definition q_counted :: "buffer_queue \<Rightarrow> bool" where
  "q_counted q \<longleftrightarrow> list_all (\<lambda>b. b_dtran b \<le> b_dlen b) (q_bufs q) \<and> q_dsize q = q_pending q mod SIZE_RANGE \<and>
     q_dlow q = default_low_mark \<and> q_dhigh q = default_high_mark"

definition unsent_bufs :: "buffer_queue \<Rightarrow> bool" where
  "unsent_bufs q \<longleftrightarrow> list_all (\<lambda>b. b_dtran b = 0) (q_bufs q)"

lemma counted_new [simp]: "q_counted q_new" "unsent_bufs q_new"
  by (simp_all add: q_counted_def q_pending_def unsent_bufs_def q_new_def)

lemma counted_push: "q_counted q \<Longrightarrow> b_dtran b = 0 \<Longrightarrow> q_counted (q_push q b)"
  by (auto simp: q_counted_def q_pending_def q_push_def)

lemma unsent_push: "unsent_bufs q \<Longrightarrow> b_dtran b = 0 \<Longrightarrow> unsent_bufs (q_push q b)"
  by (simp add: unsent_bufs_def q_push_def)

lemma counted_foldl_push: "q_counted q \<Longrightarrow> list_all (\<lambda>b. b_dtran b = 0) bs \<Longrightarrow> q_counted (foldl q_push q bs)"
  by (induction bs arbitrary: q) (simp_all add: counted_push)

lemma foldl_sub64_unsent:
  "list_all (\<lambda>b. b_dtran b = 0) bs \<Longrightarrow>
   foldl (\<lambda>n b. sub64 n (b_dlen b)) (((\<Sum>b\<leftarrow>bs. b_dlen b - b_dtran b) + k) mod SIZE_RANGE) bs = k mod SIZE_RANGE"
proof (induction bs)
  case (Cons b bs)
  then have "sub64 (((\<Sum>b\<leftarrow>b # bs. b_dlen b - b_dtran b) + k) mod SIZE_RANGE) (b_dlen b) =
      ((\<Sum>b\<leftarrow>bs. b_dlen b - b_dtran b) + k) mod SIZE_RANGE"
    by (subst sub64_mod) simp_all
  with Cons show ?case by simp
qed simp

lemma counted_push_all:
  assumes "q_counted dst" "q_counted src" "unsent_bufs src"
  shows "q_counted (fst (q_push_all dst src))" "q_counted (snd (q_push_all dst src))" "unsent_bufs (snd (q_push_all dst src))"
  using assms counted_foldl_push [of dst "q_bufs src"] foldl_sub64_unsent [of "q_bufs src" 0]
  by (simp_all add: q_push_all_def q_counted_def q_pending_def unsent_bufs_def)

lemma counted_advance:
  assumes "q_counted (c_out r)" "q_top (c_out r) = Some b" "n \<le> length (unsent b)"
  shows "q_counted (c_out (advance_out n r))"
proof -
  obtain bs where bs: "q_bufs (c_out r) = b # bs" using assms(2) by (auto simp: q_top_def split: list.splits)
  have n: "n \<le> b_dlen b - b_dtran b" using assms(3) by (simp add: unsent_def)
  have c: "list_all (\<lambda>b. b_dtran b \<le> b_dlen b) bs" "b_dtran b \<le> b_dlen b"
      "q_dsize (c_out r) = ((b_dlen b - b_dtran b) + (\<Sum>b\<leftarrow>bs. b_dlen b - b_dtran b)) mod SIZE_RANGE"
      "q_dlow (c_out r) = default_low_mark" "q_dhigh (c_out r) = default_high_mark"
    using assms(1) by (simp_all add: q_counted_def q_pending_def bs)
  have "sub64 (q_dsize (c_out r)) n = ((b_dlen b - b_dtran b - n) + (\<Sum>b\<leftarrow>bs. b_dlen b - b_dtran b)) mod SIZE_RANGE"
  proof -
    define S where "S = (\<Sum>b\<leftarrow>bs. b_dlen b - b_dtran b)"
    have "b_dlen b - b_dtran b + S - n = (b_dlen b - b_dtran b - n) + S" using n by linarith
    then show ?thesis using n by (simp add: c(3) flip: S_def)
  qed
  then show ?thesis
    using n c(1,2,4,5) by (auto simp: advance_out_def bs Let_def q_pop_def q_consume_size_def q_counted_def q_pending_def)
qed

section \<open>Every connection\<close>

definition conn_counted :: "conn \<Rightarrow> bool" where
  "conn_counted r \<longleftrightarrow> q_counted (c_out r) \<and> q_counted (c_in r) \<and> unsent_bufs (c_in r) \<and>
     (\<forall>b. s_buf (c_stream r) = Some b \<longrightarrow> b_dtran b = 0)"

definition all_counted :: "world \<Rightarrow> bool" where
  "all_counted w \<longleftrightarrow> (\<forall>c r. w_conns w c = Some r \<longrightarrow> conn_counted r)"

named_theorems acct \<open>operations that keep the counts\<close>

lemma acct_updI: "(\<And>r. conn_counted r \<Longrightarrow> conn_counted (f r)) \<Longrightarrow> keeps all_counted (conn_upd c f)"
  by (rule keeps_conn_updI) (auto simp: all_counted_def)

lemma acct_with_conn [acct]: "(\<And>r. conn_counted r \<Longrightarrow> keeps all_counted (f r)) \<Longrightarrow> keeps all_counted (with_conn c f)"
proof (rule keepsI)
  fix w assume f: "\<And>r. conn_counted r \<Longrightarrow> keeps all_counted (f r)" and w: "all_counted w"
  show "all_counted (snd (with_conn c f w))"
  proof (cases "w_conns w c")
    case None
    with w show ?thesis by (simp add: with_conn_def bind_def conn_get_def)
  next
    case (Some r)
    with w have "conn_counted r" by (auto simp: all_counted_def)
    with keepsD [OF f w] Some show ?thesis by (simp add: with_conn_def bind_def conn_get_def)
  qed
qed

lemmas acct_control [acct] = keeps_ret keeps_throw keeps_assert keeps_reads keeps_bind keeps_seq keeps_if keeps_only_if
  keeps_try keeps_case_option keeps_case_prod keeps_worker_get keeps_send_mode keeps_io_flag keeps_case_bool keeps_block_nil
  keeps_block_cons keeps_Let

lemma acct_outcome [acct]: "keeps all_counted outcome"
  by (rule keeps_outcomeI) (simp add: all_counted_def)

lemma acct_modifyI: "(\<And>w. w_conns (f w) = w_conns w) \<Longrightarrow> keeps all_counted (modify f)"
  by (rule keeps_modifyI) (simp add: all_counted_def)

lemma acct_worker_upd [acct]: "keeps all_counted (worker_upd h f)"
  by (rule keeps_worker_updI) (simp add: all_counted_def)

lemma acct_timers [acct]: "keeps all_counted (timer_add c)" "keeps all_counted (timer_del c)"
  unfolding timer_add_def timer_del_def by (rule acct_modifyI; simp)+

lemma acct_members [acct]:
  "keeps all_counted (set_flags c m)" "keeps all_counted (clear_flags c m)" "keeps all_counted (set_type c t)"
  "keeps all_counted (set_other c p)" "keeps all_counted (conn_upd c (\<lambda>r. r\<lparr>c_bucket := b\<rparr>))"
  "keeps all_counted (conn_upd c (\<lambda>r. r\<lparr>c_bucket := b, c_host := h\<rparr>))" "keeps all_counted (conn_upd c (\<lambda>r. r\<lparr>c_active := a\<rparr>))"
  "keeps all_counted (conn_upd c (\<lambda>r. r\<lparr>c_dev_id := d\<rparr>))" "keeps all_counted (conn_upd c (\<lambda>r. r\<lparr>c_callback := k\<rparr>))"
  unfolding set_flags_def clear_flags_def set_type_def set_other_def by (rule acct_updI; simp add: conn_counted_def)+

lemma acct_push_out [acct]: "b_dtran b = 0 \<Longrightarrow> keeps all_counted (conn_upd c (\<lambda>r. r\<lparr>c_out := q_push (c_out r) b\<rparr>))"
  by (rule acct_updI) (simp add: conn_counted_def counted_push)

lemma acct_push_in [acct]: "b_dtran b = 0 \<Longrightarrow> keeps all_counted (conn_upd c (\<lambda>r. r\<lparr>c_in := q_push (c_in r) b\<rparr>))"
  by (rule acct_updI) (simp add: conn_counted_def counted_push unsent_push)

lemma acct_set_out [acct]: "q_counted q \<Longrightarrow> keeps all_counted (conn_upd c (\<lambda>r. r\<lparr>c_out := q\<rparr>))"
  by (rule acct_updI) (simp add: conn_counted_def)

lemma acct_set_in [acct]: "q_counted q \<Longrightarrow> unsent_bufs q \<Longrightarrow> keeps all_counted (conn_upd c (\<lambda>r. r\<lparr>c_in := q\<rparr>))"
  by (rule acct_updI) (simp add: conn_counted_def)

lemma acct_stream_updI: "(\<And>s b. s_buf (f s) = Some b \<Longrightarrow> (\<forall>b. s_buf s = Some b \<longrightarrow> b_dtran b = 0) \<Longrightarrow> b_dtran b = 0) \<Longrightarrow>
    keeps all_counted (stream_upd c f)"
  unfolding stream_upd_def by (rule acct_updI) (auto simp: conn_counted_def)

lemma acct_find [acct]: "keeps all_counted (find_sock cs s)" "keeps all_counted (take_idle cs)"
  by (induction cs) (auto intro!: acct)

lemma acct_tables [acct]: "keeps all_counted (client_table_add c)" "keeps all_counted (client_table_remove s)"
    "keeps all_counted (client_table_get s)" "keeps all_counted (server_table_add c)" "keeps all_counted (server_table_remove c)"
    "keeps all_counted client_table_size" "keeps all_counted server_table_size" "keeps all_counted client_table_match_size"
    "keeps all_counted (server_table_get d s)" "keeps all_counted (server_table_get_idle d)"
  unfolding client_table_add_def client_table_remove_def client_table_get_def server_table_add_def server_table_remove_def
    client_table_size_def server_table_size_def server_table_get_def server_table_get_idle_def
  by (intro acct acct_modifyI; simp)+ (rule keepsI, simp add: client_table_match_size_def, (intro acct)+)

lemma acct_buckets [acct]: "keeps all_counted (bucket_get b)" "keeps all_counted (bucket_erase b c)"
    "keeps all_counted (bucket_insert b c)" "keeps all_counted (back_bucket h)"
  unfolding bucket_erase_def bucket_insert_def bucket_get_def back_bucket_def by (intro acct)+

lemma acct_conn_update [acct]: "keeps all_counted (conn_update c)"
  unfolding conn_update_def by (intro acct)

lemma acct_forget: "keeps all_counted (modify (\<lambda>w. w\<lparr>w_conns := (w_conns w)(c := None)\<rparr>))"
  by (rule keeps_modifyI) (simp add: all_counted_def)

lemma acct_attach [acct]: "keeps all_counted (conn_attach c h)" "keeps all_counted (conn_detach c)" "keeps all_counted (conn_destroy c)"
  unfolding conn_attach_def conn_detach_def conn_destroy_def by (intro acct acct_forget)+

lemma new_conn_counted: "conn_counted (new_conn sock ip port)"
  by (simp add: conn_counted_def new_conn_def new_stream_def)

lemma acct_conn_create [acct]: "keeps all_counted (conn_create sock ip port ssl)"
proof -
  have "conn_counted (let r = new_conn sock ip port in if ssl then r\<lparr>c_flag := set_flag (c_flag r) MASK_BIT_SSL\<rparr> else r)"
    using new_conn_counted [of sock ip port] by (simp add: Let_def conn_counted_def)
  then have "keeps all_counted (modify (\<lambda>w. w\<lparr>w_next := Suc c, w_conns := (w_conns w)(c \<mapsto>
            (let r = new_conn sock ip port in if ssl then r\<lparr>c_flag := set_flag (c_flag r) MASK_BIT_SSL\<rparr> else r))\<rparr>))" for c
    by (intro keeps_modifyI) (simp add: all_counted_def)
  then show ?thesis unfolding conn_create_def by (intro acct)
qed

lemma acct_enable [acct]: "keeps all_counted (enable_read c)" "keeps all_counted (disable_read c)"
  unfolding enable_read_def disable_read_def by (intro acct)+

lemma acct_send_loop_aux: "all_counted w \<Longrightarrow> all_counted (snd (send_loop c w))"
proof (induction c w rule: send_loop.induct)
  case (1 c w)
  note step = send_loop.simps [of c w]
  show ?case
  proof (cases "w_conns w c")
    case None
    with 1(2) step show ?thesis by simp
  next
    case (Some r)
    show ?thesis
    proof (cases "q_top (c_out r)")
      case None
      with Some 1(2) step show ?thesis by simp
    next
      case top: (Some b)
      obtain op w1 where s: "conn_send c (unsent b) w = (op, w1)" by fastforce
      have w1: "all_counted w1" using conn_send_frame [OF s] 1(2) by (cases w; cases w1) (simp add: all_counted_def)
      show ?thesis
      proof (cases op)
        case (OP_SIZE n)
        have r: "conn_counted r" using 1(2) Some by (auto simp: all_counted_def)
        have "n \<le> length (unsent b)" using conn_send_size s OP_SIZE by blast
        then have "q_counted (c_out (advance_out n r))" using r top by (intro counted_advance) (auto simp: conn_counted_def)
        then have "conn_counted (advance_out n r)"
          using r by (simp add: conn_counted_def advance_out_def Let_def split: list.splits)
        then have "all_counted (w1\<lparr>w_conns := (w_conns w1)(c \<mapsto> advance_out n r)\<rparr>)" using w1 by (simp add: all_counted_def)
        from 1(1) [OF Some top s [symmetric] OP_SIZE this] show ?thesis using step Some top s OP_SIZE by simp
      qed (use step Some top s w1 in simp_all)
    qed
  qed
qed

lemma acct_send_loop [acct]: "keeps all_counted (send_loop c)"
  by (rule keepsI) (rule acct_send_loop_aux)

lemma acct_send [acct]: "keeps all_counted (async_send c f)"
  unfolding async_send_def async_send_impl_def by (intro acct)

lemma acct_close [acct]: "keeps all_counted (close_self c f b)" "keeps all_counted (conn_close c f b)"
  unfolding conn_close_def close_self_def release_partner_def by (intro acct)+

lemma response_buffer_unsent: "response_buffer junk ma mi l hs body = Some b \<Longrightarrow> b_dtran b = 0"
  by (auto simp: response_buffer_def Let_def new_buffer_def split: if_splits)

lemma acct_response [acct]: "keeps all_counted (send_response c s hs body flag)"
  unfolding send_response_def Let_def by (intro acct) (erule response_buffer_unsent)

lemma acct_answers [acct]: "keeps all_counted (stream_send_error c s)" "keeps all_counted (send_ok c b flag)"
    "keeps all_counted (send_crossdomain c)" "keeps all_counted (send_system_info c)" "keeps all_counted (send_error c e)"
  unfolding stream_send_error_def send_ok_def send_crossdomain_def send_system_info_def send_error_def by (intro acct)+

lemma acct_requests [acct]: "keeps all_counted (notify_match_conn h c s b)" "keeps all_counted (request_new_server c)"
  unfolding notify_match_conn_def request_new_server_def by (intro acct acct_modifyI; simp)+

lemma acct_transfer [acct]:
  assumes "conn_counted r" "conn_counted q"
  shows "keeps all_counted (case q_push_all (c_out r) (c_in q) of (out, inq) \<Rightarrow>
      seq (conn_upd c (\<lambda>r. r\<lparr>c_out := out\<rparr>)) (conn_upd p (\<lambda>q. q\<lparr>c_in := inq\<rparr>)))"
  using counted_push_all [of "c_out r" "c_in q"] assms
  by (cases "q_push_all (c_out r) (c_in q)") (auto simp: conn_counted_def intro!: acct)

lemma acct_match [acct]: "keeps all_counted (conn_match c p b)"
  unfolding conn_match_def
  by (intro keeps_with_conn keeps_seq keeps_assert keeps_if keeps_throw acct_members keeps_block_cons keeps_block_nil acct_timers
      acct_answers acct_send acct_with_conn acct_transfer)

lemma acct_matching [acct]: "keeps all_counted (conn_match_sock c s b)" "keeps all_counted (match_client c s)"
    "keeps all_counted (match_server c d b)"
  unfolding conn_match_sock_def match_client_def match_server_def by (intro acct)+

lemma acct_set_buf [acct]: "(\<And>x. b = Some x \<Longrightarrow> b_dtran x = 0) \<Longrightarrow> keeps all_counted (set_buf c b)"
  unfolding set_buf_def by (rule acct_stream_updI) simp

lemma acct_stream [acct]:
  "keeps all_counted (stream_upd c (s_buf_update (\<lambda>_. None)))"
  "keeps all_counted (stream_upd c (s_buf_update (map_option (b_data_update (\<lambda>_. d)))))"
  "keeps all_counted (set_state c st)"
  "keeps all_counted (stream_upd c (\<lambda>s. s\<lparr>s_parser := ps, s_body_type := t, s_body_len := n\<rparr>))"
  "keeps all_counted (stream_upd c (\<lambda>s. s\<lparr>s_parser := ps\<rparr>))"
  "keeps all_counted (stream_upd c (\<lambda>s. s\<lparr>s_state := st, s_body_tran := n\<rparr>))"
  "keeps all_counted (stream_upd c (\<lambda>s. s\<lparr>s_body_tran := f s\<rparr>))"
  "keeps all_counted (stream_upd c (s_body_type_update g))"
  "keeps all_counted (stream_upd c (s_body_len_update h))"
  "keeps all_counted (stream_upd c (\<lambda>s. s\<lparr>s_body_type := t, s_body_tran := n, s_body_len := k\<rparr>))"
  unfolding set_state_def by (rule acct_stream_updI; auto)+

lemma acct_with_buf [acct]: "(\<And>s b. b_dtran b = 0 \<Longrightarrow> keeps all_counted (f s b)) \<Longrightarrow> keeps all_counted (with_buf c f)"
  unfolding with_buf_def by (intro acct) (simp add: conn_counted_def)

section \<open>Requests and readers\<close>

lemma acct_handle_uri_client [acct]: "b_dtran b = 0 \<Longrightarrow> keeps all_counted (handle_uri_client c b d)"
  unfolding handle_uri_client_def by (intro acct)

lemma acct_handle_uri [acct]: "keeps all_counted (handle_uri c verb ptr len)"
  unfolding handle_uri_def handle_uri_server_def Let_def
  by (intro acct) (simp_all add: conn_counted_def)

lemma acct_conn_recv [acct]: "keeps all_counted (conn_recv c n)"
  by (rule keepsI)
    (auto simp: conn_recv_def seq_def bind_def with_conn_def conn_get_def ret_def Let_def all_counted_def
      split: option.splits list.splits rx.splits)

lemma acct_op_code [acct]:
  "(\<And>k. keeps I (a k)) \<Longrightarrow> keeps I b \<Longrightarrow> keeps I d \<Longrightarrow> keeps I e \<Longrightarrow>
   keeps I (case op of OP_SIZE k \<Rightarrow> a k | OP_AGAIN \<Rightarrow> b | OP_CLOSE \<Rightarrow> d | OP_ERROR \<Rightarrow> e)"
  by (cases op) simp_all

lemma acct_recv_append [acct]: "keeps all_counted (recv_append c n)"
  unfolding recv_append_def by (intro acct) auto

lemma acct_events [acct]: "keeps all_counted (handle_special_request c)" "keeps all_counted (onBody c)"
  unfolding handle_special_request_def onBody_def Let_def by (intro acct; simp)+

lemma acct_onHeader [acct]: "keeps all_counted (onHeader c)"
  unfolding onHeader_def Let_def by (intro acct)

lemma drop_continue_unsent: "drop_continue n b = Some b' \<Longrightarrow> b_dtran b' = b_dtran b"
  by (auto simp: drop_continue_def Let_def split: option.splits)

lemma buffer_unsent [simp]: "b_dtran (new_buffer n) = 0" "b_dtran (grow_buf b) = 0"
  by (simp_all add: new_buffer_def grow_buf_def)

lemma acct_parse [acct]:
  "(\<And>ps. keeps I (a ps)) \<Longrightarrow> (\<And>ps. keeps I (b ps)) \<Longrightarrow> (\<And>ps. keeps I (d ps)) \<Longrightarrow> (\<And>ps. keeps I (e ps)) \<Longrightarrow>
   keeps I (case x of (PFail, ps) \<Rightarrow> a ps | (POk, ps) \<Rightarrow> b ps | (PMore, ps) \<Rightarrow> d ps | (PDangling, ps) \<Rightarrow> e ps)"
  by (rule keeps_case_parse)

lemma acct_header_complete [acct]: "keeps all_counted (header_complete c)"
  unfolding header_complete_def Let_def
  by (intro acct) (auto dest: drop_continue_unsent)

lemma acct_chunk_size_line [acct]: "keeps all_counted (chunk_size_line c)"
  unfolding chunk_size_line_def by (intro acct) auto

lemma acct_read_content [acct]: "keeps all_counted (read_content c)"
  unfolding read_content_def Let_def by (intro acct) auto

lemma acct_read_state [acct]:
  "keeps I a \<Longrightarrow> keeps I b \<Longrightarrow> keeps I d \<Longrightarrow>
   keeps I (case st of reading_header \<Rightarrow> a | reading_body \<Rightarrow> b | reading_trailer \<Rightarrow> d)"
  by (cases st) simp_all

lemma acct_read_parts [acct]: "keeps all_counted (read_header c)" "keeps all_counted (read_body c)" "keeps all_counted (read_trailer c)"
  unfolding read_header_def read_body_def read_trailer_def read_chunk_size_def Let_def by (intro acct; auto)+

lemma acct_read_message [acct]: "keeps all_counted (read_message c)"
  unfolding read_message_def onHeaderError_def onBodyError_def onTrailerError_def by (intro acct)

lemma acct_after_part [acct]: "keeps all_counted (after_part c)"
  unfolding after_part_def Let_def by (intro acct)

lemma acct_read_request_aux: "all_counted w \<Longrightarrow> all_counted (snd (read_request c w))"
proof (induction c w rule: read_request.induct)
  case (1 c w)
  obtain r w1 where r: "read_message c w = (r, w1)" by fastforce
  have w1: "all_counted w1" using keepsD [OF acct_read_message 1(2)] r by (metis snd_conv)
  obtain r2 w2 where r2: "after_part c w1 = (r2, w2)" by fastforce
  have w2: "all_counted w2" using keepsD [OF acct_after_part w1] r2 by (metis snd_conv)
  show ?case
    using 1(1) [OF r [symmetric] _ _ r2 [symmetric] _ _ w2] r r2 w1 w2
    by (subst read_request.simps) (auto simp: onReadError_def throw_def split: result.splits)
qed

lemma acct_pass_through [acct]: "keeps all_counted (pass_through c p)"
  unfolding pass_through_def Let_def by (intro acct) auto

lemma acct_pass_loop_aux: "all_counted w \<Longrightarrow> all_counted (snd (pass_loop c p w))"
proof (induction c p w rule: pass_loop.induct)
  case (1 c p w)
  obtain r w1 where r: "pass_through c p w = (r, w1)" by fastforce
  have w1: "all_counted w1" using keepsD [OF acct_pass_through 1(2)] r by (metis snd_conv)
  show ?case
    using 1(1) [OF r [symmetric] _ _ w1] r w1 by (subst pass_loop.simps) (auto split: result.splits)
qed

lemma acct_loops [acct]: "keeps all_counted (read_request c)" "keeps all_counted (pass_loop c p)"
  by (rule keepsI, erule acct_read_request_aux) (rule keepsI, erule acct_pass_loop_aux)

section \<open>Every reachable state\<close>

lemma acct_exc [acct]:
  "(\<And>x. keeps I (a x)) \<Longrightarrow> (\<And>x. keeps I (b x)) \<Longrightarrow> keeps I d \<Longrightarrow> (\<And>x. keeps I (f x)) \<Longrightarrow>
   keeps I (case e of Http_exc x \<Rightarrow> a x | Io_exc x \<Rightarrow> b x | Std_exc \<Rightarrow> d | Fault x \<Rightarrow> f x)"
  by (cases e) simp_all

lemma acct_handlers [acct]: "keeps all_counted (handle_read c)" "keeps all_counted (handle_write c)" "keeps all_counted (handle_timeout c)"
  unfolding handle_read_def handle_write_def handle_timeout_def read_failed_def read_response_def read_message_no_parse_def
  by (intro acct)+

lemma acct_clear_loop [acct]: "keeps all_counted (clear_loop b cs)"
  by (induction cs) (auto intro!: acct simp: evict_def)

lemma acct_wheel [acct]: "keeps all_counted (wheel_tick h)"
  unfolding wheel_tick_def bucket_assign_empty_def conn_bucket_clear_def Let_def by (intro acct)

lemma acct_message [acct]: "keeps all_counted (handle_message h m)"
  unfolding handle_message_def message_failed_def by (cases m) (auto intro!: acct)

lemma acct_notify [acct]: "keeps all_counted (handle_notify n h)"
  by (induction n) (auto intro!: acct simp: notify_round_def)

lemma acct_event: "keeps all_counted (run_event e)"
  by (cases e) (auto simp: run_event_def notify_add_conn_def intro!: acct)

lemma reachable_counted: "reachable w \<Longrightarrow> all_counted w"
proof (induction rule: reachable.induct)
  case (reachable_start g k n)
  show ?case by (simp add: all_counted_def start_world_def)
next
  case (reachable_step w w')
  from reachable_step(2) show ?case
  proof (cases rule: step.cases)
    case (step_event e)
    with keepsD [OF acct_event reachable_step(3), of e] show ?thesis by (metis snd_conv)
  next
    case step_environment
    with reachable_step(3) show ?thesis by (auto simp: environment_change_def all_counted_def)
  qed
qed

text \<open>
  C4: in every reachable state flow control looks at the true number of bytes: a queue of a
  connection is low exactly when at most 16 kB are queued and unsent, and high from 64 kB on,
  as long as the bytes in memory are fewer than the machine word can count.
\<close>

theorem flow_control_exact:
  assumes "reachable w" "w_conns w c = Some r" "q_pending (c_out r) < 2 ^ 64"
  shows "(q_is_low (c_out r) \<longleftrightarrow> q_pending (c_out r) \<le> 16384) \<and> (q_is_high (c_out r) \<longleftrightarrow> 65536 \<le> q_pending (c_out r))"
proof -
  have q: "q_counted (c_out r)" using reachable_counted [OF assms(1)] assms(2) by (auto simp: all_counted_def conn_counted_def)
  then have "q_dsize (c_out r) = q_pending (c_out r)" using assms(3) by (simp add: q_counted_def SIZE_RANGE_def)
  with q show ?thesis
    by (simp add: q_is_low_def q_is_high_def default_low_mark_def default_high_mark_def q_counted_def)
qed

theorem flow_control_exact_witness:
  "\<exists>r. w_conns two_clients 0 = Some r \<and> q_is_low (c_out r) \<and> \<not> q_is_high (c_out r)"
proof -
  let ?r = "joined_conn 0 1 7 ''::1'' 80 False"
  have "q_pending (c_out ?r) = 0" by (simp add: joined_conn_def fresh_conn_def new_conn_def q_new_def q_pending_def)
  with flow_control_exact [OF reachable_two_clients two_clients_conns(1)] two_clients_conns(1) show ?thesis by simp
qed

end
