(* ===== verification/Tunnel.thy ===== *)
theory Tunnel
  imports Accounting
begin

text \<open>
  What a matched pair is for: the bytes a device sends reach the client in order, each once.
  The bytes already sent to the client, those queued for it and those the device's socket
  still holds make up one stream, and no step of the pass-through loop changes it.
\<close>

section \<open>The output loop\<close>

lemma advance_stream:
  assumes "q_top (c_out r) = Some b" "n \<le> length (unsent b)"
  shows "take n (unsent b) @ q_stream (c_out (advance_out n r)) = q_stream (c_out r)"
proof -
  obtain bs where bs: "q_bufs (c_out r) = b # bs" using assms(1) by (auto simp: q_top_def split: list.splits)
  let ?b = "b\<lparr>b_dtran := b_dtran b + n\<rparr>"
  have u: "unsent ?b = drop n (unsent b)" by (simp add: unsent_def add.commute)
  have stream: "q_stream (c_out r) = unsent b @ concat (map unsent bs)" by (simp add: q_stream_def bs)
  show ?thesis
  proof (cases "b_dtran b + n = b_dlen b")
    case True
    then have "length (unsent b) \<le> n" by (simp add: unsent_def)
    then have "take n (unsent b) = unsent b" by simp
    with True stream show ?thesis by (simp add: advance_out_def bs Let_def q_pop_def q_consume_size_def q_stream_def)
  next
    case False
    then have "q_stream (c_out (advance_out n r)) = drop n (unsent b) @ concat (map unsent bs)"
      using u by (simp add: advance_out_def bs Let_def q_consume_size_def q_stream_def)
    then show ?thesis unfolding stream append_assoc [symmetric] by simp
  qed
qed

lemma conn_send_sent:
  "conn_send c bs w = (OP_SIZE n, w') \<Longrightarrow> w_sent w' = (w_sent w)(c := w_sent w c @ take n bs) \<and> n \<le> length bs"
  "conn_send c bs w = (op, w') \<Longrightarrow> \<forall>n. op \<noteq> OP_SIZE n \<Longrightarrow> w_sent w' = w_sent w"
  by (auto simp: conn_send_def deliver_def min_def split: list.splits tx.splits if_splits)

definition flow :: "cid \<Rightarrow> bytes \<Rightarrow> world \<Rightarrow> bool" where
  "flow c T w \<longleftrightarrow> (\<exists>r. w_conns w c = Some r \<and> w_sent w c @ q_stream (c_out r) = T)"

lemma flow_send_loop: "flow c T w \<Longrightarrow> flow c T (snd (send_loop d w))"
proof (induction d w rule: send_loop.induct)
  case (1 d w)
  note step = send_loop.simps [of d w]
  show ?case
  proof (cases "w_conns w d")
    case None
    with 1(2) step show ?thesis by simp
  next
    case (Some r)
    show ?thesis
    proof (cases "q_top (c_out r)")
      case None
      with Some 1(2) step show ?thesis by simp
    next
      case top: (Some b)
      obtain op w1 where s: "conn_send d (unsent b) w = (op, w1)" by fastforce
      have conns: "w_conns w1 = w_conns w" using conn_send_frame [OF s] by (cases w; cases w1) simp
      show ?thesis
      proof (cases op)
        case (OP_SIZE n)
        note sent = conn_send_sent(1) [OF s [unfolded OP_SIZE]]
        let ?w2 = "w1\<lparr>w_conns := (w_conns w1)(d \<mapsto> advance_out n r)\<rparr>"
        have "flow c T ?w2"
        proof (cases "c = d")
          case True
          have "take n (unsent b) @ q_stream (c_out (advance_out n r)) = q_stream (c_out r)"
            by (rule advance_stream [OF top]) (use sent in blast)
          with 1(2) Some sent True show ?thesis by (simp add: flow_def)
        next
          case False
          with 1(2) sent conns show ?thesis by (auto simp: flow_def)
        qed
        from 1(1) [OF Some top s [symmetric] OP_SIZE this] show ?thesis using step Some top s OP_SIZE by simp
      qed (use step Some top s conns 1(2) conn_send_sent(2) [OF s] in \<open>simp_all add: flow_def\<close>)
    qed
  qed
qed

lemma send_loop_drains: "send_loop c w = (Val Sent_all, w') \<Longrightarrow> \<exists>r. w_conns w' c = Some r \<and> q_bufs (c_out r) = []"
proof (induction c w rule: send_loop.induct)
  case (1 c w)
  note step = 1(2) [unfolded send_loop.simps [of c w]]
  obtain r where r: "w_conns w c = Some r" using step by (cases "w_conns w c") auto
  show ?case
  proof (cases "q_top (c_out r)")
    case None
    with r step show ?thesis by (auto simp: q_top_def split: list.splits)
  next
    case top: (Some b)
    obtain op w1 where s: "conn_send c (unsent b) w = (op, w1)" by fastforce
    obtain n where op: "op = OP_SIZE n" using step r top s by (cases op) auto
    from 1(1) [OF r top s [symmetric] op] step r top s op show ?thesis by simp
  qed
qed

text \<open>
  C28: the output loop sends what is queued, in order, and stops: the peer has got a part of
  the queued bytes and the rest is still queued; when the loop ends because the queue is
  empty the peer has got all of it.
\<close>

theorem send_loop_correct:
  assumes "w_conns w c = Some r" "send_loop c w = (Val e, w')"
  shows "\<exists>r'. w_conns w' c = Some r' \<and> w_sent w' c @ q_stream (c_out r') = w_sent w c @ q_stream (c_out r) \<and>
     (e = Sent_all \<longrightarrow> w_sent w' c = w_sent w c @ q_stream (c_out r))"
proof -
  have "flow c (w_sent w c @ q_stream (c_out r)) w" using assms(1) by (simp add: flow_def)
  from flow_send_loop [OF this, of c] assms(2) obtain r' where r': "w_conns w' c = Some r'"
      "w_sent w' c @ q_stream (c_out r') = w_sent w c @ q_stream (c_out r)"
    by (auto simp: flow_def)
  moreover have "w_sent w' c = w_sent w c @ q_stream (c_out r)" if "e = Sent_all"
    using send_loop_drains [of c w w'] assms(2) r' that by (auto simp: q_stream_def)
  ultimately show ?thesis by blast
qed

theorem send_loop_correct_witness:
  "(let r = (new_conn 7 ''ip'' 80)\<lparr>c_out := q_push q_new (buffer_of ''hello'')\<rparr>;
        w = (start_world default_settings)\<lparr>w_conns := [1 \<mapsto> r], w_tx := (\<lambda>_. [Tx_take 2, Tx_again])\<rparr>
    in \<exists>w' r'. send_loop 1 w = (Val Would_block, w') \<and> w_conns w' 1 = Some r' \<and> w_sent w' 1 @ q_stream (c_out r') = ''hello'')"
proof -
  let ?r = "(new_conn 7 ''ip'' 80)\<lparr>c_out := q_push q_new (buffer_of ''hello'')\<rparr>"
  let ?w = "(start_world default_settings)\<lparr>w_conns := [1 \<mapsto> ?r], w_tx := (\<lambda>_. [Tx_take 2, Tx_again])\<rparr>"
  note defs = send_loop.simps start_world_def q_push_def q_top_def buffer_of_def unsent_def conn_send_def deliver_def advance_out_def
    q_new_def q_consume_size_def Let_def
  obtain w' where w': "send_loop 1 ?w = (Val Would_block, w')" by (simp add: defs)
  have r: "w_conns ?w 1 = Some ?r" by simp
  from send_loop_correct [OF r w'] obtain r' where
      "w_conns w' 1 = Some r'" "w_sent w' 1 @ q_stream (c_out r') = w_sent ?w 1 @ q_stream (c_out ?r)" by blast
  moreover have "w_sent ?w 1 @ q_stream (c_out ?r) = ''hello''"
    by (simp add: start_world_def q_stream_def q_push_def q_new_def buffer_of_def unsent_def)
  ultimately show ?thesis using w' unfolding Let_def by metis
qed

section \<open>The tunnel\<close>

definition rx_bytes :: "rx \<Rightarrow> bytes" where
  "rx_bytes x = (case x of Rx_data bs \<Rightarrow> bs | _ \<Rightarrow> [])"

definition rx_stream :: "world \<Rightarrow> cid \<Rightarrow> bytes" where
  "rx_stream w c = concat (map rx_bytes (w_rx w c))"

text \<open>\<open>mid\<close> are bytes that were received and are on their way into the queue.\<close>

definition tunnel :: "cid \<Rightarrow> cid \<Rightarrow> bytes \<Rightarrow> bytes \<Rightarrow> world \<Rightarrow> bool" where
  "tunnel c p T mid w \<longleftrightarrow> (\<exists>r. w_conns w p = Some r \<and> w_sent w p @ q_stream (c_out r) @ mid @ rx_stream w c = T) \<and>
     (\<forall>q b. w_conns w c = Some q \<longrightarrow> s_buf (c_stream q) = Some b \<longrightarrow> b_dtran b = 0)"

named_theorems tun \<open>operations that keep the tunnel\<close>

lemmas tun_control [tun] = acct_control

lemma tun_with_conn [tun]: "(\<And>r. keeps I (f r)) \<Longrightarrow> keeps I (with_conn d f)"
  by (rule keeps_with_conn)

lemma tun_updI:
  assumes "\<And>r. c_out (f r) = c_out r" "\<And>r b. s_buf (c_stream (f r)) = Some b \<Longrightarrow> s_buf (c_stream r) = Some b \<or> b_dtran b = 0"
  shows "keeps (tunnel c p T mid) (conn_upd d f)"
proof (rule keeps_conn_updI)
  fix w r assume d: "w_conns w d = Some r" and t: "tunnel c p T mid w"
  let ?w = "w\<lparr>w_conns := (w_conns w)(d \<mapsto> f r)\<rparr>"
  obtain q where q: "w_conns w p = Some q" "w_sent w p @ q_stream (c_out q) @ mid @ rx_stream w c = T"
    using t by (auto simp: tunnel_def)
  have "\<exists>q. w_conns ?w p = Some q \<and> w_sent ?w p @ q_stream (c_out q) @ mid @ rx_stream ?w c = T"
    using q d assms(1) by (cases "p = d") (auto simp: rx_stream_def)
  moreover have "b_dtran b = 0" if "w_conns ?w c = Some q'" "s_buf (c_stream q') = Some b" for q' b
    using that t d assms(2) by (cases "c = d") (auto simp: tunnel_def)
  ultimately show "tunnel c p T mid ?w" by (simp add: tunnel_def)
qed

lemma tun_same: "(\<And>w. w_conns (f w) = w_conns w \<and> w_sent (f w) = w_sent w \<and> w_rx (f w) = w_rx w) \<Longrightarrow> keeps (tunnel c p T mid) (modify f)"
  by (rule keeps_modifyI) (simp add: tunnel_def rx_stream_def)

lemma tun_worker_upd [tun]: "keeps (tunnel c p T mid) (worker_upd h f)"
  by (rule keeps_worker_updI) (simp add: tunnel_def rx_stream_def)

lemma tun_members [tun]:
  "keeps (tunnel c p T mid) (set_flags d m)" "keeps (tunnel c p T mid) (clear_flags d m)" "keeps (tunnel c p T mid) (set_type d t)"
  "keeps (tunnel c p T mid) (conn_upd d (\<lambda>r. r\<lparr>c_bucket := b\<rparr>))" "keeps (tunnel c p T mid) (conn_upd d (\<lambda>r. r\<lparr>c_active := a\<rparr>))"
  unfolding set_flags_def clear_flags_def set_type_def by (rule tun_updI; simp)+

lemma tun_buckets [tun]: "keeps (tunnel c p T mid) (bucket_get b)" "keeps (tunnel c p T mid) (bucket_erase b d)"
    "keeps (tunnel c p T mid) (bucket_insert b d)" "keeps (tunnel c p T mid) (back_bucket h)"
  unfolding bucket_erase_def bucket_insert_def bucket_get_def back_bucket_def by (intro tun)+

lemma tun_enable [tun]: "keeps (tunnel c p T mid) (enable_read d)" "keeps (tunnel c p T mid) (disable_read d)"
    "keeps (tunnel c p T mid) (conn_update d)"
  unfolding enable_read_def disable_read_def conn_update_def by (intro tun)+

lemma send_loop_streams: "send_loop d w = (x, w') \<Longrightarrow> w_conns w c = Some q \<Longrightarrow>
    \<exists>q'. w_conns w' c = Some q' \<and> c_stream q' = c_stream q"
  "send_loop d w = (x, w') \<Longrightarrow> w_conns w c = None \<Longrightarrow> w_conns w' c = None"
proof -
  have "map_option c_stream (w_conns (snd (send_loop d w)) c) = map_option c_stream (w_conns w c)"
  proof (induction d w rule: send_loop.induct)
    case (1 d w)
    note step = send_loop.simps [of d w]
    show ?case
    proof (cases "w_conns w d")
      case (Some r)
      show ?thesis
      proof (cases "q_top (c_out r)")
        case top: (Some b)
        obtain op w1 where s: "conn_send d (unsent b) w = (op, w1)" by fastforce
        have conns: "w_conns w1 = w_conns w" using conn_send_frame [OF s] by (cases w; cases w1) simp
        have adv: "c_stream (advance_out n r) = c_stream r" for n by (simp add: advance_out_def Let_def split: list.splits)
        show ?thesis
        proof (cases op)
          case (OP_SIZE n)
          from 1 [OF Some top s [symmetric] OP_SIZE] conns adv Some show ?thesis
            using step top s OP_SIZE by (auto split: if_splits)
        qed (use step Some top s conns in simp_all)
      qed (use step Some in simp)
    qed (use step in simp)
  qed
  then show "send_loop d w = (x, w') \<Longrightarrow> w_conns w c = Some q \<Longrightarrow> \<exists>q'. w_conns w' c = Some q' \<and> c_stream q' = c_stream q"
    "send_loop d w = (x, w') \<Longrightarrow> w_conns w c = None \<Longrightarrow> w_conns w' c = None" by auto
qed

lemma tun_send_loop [tun]: "keeps (tunnel c p T mid) (send_loop d)"
proof (rule keepsI)
  fix w assume t: "tunnel c p T mid w"
  obtain x w' where run: "send_loop d w = (x, w')" by fastforce
  obtain r where r: "w_conns w p = Some r" "w_sent w p @ q_stream (c_out r) @ mid @ rx_stream w c = T"
    using t by (auto simp: tunnel_def)
  have "flow p (w_sent w p @ q_stream (c_out r)) w" using r by (simp add: flow_def)
  from flow_send_loop [OF this, of d] run obtain r' where r': "w_conns w' p = Some r'"
      "w_sent w' p @ q_stream (c_out r') = w_sent w p @ q_stream (c_out r)" by (auto simp: flow_def)
  have "rx_is (w_rx w) (snd (send_loop d w))" by (rule keepsD [OF rx.frame_send_loop]) simp
  then have "w_rx w' = w_rx w" using run by simp
  then have "w_sent w' p @ q_stream (c_out r') @ mid @ rx_stream w' c = T"
    using r(2) arg_cong [OF r'(2), of "\<lambda>x. x @ mid @ rx_stream w c"] by (simp add: rx_stream_def)
  moreover have "b_dtran b = 0" if "w_conns w' c = Some q'" "s_buf (c_stream q') = Some b" for q' b
  proof (cases "w_conns w c")
    case None
    with send_loop_streams(2) [OF run] that show ?thesis by simp
  next
    case (Some q)
    with send_loop_streams(1) [OF run this] that t show ?thesis by (auto simp: tunnel_def)
  qed
  ultimately show "tunnel c p T mid (snd (send_loop d w))" using r'(1) run by (auto simp: tunnel_def)
qed

lemma tun_send [tun]: "keeps (tunnel c p T mid) (async_send d f)"
  unfolding async_send_def async_send_impl_def by (intro tun)

lemma tun_set_buf [tun]: "(\<And>b. x = Some b \<Longrightarrow> b_dtran b = 0) \<Longrightarrow> keeps (tunnel c p T mid) (set_buf d x)"
  unfolding set_buf_def stream_upd_def by (rule tun_updI) simp_all

definition received :: "cid \<Rightarrow> cid \<Rightarrow> bytes \<Rightarrow> op_code \<times> bytes \<Rightarrow> world \<Rightarrow> bool" where
  "received c p T x w \<longleftrightarrow> (case fst x of OP_SIZE k \<Rightarrow> k = length (snd x) \<and> tunnel c p T (snd x) w | _ \<Rightarrow> tunnel c p T [] w)"

lemma tun_recv: "triple (tunnel c p T []) (conn_recv c n) (received c p T) (\<lambda>_. tunnel c p T [])"
proof (rule tripleI)
  fix w assume t: "tunnel c p T [] w"
  then show "case conn_recv c n w of (Val x, w') \<Rightarrow> received c p T x w' | (Exc e, w') \<Rightarrow> tunnel c p T [] w'"
    by (auto simp: conn_recv_def seq_def bind_def with_conn_def conn_get_def ret_def Let_def tunnel_def rx_stream_def rx_bytes_def
        received_def split: option.splits list.splits rx.splits)
qed

lemma tun_push:
  assumes "b_dtran b = 0" "k = length got"
  shows "triple (tunnel c p T got) (conn_upd p (\<lambda>q. q\<lparr>c_out := q_push (c_out q) (b\<lparr>b_dlen := k, b_data := got\<rparr>)\<rparr>))
     (\<lambda>_. tunnel c p T []) (\<lambda>_. tunnel c p T [])"
proof (rule tripleI)
  let ?b = "b\<lparr>b_dlen := k, b_data := got\<rparr>"
  let ?f = "\<lambda>q. q\<lparr>c_out := q_push (c_out q) ?b\<rparr>"
  fix w assume t: "tunnel c p T got w"
  then obtain r where r: "w_conns w p = Some r" "w_sent w p @ q_stream (c_out r) @ got @ rx_stream w c = T" by (auto simp: tunnel_def)
  have "unsent ?b = got" using assms by (simp add: unsent_def)
  then have "tunnel c p T [] (w\<lparr>w_conns := (w_conns w)(p \<mapsto> ?f r)\<rparr>)"
    using t r by (auto simp: tunnel_def q_push_stream rx_stream_def split: if_splits)
  with r(1) show "case conn_upd p ?f w of (Val x, w') \<Rightarrow> tunnel c p T [] w' | (Exc e, w') \<Rightarrow> tunnel c p T [] w'"
    by (simp add: conn_upd_def)
qed

lemma tun_with_buf:
  assumes "\<And>s b. b_dtran b = 0 \<Longrightarrow> keeps (tunnel c p T []) (f s b)"
  shows "keeps (tunnel c p T []) (with_buf c f)"
proof (rule keepsI)
  fix w assume t: "tunnel c p T [] w"
  show "tunnel c p T [] (snd (with_buf c f w))"
  proof (cases "w_conns w c")
    case None
    with t show ?thesis by (simp add: with_buf_def with_conn_def bind_def conn_get_def)
  next
    case (Some q)
    show ?thesis
    proof (cases "s_buf (c_stream q)")
      case None
      with Some t show ?thesis by (simp add: with_buf_def with_conn_def bind_def conn_get_def throw_def)
    next
      case (Some b)
      then have "b_dtran b = 0" using t \<open>w_conns w c = Some q\<close> by (auto simp: tunnel_def)
      from keepsD [OF assms [OF this, of "c_stream q"] t] Some \<open>w_conns w c = Some q\<close> show ?thesis
        by (simp add: with_buf_def with_conn_def bind_def conn_get_def)
    qed
  qed
qed

lemma tun_pass_through: "keeps (tunnel c p T []) (pass_through c p)"
proof -
  let ?after = "\<lambda>b x. case x of (op, got) \<Rightarrow> (case op of
        OP_SIZE k \<Rightarrow>
          seq (conn_upd p (\<lambda>q. q\<lparr>c_out := q_push (c_out q) (b\<lparr>b_dlen := k, b_data := got\<rparr>)\<rparr>))
          (seq (set_buf c None)
          (with_conn p (\<lambda>q. if q_is_high (c_out q)
             then seq (disable_read c) (seq (async_send p OTHER_WR_ERROR) (ret True)) else ret False)))
      | OP_AGAIN \<Rightarrow> with_conn p (\<lambda>q. seq (only_if (\<not> q_empty (c_out q)) (async_send p OTHER_WR_ERROR)) (ret True))
      | _ \<Rightarrow> seq (set_buf c None) (throw (Io_exc SELF_RD_ERROR)))"
  have rest: "keeps (tunnel c p T []) (seq (set_buf c None)
          (with_conn p (\<lambda>q. if q_is_high (c_out q)
             then seq (disable_read c) (seq (async_send p OTHER_WR_ERROR) (ret True)) else ret False)))"
    by (intro tun) simp
  have again: "keeps (tunnel c p T []) (with_conn p (\<lambda>q. seq (only_if (\<not> q_empty (c_out q)) (async_send p OTHER_WR_ERROR)) (ret True)))"
    by (intro tun)
  have gone: "keeps (tunnel c p T []) (seq (set_buf c None) (throw (Io_exc SELF_RD_ERROR)))"
    by (intro tun) simp
  have after: "triple (received c p T x) (?after b x) (\<lambda>_. tunnel c p T []) (\<lambda>_. tunnel c p T [])" if "b_dtran b = 0" for b x
  proof (cases x)
    case (Pair op got)
    show ?thesis
    proof (cases op)
      case (OP_SIZE k)
      show ?thesis
      proof (cases "k = length got")
        case True
        from triple_seq [OF tun_push [OF that True] rest [unfolded keeps_def]] show ?thesis
          by (simp add: Pair OP_SIZE received_def True triple_def)
      next
        case False
        then show ?thesis by (simp add: Pair OP_SIZE received_def triple_def)
      qed
    qed (use again gone in \<open>auto simp: Pair received_def keeps_def elim!: triple_pre\<close>)
  qed
  have recv: "keeps (tunnel c p T []) (bind (conn_recv c n) (?after b))" if "b_dtran b = 0" for b n
    unfolding keeps_def by (rule triple_bind [OF tun_recv after [OF that]])
  have "keeps (tunnel c p T []) (with_buf c (\<lambda>_ b. bind (conn_recv c (b_dsize b)) (?after b)))"
    by (rule tun_with_buf) (rule recv)
  moreover have "keeps (tunnel c p T []) (only_if z (set_buf c (Some (new_buffer len))))" for z len
    by (intro keeps_only_if tun_set_buf) (auto simp: new_buffer_def)
  ultimately show ?thesis
    unfolding pass_through_def Let_def by (intro keeps_with_conn keeps_bind keeps_reads keeps_seq)
qed

lemma tun_pass_loop: "tunnel c p T [] w \<Longrightarrow> tunnel c p T [] (snd (pass_loop c p w))"
proof (induction c p w rule: pass_loop.induct)
  case (1 c p w)
  obtain r w1 where r: "pass_through c p w = (r, w1)" by fastforce
  have w1: "tunnel c p T [] w1" using keepsD [OF tun_pass_through 1(2)] r by (metis snd_conv)
  show ?case
    using 1(1) [OF r [symmetric] _ _ w1] r w1 by (subst pass_loop.simps) (auto split: result.splits)
qed

text \<open>
  C2: the tunnel is transparent. However the loop that passes a device's bytes on ends, and
  whatever sizes the reads and writes have, what the client was sent, what is queued for it
  and what the device's socket still holds make up the same stream as before.
\<close>

theorem tunnel_transparent:
  assumes "reachable w" "w_conns w c = Some q" "w_conns w p = Some r" "pass_loop c p w = (res, w')"
  shows "\<exists>r'. w_conns w' p = Some r' \<and>
    w_sent w' p @ q_stream (c_out r') @ rx_stream w' c = w_sent w p @ q_stream (c_out r) @ rx_stream w c"
proof -
  have "all_counted w" by (rule reachable_counted [OF assms(1)])
  then have "tunnel c p (w_sent w p @ q_stream (c_out r) @ rx_stream w c) [] w"
    using assms(3) by (auto simp: tunnel_def all_counted_def conn_counted_def)
  from tun_pass_loop [OF this] assms(4) show ?thesis by (auto simp: tunnel_def)
qed

definition arrived :: world where
  "arrived = two_clients\<lparr>w_rx := (\<lambda>_. [])(0 := [Rx_data ''abc''])\<rparr>"

theorem tunnel_transparent_witness:
  "\<exists>r. w_conns (snd (pass_loop 0 1 arrived)) 1 = Some r \<and>
    w_sent (snd (pass_loop 0 1 arrived)) 1 @ q_stream (c_out r) @ rx_stream (snd (pass_loop 0 1 arrived)) 0 = ''abc''"
proof -
  have "environment_change two_clients arrived"
    unfolding environment_change_def arrived_def
    by (rule exI [of _ "(\<lambda>_. [])(0 := [Rx_data ''abc''])"], rule exI [of _ "w_tx two_clients"], rule exI [of _ "w_est two_clients"],
        rule exI [of _ "w_readable two_clients"], rule exI [of _ "w_ok two_clients"], rule exI [of _ "w_junk two_clients"],
        rule exI [of _ "w_usage two_clients"]) simp
  then have reach: "reachable arrived" by (rule reachable_step [OF reachable_two_clients step_environment])
  have c: "w_conns arrived 0 = Some (joined_conn 0 1 7 ''::1'' 80 False)" "w_conns arrived 1 = Some (joined_conn 0 1 8 ''::1'' 81 False)"
    using two_clients_conns by (simp_all add: arrived_def)
  have "q_stream (c_out (joined_conn 0 1 8 ''::1'' 81 False)) = []"
    by (simp add: joined_conn_def fresh_conn_def new_conn_def q_new_def q_stream_def)
  moreover have "rx_stream arrived 0 = ''abc''" "w_sent arrived 1 = []"
    by (simp_all add: arrived_def rx_stream_def rx_bytes_def two_clients_conns(4))
  ultimately show ?thesis
    using tunnel_transparent [OF reach c surjective_pairing] by simp
qed

end
