(* ===== verification/Connector.thy ===== *)
theory Connector
  imports Proxy_State
begin

text \<open>
  The connection to the stun server, \<open>core/connector.h\<close> and \<open>core/connector.cpp\<close>: any thread
  hands a packet over through a pipe, the main thread queues it and sends it on a connection
  that is opened when it is needed and opened again when it breaks. The model keeps the socket,
  the events that are added, the pipe with the pointers in it, the queue, and what every
  socket was sent. An operation that would fail an assertion or follow a pointer to a buffer
  that is not there has no result.
\<close>

section \<open>The state\<close>

datatype ctor_state = failed | disconnected | connecting | connected

primrec ctor_val :: "ctor_state \<Rightarrow> int" where
  "ctor_val failed = -1"
| "ctor_val disconnected = 0"
| "ctor_val connecting = 1"
| "ctor_val connected = 2"

instantiation ctor_state :: linorder
begin

definition less_eq_ctor_state :: "ctor_state \<Rightarrow> ctor_state \<Rightarrow> bool" where
  "less_eq_ctor_state s t \<longleftrightarrow> ctor_val s \<le> ctor_val t"

definition less_ctor_state :: "ctor_state \<Rightarrow> ctor_state \<Rightarrow> bool" where
  "less_ctor_state s t \<longleftrightarrow> ctor_val s < ctor_val t"

instance
proof
  fix s t :: ctor_state
  assume "s \<le> t" "t \<le> s"
  then show "s = t" by (cases s; cases t) (simp_all add: less_eq_ctor_state_def)
qed (auto simp: less_eq_ctor_state_def less_ctor_state_def)

end

text \<open>
  \<open>connect\<close> completes at once, is in progress, or fails. \<open>ct_open\<close> are the sockets that are
  open, \<open>ct_sent\<close> what each was sent, \<open>ct_heap\<close> the buffers that are on their way through the
  pipe, and \<open>ct_ok\<close>, \<open>ct_con\<close>, \<open>ct_tx\<close>, \<open>ct_reads\<close> what the calls of the system will give: a call
  that can fail succeeds when nothing is said, \<open>connect\<close> is then in progress, a send takes
  everything and a read what is there.
\<close>

datatype con_result = Con_now | Con_progress | Con_error

record connector =
  ct_state :: ctor_state
  ct_sock :: "nat option"
  ct_open :: "nat list"
  ct_next :: nat
  ct_rd :: bool
  ct_wr :: bool
  ct_tm :: "nat option"
  ct_nt :: bool
  ct_out :: buffer_queue
  ct_buf :: bytes
  ct_pipe :: bytes
  ct_pipe_open :: bool
  ct_heap :: "nat \<Rightarrow> buffer option"
  ct_sent :: "nat \<Rightarrow> bytes"
  ct_respond :: nat
  ct_ok :: "bool list"
  ct_con :: "con_result list"
  ct_tx :: "tx list"
  ct_reads :: "nat list"

definition PIPE_MSG_SIZE :: nat where "PIPE_MSG_SIZE = 8"

definition new_connector :: connector where
  "new_connector = \<lparr>ct_state = disconnected, ct_sock = None, ct_open = [], ct_next = 0, ct_rd = False, ct_wr = False,
     ct_tm = None, ct_nt = False, ct_out = q_new, ct_buf = [], ct_pipe = [], ct_pipe_open = False, ct_heap = Map.empty,
     ct_sent = (\<lambda>_. []), ct_respond = 60, ct_ok = [], ct_con = [], ct_tx = [], ct_reads = []\<rparr>"

text \<open>A call that can fail, and what follows in either case.\<close>

definition call :: "(connector \<Rightarrow> 'a) \<Rightarrow> (connector \<Rightarrow> 'a) \<Rightarrow> connector \<Rightarrow> 'a" where
  "call fail_k ok_k c = (case ct_ok c of
      [] \<Rightarrow> ok_k c
    | b # bs \<Rightarrow> (if b then ok_k else fail_k) (c\<lparr>ct_ok := bs\<rparr>))"

definition connect_call :: "connector \<Rightarrow> con_result \<times> connector" where
  "connect_call c = (case ct_con c of [] \<Rightarrow> (Con_progress, c) | r # rs \<Rightarrow> (r, c\<lparr>ct_con := rs\<rparr>))"

section \<open>Opening and closing\<close>

text \<open>The label \<open>fail\<close> of \<open>open_sock\<close>, with the two bits of \<open>mask\<close>.\<close>

definition open_sock_fail :: "nat \<Rightarrow> bool \<Rightarrow> bool \<Rightarrow> connector \<Rightarrow> connector" where
  "open_sock_fail s mask1 mask2 c =
     c\<lparr>ct_wr := (if mask2 then False else ct_wr c), ct_rd := (if mask1 then False else ct_rd c),
       ct_open := removeAll s (ct_open c), ct_state := disconnected\<rparr>"

definition open_sock_timer :: "nat \<Rightarrow> connector \<Rightarrow> connector" where
  "open_sock_timer s = call (open_sock_fail s True True)
     (call (open_sock_fail s True True) (\<lambda>c. c\<lparr>ct_tm := Some (ct_respond c), ct_state := connecting\<rparr>))"

definition open_sock_events :: "nat \<Rightarrow> con_result \<Rightarrow> connector \<Rightarrow> connector" where
  "open_sock_events s r =
     call (open_sock_fail s False False)
     (call (open_sock_fail s False False) (\<lambda>c.
      call (open_sock_fail s True False)
     (call (open_sock_fail s True False) (\<lambda>c.
        if r = Con_now then c\<lparr>ct_wr := True, ct_state := connected\<rparr>
        else open_sock_timer s (c\<lparr>ct_wr := True\<rparr>)))
     (c\<lparr>ct_rd := True\<rparr>)))"

definition open_sock :: "connector \<Rightarrow> connector option" where
  "open_sock c = (if ct_state c \<noteq> disconnected then None
     else Some (call (\<lambda>c. c\<lparr>ct_sock := None, ct_state := disconnected\<rparr>) (\<lambda>c.
       let s = ct_next c in
       call (open_sock_fail s False False)
      (call (open_sock_fail s False False) (\<lambda>c. case connect_call c of (r, c) \<Rightarrow>
        if r = Con_error then open_sock_fail s False False c else open_sock_events s r c))
       (c\<lparr>ct_sock := Some s, ct_next := Suc s, ct_open := s # ct_open c\<rparr>)) c))"

definition close_sock :: "connector \<Rightarrow> connector" where
  "close_sock c = (if ct_state c = disconnected then c
     else c\<lparr>ct_rd := False, ct_wr := False, ct_tm := (if ct_state c = connecting then None else ct_tm c),
       ct_open := (case ct_sock c of None \<Rightarrow> ct_open c | Some s \<Rightarrow> removeAll s (ct_open c)), ct_state := disconnected\<rparr>)"

definition open_pipe :: "connector \<Rightarrow> bool \<times> connector" where
  "open_pipe c = call (\<lambda>c. (False, c)) (\<lambda>c.
     let fail = (\<lambda>c. (False, c\<lparr>ct_pipe_open := False\<rparr>)) in
     call fail (call fail (call fail (\<lambda>c. (True, c\<lparr>ct_nt := True\<rparr>))))
       (c\<lparr>ct_pipe_open := True, ct_pipe := []\<rparr>)) c"

definition close_pipe :: "connector \<Rightarrow> connector" where
  "close_pipe c = c\<lparr>ct_nt := False, ct_pipe_open := False\<rparr>"

text \<open>\<open>open\<close>: the address is looked at first, and the result is the state or \<open>failed\<close>.\<close>

datatype family = AF_INET | AF_INET6 | AF_OTHER

definition connector_open :: "family \<Rightarrow> connector \<Rightarrow> (ctor_state \<times> connector) option" where
  "connector_open af c =
     (if af \<noteq> AF_INET \<and> af \<noteq> AF_INET6 then Some (failed, c)
      else (case open_pipe c of (ok, c) \<Rightarrow>
        if \<not> ok then Some (failed, c)
        else (case open_sock c of None \<Rightarrow> None | Some c \<Rightarrow> Some (ct_state c, c))))"

definition connector_close :: "connector \<Rightarrow> connector" where
  "connector_close c = close_pipe (close_sock c)"

definition reopen_sock :: "connector \<Rightarrow> connector option" where
  "reopen_sock c = (let c = close_sock c in if q_empty (ct_out c) then Some c else open_sock c)"

text \<open>The text of a state; the assertion is on its range.\<close>

definition get_state_text :: "ctor_state \<Rightarrow> bytes option" where
  "get_state_text s = (if \<not> (disconnected \<le> s \<and> s \<le> connected) then None
     else Some ([''disconnected'', ''connecting'', ''connected''] ! nat (ctor_val s)))"

definition log_state :: "connector \<Rightarrow> connector option" where
  "log_state c = (if get_state_text (ct_state c) = None then None else Some c)"

section \<open>Sending\<close>

text \<open>
  One call of \<open>send\<close>: \<open>None\<close> when the socket is full, else the bytes that were taken, none of
  them when the peer has closed or the call fails.
\<close>

definition take_tx :: "connector \<Rightarrow> bytes \<Rightarrow> bytes option \<times> connector" where
  "take_tx c bs = (case ct_tx c of
      [] \<Rightarrow> (Some bs, c)
    | t # ts \<Rightarrow> (case t of
          Tx_take n \<Rightarrow> (Some (take n bs), c\<lparr>ct_tx := ts\<rparr>)
        | Tx_again \<Rightarrow> (None, c\<lparr>ct_tx := ts\<rparr>)
        | Tx_close \<Rightarrow> (Some [], c\<lparr>ct_tx := ts\<rparr>)
        | Tx_error \<Rightarrow> (Some [], c\<lparr>ct_tx := ts\<rparr>)))"

definition sock_send :: "connector \<Rightarrow> bytes \<Rightarrow> bytes option \<times> connector" where
  "sock_send c bs = (case ct_sock c of
      Some s \<Rightarrow> if s \<in> set (ct_open c)
        then (case take_tx c bs of
            (Some got, c) \<Rightarrow> (Some got, c\<lparr>ct_sent := (ct_sent c)(s := ct_sent c s @ got)\<rparr>)
          | (None, c) \<Rightarrow> (None, c))
        else (Some [], c)
    | None \<Rightarrow> (Some [], c))"

definition set_top :: "buffer \<Rightarrow> connector \<Rightarrow> connector" where
  "set_top b c = c\<lparr>ct_out := (ct_out c)\<lparr>q_bufs := b # tl (q_bufs (ct_out c))\<rparr>\<rparr>"

definition pop_out :: "connector \<Rightarrow> connector" where
  "pop_out c = c\<lparr>ct_out := snd (q_pop True (ct_out c))\<rparr>"

text \<open>The end of the loop when the connection is gone.\<close>

definition send_failed :: "buffer \<Rightarrow> connector \<Rightarrow> connector option" where
  "send_failed b c = (case reopen_sock (if b_dtran b \<noteq> 0 then pop_out c else c) of
      None \<Rightarrow> None | Some c \<Rightarrow> log_state c)"

definition ct_left :: "connector \<Rightarrow> nat" where
  "ct_left c = (\<Sum>b\<leftarrow>q_bufs (ct_out c). b_dlen b - b_dtran b)"

lemma take_tx_frame: "take_tx c bs = (r, c') \<Longrightarrow> ct_out c' = ct_out c \<and> (\<forall>got. r = Some got \<longrightarrow> length got \<le> length bs)"
  by (auto simp: take_tx_def split: list.splits tx.splits)

lemma sock_send_frame: "sock_send c bs = (r, c') \<Longrightarrow> ct_out c' = ct_out c \<and> (\<forall>got. r = Some got \<longrightarrow> length got \<le> length bs)"
  using take_tx_frame [of c bs]
  by (auto simp: sock_send_def split: option.splits prod.splits if_splits)

definition sent_some :: "buffer \<Rightarrow> nat \<Rightarrow> connector \<Rightarrow> connector" where
  "sent_some b n c = (let b' = b\<lparr>b_dtran := b_dtran b + n\<rparr>; c = set_top b' c in
     if b_dtran b' = b_dlen b' then pop_out c else c)"

lemma sent_some_left:
  assumes "q_top (ct_out c) = Some b" "n \<noteq> 0" "n \<le> length (unsent b)"
  shows "ct_left (sent_some b n c) < ct_left c"
proof -
  obtain bs where bs: "q_bufs (ct_out c) = b # bs" using assms(1) by (auto simp: q_top_def split: list.splits)
  have "length (unsent b) \<le> b_dlen b - b_dtran b" by (simp add: unsent_def)
  with assms(2,3) have "b_dlen b - (b_dtran b + n) < b_dlen b - b_dtran b" by linarith
  moreover from this have "b_dtran b < b_dlen b" by linarith
  ultimately show ?thesis by (auto simp: ct_left_def sent_some_def set_top_def pop_out_def q_pop_def bs Let_def)
qed

lemma send_step_left:
  assumes "sock_send c (unsent b) = (Some got, c')" "q_top (ct_out c) = Some b" "got \<noteq> []"
  shows "ct_left (sent_some b (length got) c') < ct_left c"
proof -
  have f: "ct_out c' = ct_out c" "length got \<le> length (unsent b)" using sock_send_frame [OF assms(1)] by simp_all
  then have "ct_left (sent_some b (length got) c') < ct_left c'" using assms(2,3) by (intro sent_some_left) simp_all
  then show ?thesis using f by (simp add: ct_left_def)
qed

function ct_send_loop :: "connector \<Rightarrow> connector option" where
  "ct_send_loop c = (case q_top (ct_out c) of
      None \<Rightarrow> Some c
    | Some b \<Rightarrow> (case sock_send c (unsent b) of
          (None, c') \<Rightarrow> Some c'
        | (Some got, c') \<Rightarrow> if got = [] then send_failed b c' else ct_send_loop (sent_some b (length got) c')))"
  by pat_completeness auto
termination
  by (relation "measure ct_left") (simp_all add: send_step_left)

declare ct_send_loop.simps [simp del]

text \<open>\<open>send\<close>: queue a copy and start sending, in whatever state the connection is.\<close>

definition ct_send :: "bytes \<Rightarrow> connector \<Rightarrow> connector option" where
  "ct_send data c = ct_send_loop (c\<lparr>ct_out := q_push (ct_out c) (buffer_of data)\<rparr>)"

section \<open>The pipe\<close>

text \<open>
  \<open>async_send\<close>: a copy of the packet at a free address, which is written to the pipe; a failed
  write deletes it.
\<close>

definition ct_post :: "nat \<Rightarrow> bytes \<Rightarrow> connector \<Rightarrow> bool \<times> connector" where
  "ct_post addr data = call (\<lambda>c. (False, c)) (\<lambda>c.
     (True, c\<lparr>ct_heap := (ct_heap c)(addr \<mapsto> buffer_of data), ct_pipe := ct_pipe c @ le_bytes PIPE_MSG_SIZE addr\<rparr>))"

text \<open>One read: as many bytes as are missing, or fewer.\<close>

definition ct_read :: "connector \<Rightarrow> bytes \<times> connector" where
  "ct_read c = (let room = PIPE_MSG_SIZE - length (ct_buf c);
       n = (case ct_reads c of [] \<Rightarrow> room | k # _ \<Rightarrow> max 1 (min k room))
     in (take n (ct_pipe c), c\<lparr>ct_pipe := drop n (ct_pipe c), ct_reads := tl (ct_reads c)\<rparr>))"

text \<open>A complete pointer: the buffer is queued, and sent when there is a connection.\<close>

definition ct_take :: "nat \<Rightarrow> connector \<Rightarrow> connector option" where
  "ct_take addr c = (case ct_heap c addr of
      None \<Rightarrow> None
    | Some b \<Rightarrow>
        let c = c\<lparr>ct_out := q_push (ct_out c) b, ct_heap := (ct_heap c)(addr := None)\<rparr> in
        (case (if ct_state c = disconnected
               then (case open_sock c of None \<Rightarrow> None | Some c \<Rightarrow> log_state c) else Some c) of
           None \<Rightarrow> None
         | Some c \<Rightarrow> if ct_state c = connected then ct_send_loop c else Some c))"

definition ct_got :: "bytes \<Rightarrow> connector \<Rightarrow> connector option" where
  "ct_got bs c = (let buf = ct_buf c @ bs in
     if length buf = PIPE_MSG_SIZE then ct_take (le_val buf) (c\<lparr>ct_buf := []\<rparr>)
     else Some (c\<lparr>ct_buf := buf\<rparr>))"

section \<open>What the work on the socket leaves alone\<close>

lemma call_rule:
  assumes "\<And>oks. Q (A (c\<lparr>ct_ok := oks\<rparr>))" "\<And>oks. Q (B (c\<lparr>ct_ok := oks\<rparr>))"
  shows "Q (call A B c)"
  using assms(1) [of "tl (ct_ok c)"] assms(2) [of "tl (ct_ok c)"] assms(2) [of "ct_ok c"]
  by (auto simp: call_def split: list.split)

text \<open>
  A part of the state that opening, closing and sending do not touch: it does not depend on
  the fields these write.
\<close>

locale pipe_part =
  fixes part :: "connector \<Rightarrow> 'x"
  assumes part_fields: "part (c\<lparr>ct_state := st\<rparr>) = part c" "part (c\<lparr>ct_sock := so\<rparr>) = part c" "part (c\<lparr>ct_open := op\<rparr>) = part c"
    "part (c\<lparr>ct_next := nx\<rparr>) = part c" "part (c\<lparr>ct_rd := rd\<rparr>) = part c" "part (c\<lparr>ct_wr := wr\<rparr>) = part c"
    "part (c\<lparr>ct_tm := tm\<rparr>) = part c" "part (c\<lparr>ct_out := q\<rparr>) = part c" "part (c\<lparr>ct_sent := se\<rparr>) = part c"
    "part (c\<lparr>ct_ok := oks\<rparr>) = part c" "part (c\<lparr>ct_con := cons\<rparr>) = part c" "part (c\<lparr>ct_tx := txs\<rparr>) = part c"
begin

lemma part_open_sock_fail: "part (open_sock_fail s m1 m2 c) = part c"
  by (simp add: open_sock_fail_def part_fields)

lemma part_connect: "connect_call c = (r, c') \<Longrightarrow> part c' = part c"
  by (auto simp: connect_call_def part_fields split: list.splits)

lemma part_open_sock_timer: "part (open_sock_timer s c) = part c"
  unfolding open_sock_timer_def
  by (intro call_rule [where Q = "\<lambda>c'. part c' = part c"]) (simp_all add: part_open_sock_fail part_fields)

lemma part_open_sock_events: "part (open_sock_events s r c) = part c"
  unfolding open_sock_events_def
  by (intro call_rule [where Q = "\<lambda>c'. part c' = part c"])
    (simp_all add: part_open_sock_fail part_open_sock_timer part_fields)

lemma part_open_sock: "open_sock c = Some c' \<Longrightarrow> part c' = part c"
proof -
  assume "open_sock c = Some c'"
  moreover have "part (the (open_sock c)) = part c" if "ct_state c = disconnected"
    using that unfolding open_sock_def Let_def
    by (simp, intro call_rule [where Q = "\<lambda>c'. part c' = part c"])
      (auto simp: part_open_sock_fail part_open_sock_events part_fields dest: part_connect split: prod.split)
  ultimately show ?thesis by (auto simp: open_sock_def split: if_splits)
qed

lemma part_close_sock: "part (close_sock c) = part c"
  by (simp add: close_sock_def part_fields split: option.split)

lemma part_reopen_sock: "reopen_sock c = Some c' \<Longrightarrow> part c' = part c"
  by (auto simp: reopen_sock_def Let_def part_close_sock dest: part_open_sock split: if_splits)

lemma part_sock_send: "sock_send c bs = (r, c') \<Longrightarrow> part c' = part c"
  by (auto simp: sock_send_def take_tx_def part_fields split: option.splits list.splits tx.splits if_splits)

lemma part_send_failed: "send_failed b c = Some c' \<Longrightarrow> part c' = part c"
  by (auto simp: send_failed_def log_state_def pop_out_def part_fields dest!: part_reopen_sock split: option.splits if_splits)

lemma part_sent_some: "part (sent_some b n c) = part c"
  by (simp add: sent_some_def set_top_def pop_out_def part_fields Let_def)

lemma part_send_loop: "ct_send_loop c = Some c' \<Longrightarrow> part c' = part c"
proof (induction c arbitrary: c' rule: ct_send_loop.induct)
  case (1 c)
  show ?case
  proof (cases "q_top (ct_out c)")
    case None
    with 1(2) show ?thesis by (simp add: ct_send_loop.simps [of c])
  next
    case (Some b)
    obtain r c1 where s: "sock_send c (unsent b) = (r, c1)" by fastforce
    show ?thesis
    proof (cases "r = None \<or> r = Some []")
      case True
      with 1(2) Some s part_sock_send [OF s] part_send_failed show ?thesis
        by (auto simp: ct_send_loop.simps [of c])
    next
      case False
      then obtain got where got: "r = Some got" "got \<noteq> []" by auto
      with 1(2) Some s have "ct_send_loop (sent_some b (length got) c1) = Some c'" by (simp add: ct_send_loop.simps [of c])
      from 1(1) [OF Some s [symmetric] got this] part_sock_send [OF s] show ?thesis by (simp add: part_sent_some)
    qed
  qed
qed

lemma part_take:
  assumes "ct_take addr c = Some c'" "\<And>c h. part (c\<lparr>ct_heap := h\<rparr>) = part c"
  shows "part c' = part c"
  using assms
  by (auto simp: ct_take_def Let_def log_state_def part_fields dest!: part_send_loop part_open_sock split: option.splits if_splits)

end

interpretation pipe: pipe_part ct_pipe by unfold_locales simp_all
interpretation buf: pipe_part ct_buf by unfold_locales simp_all
interpretation heap: pipe_part ct_heap by unfold_locales simp_all
interpretation notify: pipe_part ct_nt by unfold_locales simp_all

lemma ct_got_pipe: "ct_got bs c = Some c' \<Longrightarrow> ct_pipe c' = ct_pipe c"
  using pipe.part_take [of "le_val (ct_buf c @ bs)" "c\<lparr>ct_buf := []\<rparr>" c']
  by (auto simp: ct_got_def Let_def split: if_splits)

lemma ct_read_shorter: "ct_read c = (bs, c') \<Longrightarrow> bs \<noteq> [] \<Longrightarrow> length (ct_pipe c') < length (ct_pipe c)"
  by (auto simp: ct_read_def Let_def)

lemma notify_shorter:
  "(bs, c') = ct_read c \<Longrightarrow> bs \<noteq> [] \<Longrightarrow> ct_got bs c' = Some c'' \<Longrightarrow> length (ct_pipe c'') < length (ct_pipe c)"
  using ct_read_shorter [of c bs c'] ct_got_pipe [of bs c' c''] by simp

section \<open>The event handlers\<close>

function handle_notify_loop :: "connector \<Rightarrow> connector option" where
  "handle_notify_loop c = (case ct_read c of (bs, c') \<Rightarrow>
     if bs = [] then Some c'
     else (case ct_got bs c' of None \<Rightarrow> None | Some c'' \<Rightarrow> handle_notify_loop c''))"
  by pat_completeness auto
termination
  by (relation "measure (\<lambda>c. length (ct_pipe c))") (simp_all add: notify_shorter)

declare handle_notify_loop.simps [simp del]

definition on_notify :: "bool \<Rightarrow> connector \<Rightarrow> connector option" where
  "on_notify ev_read c = (if \<not> ev_read then Some c else handle_notify_loop c)"

definition handle_connect_timeout :: "connector \<Rightarrow> connector option" where
  "handle_connect_timeout c =
     (if ct_state c \<noteq> connecting then None else reopen_sock (c\<lparr>ct_out := q_clear (ct_out c)\<rparr>))"

text \<open>What comes from the server is read one byte at a time and thrown away.\<close>

definition peer_gone :: "rx \<Rightarrow> bool" where
  "peer_gone r \<longleftrightarrow> (case r of Rx_data bs \<Rightarrow> bs = [] | Rx_again \<Rightarrow> False | Rx_close \<Rightarrow> True | Rx_error \<Rightarrow> True)"

definition ct_handle_read :: "rx \<Rightarrow> connector \<Rightarrow> connector option" where
  "ct_handle_read r c = (if peer_gone r
     then (case reopen_sock c of None \<Rightarrow> None | Some c \<Rightarrow> log_state c) else Some c)"

definition on_read :: "bool \<Rightarrow> rx \<Rightarrow> connector \<Rightarrow> connector option" where
  "on_read ev_read r c = (if \<not> ev_read then Some c else ct_handle_read r c)"

definition connect_done :: "connector \<Rightarrow> connector option" where
  "connect_done c = call reopen_sock (\<lambda>c. Some (c\<lparr>ct_state := connected, ct_tm := None\<rparr>)) c"

definition ct_handle_write :: "connector \<Rightarrow> connector option" where
  "ct_handle_write c =
     (case (if ct_state c = connecting
            then (case connect_done c of None \<Rightarrow> None | Some c \<Rightarrow> log_state c) else Some c) of
        None \<Rightarrow> None
      | Some c \<Rightarrow> if ct_state c = connected then ct_send_loop c else Some c)"

definition on_write :: "bool \<Rightarrow> connector \<Rightarrow> connector option" where
  "on_write ev_write c = (if \<not> ev_write then Some c else ct_handle_write c)"

section \<open>Runs\<close>

text \<open>
  What can happen to an open connector: a thread posts a packet at a free address, and an
  event that was added occurs. The timer is gone when its handler is called.
\<close>

datatype ctor_event = Post nat bytes | Pipe_event bool | Read_event bool rx | Write_event bool | Timer_event

definition ctor_enabled :: "ctor_event \<Rightarrow> connector \<Rightarrow> bool" where
  "ctor_enabled e c = (case e of
      Post addr data \<Rightarrow> ct_heap c addr = None \<and> addr < 2 ^ 64 \<and> ct_pipe_open c
    | Pipe_event _ \<Rightarrow> ct_nt c
    | Read_event _ _ \<Rightarrow> ct_rd c
    | Write_event _ \<Rightarrow> ct_wr c
    | Timer_event \<Rightarrow> ct_tm c \<noteq> None)"

definition ctor_run :: "ctor_event \<Rightarrow> connector \<Rightarrow> connector option" where
  "ctor_run e c = (case e of
      Post addr data \<Rightarrow> Some (snd (ct_post addr data c))
    | Pipe_event ev \<Rightarrow> on_notify ev c
    | Read_event ev r \<Rightarrow> on_read ev r c
    | Write_event ev \<Rightarrow> on_write ev c
    | Timer_event \<Rightarrow> handle_connect_timeout (c\<lparr>ct_tm := None\<rparr>))"

definition ctor_environment :: "connector \<Rightarrow> connector \<Rightarrow> bool" where
  "ctor_environment c c' \<longleftrightarrow> (\<exists>oks cons txs rs. c' = c\<lparr>ct_ok := oks, ct_con := cons, ct_tx := txs, ct_reads := rs\<rparr>)"

inductive ctor_reachable :: "connector \<Rightarrow> bool" where
  ctor_open: "ctor_environment new_connector c \<Longrightarrow> connector_open af c = Some (st, c') \<Longrightarrow> st \<noteq> failed \<Longrightarrow> ctor_reachable c'"
| ctor_event: "ctor_reachable c \<Longrightarrow> ctor_enabled e c \<Longrightarrow> ctor_run e c = Some c' \<Longrightarrow> ctor_reachable c'"
| ctor_env: "ctor_reachable c \<Longrightarrow> ctor_environment c c' \<Longrightarrow> ctor_reachable c'"

inductive_cases ctor_reachable_cases: "ctor_reachable c"

end
