(* ===== verification/Connector_Inv.thy ===== *)
theory Connector_Inv
  imports Connector
begin

text \<open>
  What holds of the connection to the stun server in every state a run reaches: the state
  agrees with the socket and the events that are added, no handler fails an assertion, the
  pointers in the pipe belong to buffers, and what a connection is sent is cut at packets.
\<close>

section \<open>The socket\<close>

definition closed :: "connector \<Rightarrow> bool" where
  "closed c \<longleftrightarrow> ct_state c = disconnected \<and> \<not> ct_rd c \<and> \<not> ct_wr c \<and> ct_tm c = None \<and> ct_open c = []"

definition live_on :: "nat \<Rightarrow> connector \<Rightarrow> bool" where
  "live_on s c \<longleftrightarrow> (ct_state c = connecting \<or> ct_state c = connected) \<and> ct_rd c \<and> ct_wr c \<and>
     (ct_state c = connected \<longrightarrow> ct_tm c = None) \<and> ct_sock c = Some s \<and> ct_open c = [s] \<and> s < ct_next c"

definition sock_inv :: "connector \<Rightarrow> bool" where
  "sock_inv c \<longleftrightarrow> (closed c \<or> (\<exists>s. live_on s c)) \<and> (ct_state c = connecting \<longrightarrow> ct_tm c \<noteq> None)"

lemma closed_inv: "closed c \<Longrightarrow> sock_inv c"
  by (simp add: sock_inv_def closed_def)

text \<open>What opening does: it leaves queue and output alone and ends closed or on a new socket.\<close>

definition opened :: "connector \<Rightarrow> connector \<Rightarrow> bool" where
  "opened c c' \<longleftrightarrow> ct_out c' = ct_out c \<and> ct_sent c' = ct_sent c \<and> ct_next c \<le> ct_next c' \<and>
     (closed c' \<or> live_on (ct_next c) c' \<and> (ct_state c' = connecting \<longrightarrow> ct_tm c' \<noteq> None))"

definition fresh_sock :: "connector \<Rightarrow> connector \<Rightarrow> bool" where
  "fresh_sock c c' \<longleftrightarrow> ct_out c' = ct_out c \<and> ct_sent c' = ct_sent c \<and> ct_next c' = Suc (ct_next c) \<and>
     ct_state c' = disconnected \<and> ct_tm c' = None \<and> ct_sock c' = Some (ct_next c) \<and> ct_open c' = [ct_next c]"

lemma fresh_sock_ok [simp]: "fresh_sock c (c'\<lparr>ct_ok := oks\<rparr>) = fresh_sock c c'"
  by (simp add: fresh_sock_def)

lemma opened_fail:
  "fresh_sock c c' \<Longrightarrow> ct_rd c' = m1 \<Longrightarrow> ct_wr c' = m2 \<Longrightarrow> opened c (open_sock_fail (ct_next c) m1 m2 c')"
  by (auto simp: opened_def fresh_sock_def open_sock_fail_def closed_def)

lemma opened_timer:
  assumes "fresh_sock c c'" "ct_rd c'" "ct_wr c'"
  shows "opened c (open_sock_timer (ct_next c) c')"
  unfolding open_sock_timer_def
proof (intro call_rule [where Q = "opened c"])
  fix oks oks'
  show "opened c (c'\<lparr>ct_ok := oks, ct_ok := oks', ct_tm := Some (ct_respond (c'\<lparr>ct_ok := oks, ct_ok := oks'\<rparr>)), ct_state := connecting\<rparr>)"
    using assms by (simp add: opened_def fresh_sock_def live_on_def)
qed (use assms in \<open>auto intro!: opened_fail\<close>)

lemma opened_events:
  assumes "fresh_sock c c'" "\<not> ct_rd c'" "\<not> ct_wr c'"
  shows "opened c (open_sock_events (ct_next c) r c')"
proof -
  have t: "opened c (open_sock_timer (ct_next c) (d\<lparr>ct_wr := True\<rparr>))" if "fresh_sock c d" "ct_rd d" for d
    using that by (intro opened_timer) (auto simp: fresh_sock_def)
  have n: "opened c (d\<lparr>ct_wr := True, ct_state := connected\<rparr>)" if "fresh_sock c d" "ct_rd d" for d
    using that by (auto simp: fresh_sock_def opened_def live_on_def)
  have rd: "fresh_sock c (d\<lparr>ct_rd := True\<rparr>)" if "fresh_sock c d" for d using that by (simp add: fresh_sock_def)
  show ?thesis
    unfolding open_sock_events_def
    by (intro call_rule [where Q = "opened c"]) (use assms in \<open>auto intro!: opened_fail t n rd\<close>)
qed

lemma opened_sock:
  assumes "closed c"
  shows "\<exists>c'. open_sock c = Some c' \<and> opened c c'"
proof -
  note facts = assms [unfolded closed_def]
  let ?new = "\<lambda>oks. c\<lparr>ct_sock := Some (ct_next c), ct_next := Suc (ct_next c), ct_open := [ct_next c], ct_ok := oks\<rparr>"
  have new: "fresh_sock c (?new oks)" for oks
    using facts by (simp add: fresh_sock_def)
  have con: "fresh_sock c (snd (connect_call d)) \<and> ct_rd (snd (connect_call d)) = ct_rd d \<and> ct_wr (snd (connect_call d)) = ct_wr d"
    if "fresh_sock c d" for d
    using that by (auto simp: connect_call_def fresh_sock_def split: list.splits)
  have fail: "opened c (open_sock_fail (ct_next c) False False (?new oks))" for oks
    by (rule opened_fail [OF new]) (use facts in simp_all)
  have err: "opened c (open_sock_fail (ct_next c) False False (snd (connect_call (?new oks))))"
    and events: "opened c (open_sock_events (ct_next c) r (snd (connect_call (?new oks))))" for oks r
    using con [OF new, of oks] facts by (auto intro!: opened_fail opened_events)
  have none: "opened c (c\<lparr>ct_ok := oks, ct_sock := None, ct_state := disconnected\<rparr>)" for oks
    using facts by (simp add: opened_def closed_def)
  have "opened c (the (open_sock c))"
    using facts unfolding open_sock_def Let_def case_prod_beta
    by (simp, intro call_rule [where Q = "opened c"]) (use none fail err events in simp_all)
  then show ?thesis using assms by (simp add: open_sock_def closed_def)
qed

text \<open>Closing from a state whose timer may already be gone.\<close>

lemma closed_close_sock:
  assumes "closed c \<or> (\<exists>s. live_on s c)"
  shows "closed (close_sock c)" "ct_out (close_sock c) = ct_out c" "ct_sent (close_sock c) = ct_sent c" "ct_next (close_sock c) = ct_next c"
  using assms by (auto simp: closed_def live_on_def close_sock_def)

lemma opened_inv: "opened c c' \<Longrightarrow> sock_inv c'"
  by (auto simp: opened_def sock_inv_def closed_def)

lemma log_state_inv: "sock_inv c \<Longrightarrow> log_state c = Some c"
  by (auto simp: log_state_def get_state_text_def sock_inv_def closed_def live_on_def less_eq_ctor_state_def)

section \<open>What a socket is sent\<close>

text \<open>
  \<open>P\<close> says what a packet is. The bytes of a socket are the beginning of a sequence of packets;
  the queue holds packets, of which only the first may be sent in part, and only while there
  is a connection.
\<close>

definition whole :: "(bytes \<Rightarrow> bool) \<Rightarrow> bytes \<Rightarrow> bool" where
  "whole P bs \<longleftrightarrow> (\<exists>ps k. list_all P ps \<and> bs = take k (concat ps))"

definition packet_buf :: "(bytes \<Rightarrow> bool) \<Rightarrow> buffer \<Rightarrow> bool" where
  "packet_buf P b \<longleftrightarrow> buf_ok b \<and> P (b_data b)"

definition top_sent :: "connector \<Rightarrow> bytes" where
  "top_sent c = (case q_bufs (ct_out c) of [] \<Rightarrow> [] | b # _ \<Rightarrow> take (b_dtran b) (b_data b))"

definition unsent_queue :: "connector \<Rightarrow> bool" where
  "unsent_queue c \<longleftrightarrow> (\<forall>b \<in> set (q_bufs (ct_out c)). b_dtran b = 0)"

definition queue_ok :: "(bytes \<Rightarrow> bool) \<Rightarrow> connector \<Rightarrow> bool" where
  "queue_ok P c \<longleftrightarrow> (\<forall>b \<in> set (q_bufs (ct_out c)). packet_buf P b) \<and> (\<forall>b \<in> set (tl (q_bufs (ct_out c))). b_dtran b = 0)"

definition sent_ok :: "(bytes \<Rightarrow> bool) \<Rightarrow> connector \<Rightarrow> bool" where
  "sent_ok P c \<longleftrightarrow> (\<forall>s. whole P (ct_sent c s)) \<and> (\<forall>s \<ge> ct_next c. ct_sent c s = [])"

definition aligned :: "(bytes \<Rightarrow> bool) \<Rightarrow> connector \<Rightarrow> bool" where
  "aligned P c \<longleftrightarrow> (if ct_state c = connected
     then \<exists>s ps. ct_sock c = Some s \<and> list_all P ps \<and> ct_sent c s = concat ps @ top_sent c
     else unsent_queue c \<and> (ct_state c = connecting \<longrightarrow> (\<exists>s. ct_sock c = Some s \<and> ct_sent c s = [])))"

definition framed :: "(bytes \<Rightarrow> bool) \<Rightarrow> connector \<Rightarrow> bool" where
  "framed P c \<longleftrightarrow> queue_ok P c \<and> sent_ok P c \<and> aligned P c"

lemma tl_in_set: "x \<in> set (tl xs) \<Longrightarrow> x \<in> set xs"
  by (cases xs) auto

lemma wholeI: "list_all P ps \<Longrightarrow> P q \<Longrightarrow> whole P (concat ps @ take k q)"
  unfolding whole_def by (rule exI [of _ "ps @ [q]"], rule exI [of _ "length (concat ps) + k"]) simp

lemma whole_nil: "whole P []"
  unfolding whole_def by (rule exI [of _ "[]"]) simp

lemma top_sent_unsent: "unsent_queue c \<Longrightarrow> top_sent c = []"
  by (auto simp: top_sent_def unsent_queue_def split: list.split)

lemma framed_closed:
  "closed c \<Longrightarrow> queue_ok P c \<Longrightarrow> sent_ok P c \<Longrightarrow> unsent_queue c \<Longrightarrow> framed P c"
  by (simp add: framed_def aligned_def closed_def)

lemma framed_opened:
  assumes "opened c c'" "queue_ok P c" "sent_ok P c" "unsent_queue c"
  shows "framed P c'"
proof -
  have q: "queue_ok P c'" "unsent_queue c'" "sent_ok P c'" using assms by (auto simp: opened_def queue_ok_def unsent_queue_def sent_ok_def)
  have new: "ct_sent c' (ct_next c) = []" using assms(1,3) by (simp add: opened_def sent_ok_def)
  show ?thesis
  proof (cases "closed c'")
    case True
    then show ?thesis using q framed_closed by blast
  next
    case False
    then have l: "live_on (ct_next c) c'" using assms(1) by (simp add: opened_def)
    have "ct_sent c' (ct_next c) = concat [] @ top_sent c'" using new top_sent_unsent [OF q(2)] by simp
    then have "aligned P c'" using l q(2) new unfolding aligned_def live_on_def by (auto intro: exI [of _ "[]"])
    then show ?thesis using q by (simp add: framed_def)
  qed
qed

lemma reopen_sock_ok:
  assumes "closed c \<or> (\<exists>s. live_on s c)"
  shows "\<exists>c'. reopen_sock c = Some c' \<and> sock_inv c' \<and>
     (queue_ok P c \<longrightarrow> sent_ok P c \<longrightarrow> unsent_queue c \<longrightarrow> framed P c')"
proof -
  let ?c = "close_sock c"
  note cl = closed_close_sock [OF assms]
  have q: "queue_ok P ?c = queue_ok P c" "sent_ok P ?c = sent_ok P c" "unsent_queue ?c = unsent_queue c"
    using cl by (simp_all add: queue_ok_def sent_ok_def unsent_queue_def)
  show ?thesis
  proof (cases "q_empty (ct_out ?c)")
    case True
    then show ?thesis using cl closed_inv framed_closed [OF cl(1), of P] q by (simp add: reopen_sock_def Let_def)
  next
    case False
    obtain c' where c': "open_sock ?c = Some c'" "opened ?c c'" using opened_sock [OF cl(1)] by blast
    then show ?thesis using False opened_inv [OF c'(2)] framed_opened [OF c'(2), of P] q by (simp add: reopen_sock_def Let_def)
  qed
qed

section \<open>The sending loop\<close>

lemma sock_send_live:
  assumes "live_on s c" "sock_send c bs = (r, c1)"
  shows "live_on s c1 \<and> ct_state c1 = ct_state c \<and> ct_out c1 = ct_out c \<and> ct_next c1 = ct_next c \<and>
    (\<exists>n. ct_sent c1 = (ct_sent c)(s := ct_sent c s @ take n bs) \<and> (r = None \<longrightarrow> take n bs = []) \<and> (\<forall>got. r = Some got \<longrightarrow> got = take n bs))"
proof -
  obtain r' c0 where t: "take_tx c bs = (r', c0)" by fastforce
  have c0: "live_on s c0" "ct_state c0 = ct_state c" "ct_out c0 = ct_out c" "ct_next c0 = ct_next c" "ct_sent c0 = ct_sent c"
    using t assms(1) by (auto simp: take_tx_def live_on_def split: list.splits tx.splits)
  have r': "\<exists>n. (r' = None \<longrightarrow> take n bs = []) \<and> (\<forall>got. r' = Some got \<longrightarrow> got = take n bs)"
    using t by (auto simp: take_tx_def split: list.splits tx.splits intro: exI [of _ "length bs"] exI [of _ 0])
  have s: "ct_sock c = Some s" "s \<in> set (ct_open c)" using assms(1) by (auto simp: live_on_def)
  show ?thesis
  proof (cases r')
    case None
    then have "r = None" "c1 = c0" using assms(2) s t by (auto simp: sock_send_def)
    with c0 show ?thesis by (auto intro!: exI [of _ 0])
  next
    case (Some got)
    then have "r = Some got" "c1 = c0\<lparr>ct_sent := (ct_sent c0)(s := ct_sent c0 s @ got)\<rparr>" using assms(2) s t by (auto simp: sock_send_def)
    with c0 r' Some show ?thesis by (auto simp: live_on_def)
  qed
qed

lemma framed_queue:
  assumes "framed P c" "q_bufs (ct_out c) = b # bs"
  shows "b_dtran b \<le> length (b_data b)" "b_dlen b = length (b_data b)" "P (b_data b)" "\<forall>x \<in> set bs. b_dtran x = 0 \<and> packet_buf P x"
    "buf_ok b"
  using assms by (auto simp: framed_def queue_ok_def packet_buf_def buf_ok_def)

lemma framed_sent_some:
  assumes f: "framed P c" and c: "ct_state c = connected" "live_on s c" "q_bufs (ct_out c) = b # bs"
    and c1: "ct_state c1 = connected" "live_on s c1" "ct_out c1 = ct_out c" "ct_next c1 = ct_next c"
      "ct_sent c1 = (ct_sent c)(s := ct_sent c s @ take n (unsent b))" and n: "k = length (take n (unsent b))"
  shows "framed P (sent_some b k c1)"
proof -
  note b = framed_queue [OF f c(3)]
  let ?b = "b\<lparr>b_dtran := b_dtran b + k\<rparr>"
  let ?c = "sent_some b k c1"
  have sock: "ct_sock c = Some s" "s < ct_next c" using c(2) by (auto simp: live_on_def)
  obtain ps where ps: "list_all P ps" "ct_sent c s = concat ps @ take (b_dtran b) (b_data b)"
    using f c sock by (auto simp: framed_def aligned_def top_sent_def)
  have u: "unsent b = drop (b_dtran b) (b_data b)" by (simp add: unsent_def b(2))
  then have k: "b_dtran b + k \<le> length (b_data b)" using n b(1) by simp
  have "take (b_dtran b) (b_data b) @ take n (unsent b) = take (b_dtran b + k) (b_data b)"
    unfolding u n by (cases "n \<le> length (b_data b) - b_dtran b") (simp_all add: take_add min_def)
  then have sent: "ct_sent c1 s = concat ps @ take (b_dtran b + k) (b_data b)" using ps(2) c1(5) by simp
  have out: "q_bufs (ct_out ?c) = (if b_dtran b + k = b_dlen b then bs else ?b # bs)" "ct_sent ?c = ct_sent c1" "ct_state ?c = connected"
      "ct_sock ?c = Some s" "ct_next ?c = ct_next c"
    using c(3) c1 by (auto simp: sent_some_def set_top_def pop_out_def q_pop_def Let_def live_on_def)
  have b': "packet_buf P ?b" using b k by (simp add: packet_buf_def buf_ok_def)
  have "queue_ok P ?c" using b(4) b' unfolding queue_ok_def out(1) by (auto dest: tl_in_set)
  moreover have "whole P (ct_sent ?c s')" for s'
    using f wholeI [OF ps(1) b(3), of "b_dtran b + k"] sent c1(5) out(2) by (cases "s' = s") (simp_all add: framed_def sent_ok_def)
  then have "sent_ok P ?c" using f sock(2) out c1(5) by (simp add: framed_def sent_ok_def)
  moreover have "aligned P ?c"
  proof (cases "b_dtran b + k = b_dlen b")
    case True
    then have "top_sent ?c = []" using out(1) b(4) by (auto simp: top_sent_def split: list.split)
    moreover have "take (b_dtran b + k) (b_data b) = b_data b" using True b(2) by simp
    ultimately show ?thesis using ps(1) b(3) sent out by (auto simp: aligned_def intro!: exI [of _ "ps @ [b_data b]"])
  next
    case False
    then have "top_sent ?c = take (b_dtran b + k) (b_data b)" using out(1) by (simp add: top_sent_def)
    then show ?thesis using ps(1) sent out by (auto simp: aligned_def)
  qed
  ultimately show ?thesis by (simp add: framed_def)
qed

lemma send_failed_ok:
  assumes "live_on s c1" "ct_out c1 = ct_out c" "q_bufs (ct_out c) = b # bs" "ct_sent c1 = ct_sent c" "ct_next c1 = ct_next c"
  shows "\<exists>c'. send_failed b c1 = Some c' \<and> sock_inv c' \<and> (framed P c \<longrightarrow> framed P c')"
proof -
  let ?d = "if b_dtran b \<noteq> 0 then pop_out c1 else c1"
  have live: "closed ?d \<or> (\<exists>s. live_on s ?d)" using assms(1) by (auto simp: live_on_def pop_out_def)
  have q: "q_bufs (ct_out ?d) = (if b_dtran b \<noteq> 0 then bs else b # bs)" "ct_sent ?d = ct_sent c" "ct_next ?d = ct_next c"
    using assms by (simp_all add: pop_out_def q_pop_def)
  have ok: "queue_ok P ?d" "sent_ok P ?d" "unsent_queue ?d" if "framed P c"
    using framed_queue [OF that assms(3)] that q
    by (auto simp: framed_def queue_ok_def sent_ok_def unsent_queue_def assms(3) dest: tl_in_set)
  obtain c' where c': "reopen_sock ?d = Some c'" "sock_inv c'" "queue_ok P ?d \<longrightarrow> sent_ok P ?d \<longrightarrow> unsent_queue ?d \<longrightarrow> framed P c'"
    using reopen_sock_ok [OF live] by blast
  then show ?thesis using ok log_state_inv [OF c'(2)] unfolding send_failed_def by auto
qed

lemma send_loop_ok:
  assumes "live_on s c" "ct_state c = connected"
  shows "\<exists>c'. ct_send_loop c = Some c' \<and> sock_inv c' \<and> (framed P c \<longrightarrow> framed P c')"
  using assms
proof (induction c rule: ct_send_loop.induct)
  case (1 c)
  note step = ct_send_loop.simps [of c]
  show ?case
  proof (cases "q_bufs (ct_out c)")
    case Nil
    then show ?thesis using step 1(2,3) by (auto simp: q_top_def sock_inv_def)
  next
    case bs: (Cons b bs)
    then have top: "q_top (ct_out c) = Some b" by (simp add: q_top_def)
    obtain r c1 where s: "sock_send c (unsent b) = (r, c1)" by fastforce
    obtain n where c1: "live_on s c1" "ct_state c1 = connected" "ct_out c1 = ct_out c" "ct_next c1 = ct_next c"
        "ct_sent c1 = (ct_sent c)(s := ct_sent c s @ take n (unsent b))" "r = None \<longrightarrow> take n (unsent b) = []"
        "\<forall>got. r = Some got \<longrightarrow> got = take n (unsent b)"
      using sock_send_live [OF 1(2) s] 1(3) by auto
    consider (full) "r = None" | (gone) "r = Some []" | (some) got where "r = Some got" "got \<noteq> []" by (cases r) auto
    then show ?thesis
    proof cases
      case full
      then have sent: "ct_sent c1 = ct_sent c" using c1(5,6) by simp
      have "ct_sock c1 = ct_sock c" using c1(1) 1(2) by (simp add: live_on_def)
      then have "framed P c1" if "framed P c"
        using that c1 1(3) sent by (simp add: framed_def queue_ok_def sent_ok_def aligned_def top_sent_def)
      then show ?thesis using step top s full c1(1,2) by (auto simp: sock_inv_def)
    next
      case gone
      then have "ct_sent c1 = ct_sent c" using c1(5,7) by simp
      from send_failed_ok [OF c1(1,3) bs this c1(4), of P] show ?thesis using step top s gone by simp
    next
      case some
      then have got: "got = take n (unsent b)" using c1(7) by simp
      let ?c2 = "sent_some b (length got) c1"
      have "live_on s ?c2" "ct_state ?c2 = connected"
        using c1(1,2) by (auto simp: sent_some_def set_top_def pop_out_def live_on_def Let_def)
      from 1(1) [OF top s [symmetric] some this] obtain c' where
        "ct_send_loop ?c2 = Some c'" "sock_inv c'" "framed P ?c2 \<longrightarrow> framed P c'" by blast
      moreover have "framed P ?c2" if "framed P c"
        by (rule framed_sent_some [OF that 1(3,2) bs c1(2,1,3-5)]) (simp add: got)
      ultimately show ?thesis using step top s some by auto
    qed
  qed
qed

section \<open>The pipe\<close>

text \<open>The bytes read and those in the pipe are the addresses of the buffers on their way.\<close>

definition ptrs :: "connector \<Rightarrow> nat list \<Rightarrow> bool" where
  "ptrs c addrs \<longleftrightarrow> ct_buf c @ ct_pipe c = concat (map (le_bytes PIPE_MSG_SIZE) addrs) \<and> distinct addrs \<and>
     set addrs = dom (ct_heap c) \<and> (\<forall>a \<in> set addrs. a < 2 ^ 64)"

definition ptr_inv :: "connector \<Rightarrow> bool" where
  "ptr_inv c \<longleftrightarrow> length (ct_buf c) < PIPE_MSG_SIZE \<and> (\<exists>addrs. ptrs c addrs)"

definition packets :: "(bytes \<Rightarrow> bool) \<Rightarrow> connector \<Rightarrow> bool" where
  "packets P c \<longleftrightarrow> framed P c \<and> (\<forall>a b. ct_heap c a = Some b \<longrightarrow> packet_buf P b \<and> b_dtran b = 0)"

lemma ptr_invI: "ptrs c addrs \<Longrightarrow> length (ct_buf c) < PIPE_MSG_SIZE \<Longrightarrow> ptr_inv c"
  by (auto simp: ptr_inv_def)

lemma ptr_inv_cong:
  "ct_buf c' = ct_buf c \<Longrightarrow> ct_pipe c' = ct_pipe c \<Longrightarrow> ct_heap c' = ct_heap c \<Longrightarrow> ptr_inv c' = ptr_inv c"
  by (simp add: ptr_inv_def ptrs_def)

lemma ptr_inv_post:
  assumes "ptr_inv c" "ct_heap c addr = None" "addr < 2 ^ 64"
  shows "ptr_inv (c\<lparr>ct_heap := (ct_heap c)(addr \<mapsto> b), ct_pipe := ct_pipe c @ le_bytes PIPE_MSG_SIZE addr\<rparr>)"
proof -
  obtain addrs where a: "ptrs c addrs" using assms(1) by (auto simp: ptr_inv_def)
  have "ct_buf c @ ct_pipe c @ le_bytes PIPE_MSG_SIZE addr = concat (map (le_bytes PIPE_MSG_SIZE) (addrs @ [addr]))"
    using a by (simp add: ptrs_def flip: append_assoc)
  moreover have "addr \<notin> set addrs" using a assms(2) by (auto simp: ptrs_def)
  ultimately show ?thesis
    using assms a by (intro ptr_invI [of _ "addrs @ [addr]"]) (auto simp: ptrs_def ptr_inv_def)
qed

lemma ptrs_read:
  assumes a: "ptrs c addrs" "length (ct_buf c) < PIPE_MSG_SIZE" and "ct_read c = (bs, c1)" "bs \<noteq> []"
  shows "length (ct_buf c @ bs) < PIPE_MSG_SIZE \<and> ptrs (c1\<lparr>ct_buf := ct_buf c @ bs\<rparr>) addrs \<or>
    length (ct_buf c @ bs) = PIPE_MSG_SIZE \<and> (\<exists>b. ct_heap c (le_val (ct_buf c @ bs)) = Some b) \<and>
      (\<exists>xs. addrs = le_val (ct_buf c @ bs) # xs \<and> ptrs (c1\<lparr>ct_buf := [], ct_heap := (ct_heap c)(le_val (ct_buf c @ bs) := None)\<rparr>) xs)"
proof -
  obtain n where n: "bs = take n (ct_pipe c)" "ct_pipe c1 = drop n (ct_pipe c)" "ct_heap c1 = ct_heap c" "n \<le> PIPE_MSG_SIZE - length (ct_buf c)"
    using assms(2,3) by (force simp: ct_read_def Let_def split: list.splits)
  have all: "(ct_buf c @ bs) @ ct_pipe c1 = concat (map (le_bytes PIPE_MSG_SIZE) addrs)" using a n by (simp add: ptrs_def)
  have len: "length (ct_buf c @ bs) \<le> PIPE_MSG_SIZE" using n(1,4) a(2) by simp
  show ?thesis
  proof (cases "length (ct_buf c @ bs) = PIPE_MSG_SIZE")
    case False
    with len have l: "length (ct_buf c @ bs) < PIPE_MSG_SIZE" by simp
    have "ptrs (c1\<lparr>ct_buf := ct_buf c @ bs\<rparr>) addrs" using a(1) all n(3) by (simp add: ptrs_def)
    with l show ?thesis by simp
  next
    case True
    with all obtain x xs where addrs: "addrs = x # xs" by (cases addrs) (auto simp: PIPE_MSG_SIZE_def)
    from all True addrs have parts: "ct_buf c @ bs = le_bytes PIPE_MSG_SIZE x" "ct_pipe c1 = concat (map (le_bytes PIPE_MSG_SIZE) xs)"
      using append_eq_append_conv [of "ct_buf c @ bs" "le_bytes PIPE_MSG_SIZE x" "ct_pipe c1" "concat (map (le_bytes PIPE_MSG_SIZE) xs)"]
      by simp_all
    have "x < 2 ^ 64" using a(1) addrs by (simp add: ptrs_def)
    then have x: "le_val (ct_buf c @ bs) = x" unfolding parts by (simp add: PIPE_MSG_SIZE_def)
    have "set (x # xs) = dom (ct_heap c)" "distinct (x # xs)" using a(1) addrs by (simp_all add: ptrs_def)
    then have "set xs = dom ((ct_heap c)(x := None))" "\<exists>b. ct_heap c x = Some b" by auto
    moreover have "ptrs (c1\<lparr>ct_buf := [], ct_heap := (ct_heap c)(x := None)\<rparr>) xs"
      using a(1) addrs calculation parts(2) by (simp add: ptrs_def)
    ultimately show ?thesis using True x addrs by simp
  qed
qed

lemma ptr_read:
  assumes "ptr_inv c" "ct_read c = (bs, c1)" "bs \<noteq> []"
  shows "length (ct_buf c @ bs) < PIPE_MSG_SIZE \<and> ptr_inv (c1\<lparr>ct_buf := ct_buf c @ bs\<rparr>) \<or>
    length (ct_buf c @ bs) = PIPE_MSG_SIZE \<and> (\<exists>b. ct_heap c (le_val (ct_buf c @ bs)) = Some b) \<and>
      ptr_inv (c1\<lparr>ct_buf := [], ct_heap := (ct_heap c)(le_val (ct_buf c @ bs) := None)\<rparr>)"
proof -
  obtain addrs where a: "ptrs c addrs" "length (ct_buf c) < PIPE_MSG_SIZE" using assms(1) by (auto simp: ptr_inv_def)
  from ptrs_read [OF a assms(2,3)] show ?thesis
    using ptr_invI [of "c1\<lparr>ct_buf := ct_buf c @ bs\<rparr>"] ptr_invI [of "c1\<lparr>ct_buf := [], ct_heap := (ct_heap c)(le_val (ct_buf c @ bs) := None)\<rparr>"]
    by (auto simp: PIPE_MSG_SIZE_def)
qed

lemma framed_push:
  assumes "framed P c" "packet_buf P b" "b_dtran b = 0"
  shows "framed P (c\<lparr>ct_out := q_push (ct_out c) b, ct_heap := h\<rparr>)"
proof -
  let ?c = "c\<lparr>ct_out := q_push (ct_out c) b, ct_heap := h\<rparr>"
  have "queue_ok P ?c" using assms by (cases "q_bufs (ct_out c)") (auto simp: framed_def queue_ok_def q_push_def)
  moreover have "top_sent ?c = top_sent c" using assms(3) by (auto simp: top_sent_def q_push_def split: list.split)
  moreover have "unsent_queue c \<Longrightarrow> unsent_queue ?c" using assms(3) by (auto simp: unsent_queue_def q_push_def)
  ultimately show ?thesis using assms(1) by (auto simp: framed_def sent_ok_def aligned_def split: if_splits)
qed

lemma framed_disconnected: "framed P c \<Longrightarrow> ct_state c = disconnected \<Longrightarrow> queue_ok P c \<and> sent_ok P c \<and> unsent_queue c"
  by (simp add: framed_def aligned_def)

lemma option_then:
  assumes "(case x of None \<Rightarrow> None | Some c \<Rightarrow> f c) = Some d"
  obtains c where "x = Some c" "f c = Some d"
  using assms by (cases x) auto

lemma ct_take_frame:
  assumes "ct_take a c = Some c'"
  shows "ct_buf c' = ct_buf c" "ct_pipe c' = ct_pipe c" "ct_heap c' = (ct_heap c)(a := None)" "ct_nt c' = ct_nt c"
proof -
  show "ct_buf c' = ct_buf c" "ct_pipe c' = ct_pipe c" "ct_nt c' = ct_nt c"
    using assms by (simp_all add: buf.part_take pipe.part_take notify.part_take)
  obtain b where b: "ct_heap c a = Some b" using assms by (auto simp: ct_take_def split: option.splits)
  let ?c = "c\<lparr>ct_out := q_push (ct_out c) b, ct_heap := (ct_heap c)(a := None)\<rparr>"
  obtain c1 where c1: "(if ct_state ?c = disconnected then (case open_sock ?c of None \<Rightarrow> None | Some c \<Rightarrow> log_state c) else Some ?c) = Some c1"
      "(if ct_state c1 = connected then ct_send_loop c1 else Some c1) = Some c'"
    using assms unfolding ct_take_def b option.case Let_def by (rule option_then)
  have "ct_heap c1 = ct_heap ?c"
  proof (cases "ct_state ?c = disconnected")
    case True
    with c1(1) obtain c2 where "open_sock ?c = Some c2" "c1 = c2" by (auto simp: log_state_def split: option.splits if_splits)
    then show ?thesis using heap.part_open_sock by blast
  next
    case False
    with c1(1) show ?thesis by simp
  qed
  moreover have "ct_heap c' = ct_heap c1" using c1(2) heap.part_send_loop [of c1 c'] by (cases "ct_state c1 = connected") simp_all
  ultimately show "ct_heap c' = (ct_heap c)(a := None)" by simp
qed

lemma take_ok:
  assumes inv: "sock_inv c" and b: "ct_heap c a = Some b"
  shows "\<exists>c'. ct_take a c = Some c' \<and> sock_inv c' \<and> (packets P c \<longrightarrow> packets P c')"
proof -
  let ?c = "c\<lparr>ct_out := q_push (ct_out c) b, ct_heap := (ct_heap c)(a := None)\<rparr>"
  have inv': "sock_inv ?c" using inv by (simp add: sock_inv_def closed_def live_on_def)
  have f: "framed P ?c" if "packets P c" using framed_push [of P c b] that b by (simp add: packets_def)
  have "\<exists>c1. (if ct_state ?c = disconnected then (case open_sock ?c of None \<Rightarrow> None | Some c \<Rightarrow> log_state c) else Some ?c) = Some c1 \<and>
      sock_inv c1 \<and> (framed P ?c \<longrightarrow> framed P c1)"
  proof (cases "ct_state ?c = disconnected")
    case True
    then have "closed ?c" using inv' by (auto simp: sock_inv_def live_on_def)
    then obtain c1 where c1: "open_sock ?c = Some c1" "opened ?c c1" using opened_sock by blast
    have "framed P ?c \<Longrightarrow> framed P c1" using framed_opened [OF c1(2)] framed_disconnected [OF _ True] by blast
    moreover have "sock_inv c1" "log_state c1 = Some c1" using opened_inv [OF c1(2)] log_state_inv by blast+
    ultimately show ?thesis using True c1(1) by (intro exI [of _ c1]) simp
  next
    case False
    with inv' show ?thesis by (intro exI [of _ ?c]) simp
  qed
  then obtain c1 where c1: "(if ct_state ?c = disconnected then (case open_sock ?c of None \<Rightarrow> None | Some c \<Rightarrow> log_state c) else Some ?c) = Some c1"
      "sock_inv c1" "framed P ?c \<longrightarrow> framed P c1" by blast
  have step: "ct_take a c = (if ct_state c1 = connected then ct_send_loop c1 else Some c1)"
    unfolding ct_take_def b option.case Let_def c1(1) by simp
  have "\<exists>c'. ct_take a c = Some c' \<and> sock_inv c' \<and> (framed P c1 \<longrightarrow> framed P c')"
  proof (cases "ct_state c1 = connected")
    case True
    then obtain s where "live_on s c1" using c1(2) by (auto simp: sock_inv_def closed_def)
    from send_loop_ok [OF this True, of P] show ?thesis using step True by auto
  qed (use c1(2) step in auto)
  then obtain c' where c': "ct_take a c = Some c'" "sock_inv c'" "framed P c1 \<longrightarrow> framed P c'" by blast
  have heap: "ct_heap c' = (ct_heap c)(a := None)" by (rule ct_take_frame(3) [OF c'(1)])
  have "packets P c'" if p: "packets P c"
  proof -
    have "framed P c'" using c'(3) c1(3) f [OF p] by blast
    then show ?thesis using p heap by (simp add: packets_def)
  qed
  then show ?thesis using c' by blast
qed

section \<open>The handlers\<close>

text \<open>
  A good end: there is a result, the invariants hold in it, and packets are whole when they
  were before and nothing cut one.
\<close>

definition ctor_inv :: "connector \<Rightarrow> bool" where
  "ctor_inv c \<longleftrightarrow> sock_inv c \<and> ptr_inv c"

definition good_end :: "bool \<Rightarrow> (bytes \<Rightarrow> bool) \<Rightarrow> connector \<Rightarrow> connector option \<Rightarrow> bool" where
  "good_end whole_packets P c r \<longleftrightarrow> (\<exists>c'. r = Some c' \<and> ctor_inv c' \<and> (whole_packets \<longrightarrow> packets P c \<longrightarrow> packets P c'))"

lemma good_endI: "r = Some c' \<Longrightarrow> ctor_inv c' \<Longrightarrow> (wp \<Longrightarrow> packets P c \<Longrightarrow> packets P c') \<Longrightarrow> good_end wp P c r"
  by (auto simp: good_end_def)

lemma packets_cong:
  "ct_out c' = ct_out c \<Longrightarrow> ct_sent c' = ct_sent c \<Longrightarrow> ct_next c' = ct_next c \<Longrightarrow> ct_state c' = ct_state c \<Longrightarrow> ct_sock c' = ct_sock c \<Longrightarrow>
   ct_heap c' = ct_heap c \<Longrightarrow> packets P c' = packets P c"
  by (simp add: packets_def framed_def queue_ok_def sent_ok_def aligned_def top_sent_def unsent_queue_def)

text \<open>The work on the socket keeps the pointers and the buffers on their way.\<close>

lemma socket_end:
  assumes "sock_inv c'" "ct_buf c' = ct_buf c" "ct_pipe c' = ct_pipe c" "ct_heap c' = ct_heap c" "ctor_inv c"
    and "wp \<Longrightarrow> framed P c \<Longrightarrow> framed P c'"
  shows "good_end wp P c (Some c')"
  using assms ptr_inv_cong [of c' c] by (auto simp: ctor_inv_def packets_def intro!: good_endI)

lemma notify_ok: "ctor_inv c \<Longrightarrow> good_end True P c (handle_notify_loop c)"
proof (induction c rule: handle_notify_loop.induct)
  case (1 c)
  note step = handle_notify_loop.simps [of c]
  obtain bs c1 where r: "ct_read c = (bs, c1)" by fastforce
  have inv: "sock_inv c" "ptr_inv c" using 1(2) by (simp_all add: ctor_inv_def)
  have c1: "sock_inv c1" "packets P c1 = packets P c" "ct_buf c1 = ct_buf c" "ct_heap c1 = ct_heap c"
    using r inv(1) packets_cong [of c1 c P] by (auto simp: ct_read_def Let_def sock_inv_def closed_def live_on_def)
  show ?case
  proof (cases "bs = []")
    case True
    then have "ct_pipe c1 = ct_pipe c" using r inv(2) by (auto simp: ct_read_def Let_def ptr_inv_def split: list.splits)
    then have "ptr_inv c1" using ptr_inv_cong [of c1 c] c1 inv(2) by simp
    then show ?thesis using step r True c1 by (intro good_endI [of _ c1]) (simp_all add: ctor_inv_def)
  next
    case False
    have "good_end True P c (ct_got bs c1)"
    proof (cases "length (ct_buf c @ bs) = PIPE_MSG_SIZE")
      case True
      let ?a = "le_val (ct_buf c @ bs)"
      let ?c1 = "c1\<lparr>ct_buf := []\<rparr>"
      from ptr_read [OF inv(2) r False] True obtain b where b: "ct_heap ?c1 ?a = Some b"
          "ptr_inv (c1\<lparr>ct_buf := [], ct_heap := (ct_heap c)(?a := None)\<rparr>)" using c1(4) by auto
      have "sock_inv ?c1" "packets P ?c1 = packets P c"
        using c1(1,2) packets_cong [of ?c1 c1 P] by (simp_all add: sock_inv_def closed_def live_on_def)
      with take_ok [OF _ b(1), of P] obtain c2 where c2: "ct_take ?a ?c1 = Some c2" "sock_inv c2" "packets P c \<longrightarrow> packets P c2" by auto
      have "ptr_inv c2" using ct_take_frame [OF c2(1)] b(2) c1(4) ptr_inv_cong [of c2 "c1\<lparr>ct_buf := [], ct_heap := (ct_heap c)(?a := None)\<rparr>"] by simp
      then show ?thesis using c2 True c1(3) by (intro good_endI [of _ c2]) (simp_all add: ct_got_def Let_def ctor_inv_def)
    next
      case other: False
      let ?c2 = "c1\<lparr>ct_buf := ct_buf c @ bs\<rparr>"
      have "ptr_inv ?c2" using ptr_read [OF inv(2) r False] other by simp
      moreover have "sock_inv ?c2" using c1(1) by (simp add: sock_inv_def closed_def live_on_def)
      moreover have "packets P ?c2 = packets P c" using c1(2) packets_cong [of ?c2 c1 P] by simp
      ultimately show ?thesis using other c1(3) by (intro good_endI [of _ ?c2]) (simp_all add: ct_got_def Let_def ctor_inv_def)
    qed
    then obtain c2 where c2: "ct_got bs c1 = Some c2" "ctor_inv c2" "packets P c \<longrightarrow> packets P c2" by (auto simp: good_end_def)
    from 1(1) [OF r [symmetric] False c2(1,2)] show ?thesis using step r False c2 by (auto simp: good_end_def)
  qed
qed

lemma reopen_end:
  assumes "closed c \<or> (\<exists>s. live_on s c)" "ptr_inv c" "wp \<Longrightarrow> packets P c0 \<Longrightarrow> queue_ok P c \<and> sent_ok P c \<and> unsent_queue c"
    and "ct_heap c = ct_heap c0"
  shows "good_end wp P c0 (reopen_sock c)"
proof -
  obtain c' where c': "reopen_sock c = Some c'" "sock_inv c'"
      "queue_ok P c \<longrightarrow> sent_ok P c \<longrightarrow> unsent_queue c \<longrightarrow> framed P c'"
    using reopen_sock_ok [OF assms(1)] by blast
  have "ptr_inv c'"
    using ptr_inv_cong [of c' c] buf.part_reopen_sock [OF c'(1)] pipe.part_reopen_sock [OF c'(1)] heap.part_reopen_sock [OF c'(1)] assms(2)
    by simp
  then show ?thesis
    using c' assms(3,4) heap.part_reopen_sock [OF c'(1)] by (intro good_endI [of _ c']) (auto simp: ctor_inv_def packets_def)
qed

lemma log_end: "good_end wp P c r \<Longrightarrow> good_end wp P c (case r of None \<Rightarrow> None | Some c \<Rightarrow> log_state c)"
  using log_state_inv by (auto simp: good_end_def ctor_inv_def)

lemma timeout_ok:
  assumes "ctor_inv c" "ct_tm c \<noteq> None"
  shows "good_end True P c (handle_connect_timeout (c\<lparr>ct_tm := None\<rparr>))"
proof -
  let ?c = "c\<lparr>ct_tm := None, ct_out := q_clear (ct_out c)\<rparr>"
  have "ct_state c = connecting" "\<exists>s. live_on s ?c"
    using assms by (auto simp: ctor_inv_def sock_inv_def closed_def live_on_def)
  moreover have "ptr_inv ?c" using assms(1) ptr_inv_cong [of ?c c] by (simp add: ctor_inv_def)
  moreover have "queue_ok P ?c \<and> sent_ok P ?c \<and> unsent_queue ?c" if "packets P c"
    using that by (simp add: packets_def framed_def queue_ok_def sent_ok_def unsent_queue_def q_clear_def)
  ultimately show ?thesis using reopen_end [of ?c True P c] by (simp add: handle_connect_timeout_def)
qed

lemma read_ok:
  assumes "ctor_inv c"
  shows "good_end (peer_gone r \<longrightarrow> unsent_queue c) P c (ct_handle_read r c)"
proof (cases "peer_gone r")
  case True
  have "good_end (peer_gone r \<longrightarrow> unsent_queue c) P c (reopen_sock c)"
    using assms True by (intro reopen_end) (auto simp: ctor_inv_def sock_inv_def packets_def framed_def)
  then show ?thesis using True log_end by (simp add: ct_handle_read_def)
qed (use assms in \<open>auto simp: ct_handle_read_def good_end_def\<close>)

lemma write_ok:
  assumes "ctor_inv c"
  shows "good_end True P c (ct_handle_write c)"
proof -
  have "good_end True P c (if ct_state c = connecting then (case connect_done c of None \<Rightarrow> None | Some c \<Rightarrow> log_state c) else Some c)"
  proof (cases "ct_state c = connecting")
    case True
    have "good_end True P c (connect_done c)"
      unfolding connect_done_def
    proof (rule call_rule [where Q = "good_end True P c"])
      fix oks
      let ?c = "c\<lparr>ct_ok := oks\<rparr>"
      have "closed ?c \<or> (\<exists>s. live_on s ?c)" using assms by (auto simp: ctor_inv_def sock_inv_def closed_def live_on_def)
      moreover have "ptr_inv ?c" using assms ptr_inv_cong [of ?c c] by (simp add: ctor_inv_def)
      moreover have "queue_ok P ?c \<and> sent_ok P ?c \<and> unsent_queue ?c" if "packets P c"
        using that True by (simp add: packets_def framed_def aligned_def queue_ok_def sent_ok_def unsent_queue_def)
      ultimately show "good_end True P c (reopen_sock ?c)" by (intro reopen_end) simp_all
      let ?d = "?c\<lparr>ct_state := connected, ct_tm := None\<rparr>"
      have "sock_inv ?d" using assms True by (auto simp: ctor_inv_def sock_inv_def closed_def live_on_def)
      moreover have "framed P ?d" if f: "framed P c"
      proof -
        obtain s where s: "ct_sock c = Some s" "ct_sent c s = []" and u: "unsent_queue c" using f True by (auto simp: framed_def aligned_def)
        have "top_sent ?d = []" using top_sent_unsent [OF u] by (simp add: top_sent_def)
        then have "aligned P ?d" using s by (auto simp: aligned_def intro!: exI [of _ "[]"])
        then show ?thesis using f by (simp add: framed_def queue_ok_def sent_ok_def)
      qed
      ultimately show "good_end True P c (Some ?d)" using assms by (intro socket_end) simp_all
    qed
    then show ?thesis using True log_end by simp
  qed (use assms in \<open>auto simp: good_end_def\<close>)
  then obtain c1 where c1: "(if ct_state c = connecting then (case connect_done c of None \<Rightarrow> None | Some c \<Rightarrow> log_state c) else Some c) = Some c1"
      "ctor_inv c1" "packets P c \<longrightarrow> packets P c1" by (auto simp: good_end_def)
  have "good_end True P c1 (if ct_state c1 = connected then ct_send_loop c1 else Some c1)"
  proof (cases "ct_state c1 = connected")
    case True
    then obtain s where "live_on s c1" using c1(2) by (auto simp: ctor_inv_def sock_inv_def closed_def)
    from send_loop_ok [OF this True, of P] obtain c' where c': "ct_send_loop c1 = Some c'" "sock_inv c'" "framed P c1 \<longrightarrow> framed P c'" by blast
    note same = buf.part_send_loop [OF c'(1)] pipe.part_send_loop [OF c'(1)] heap.part_send_loop [OF c'(1)]
    show ?thesis using True socket_end [OF c'(2) same c1(2)] c' by simp
  qed (use c1(2) in \<open>auto simp: good_end_def\<close>)
  then show ?thesis using c1 by (auto simp: ct_handle_write_def good_end_def)
qed

section \<open>Every run\<close>

lemma event_ok:
  assumes "ctor_inv c" "ctor_enabled e c"
  shows "good_end ((\<forall>a d. e = Post a d \<longrightarrow> P d) \<and> (\<forall>r. e = Read_event True r \<longrightarrow> peer_gone r \<longrightarrow> unsent_queue c)) P c (ctor_run e c)"
proof (cases e)
  case (Post addr data)
  let ?c = "\<lambda>c. c\<lparr>ct_heap := (ct_heap c)(addr \<mapsto> buffer_of data), ct_pipe := ct_pipe c @ le_bytes PIPE_MSG_SIZE addr\<rparr>"
  have same: "ctor_inv (c\<lparr>ct_ok := oks\<rparr>)" "packets P (c\<lparr>ct_ok := oks\<rparr>) = packets P c" for oks
    using assms(1) ptr_inv_cong [of "c\<lparr>ct_ok := oks\<rparr>" c] packets_cong [of "c\<lparr>ct_ok := oks\<rparr>" c P]
    by (simp_all add: ctor_inv_def sock_inv_def closed_def live_on_def)
  have new: "ctor_inv (?c c)" if "ctor_inv c" "ct_heap c addr = None" for c
    using that ptr_inv_post [of c addr "buffer_of data"] assms(2) Post
    by (simp add: ctor_inv_def ctor_enabled_def sock_inv_def closed_def live_on_def)
  have pk: "packets P (?c c)" if "packets P c" "P data" for c
    using that by (auto simp: packets_def framed_def queue_ok_def sent_ok_def aligned_def top_sent_def unsent_queue_def
        packet_buf_def buffer_of_def buf_ok_def)
  have free: "ct_heap (c\<lparr>ct_ok := oks\<rparr>) addr = None" for oks using assms(2) Post by (simp add: ctor_enabled_def)
  have end_all: "good_end (P data) P c (Some (snd (ct_post addr data c)))"
    unfolding ct_post_def
  proof (rule call_rule [where Q = "\<lambda>x. good_end (P data) P c (Some (snd x))"])
    fix oks
    show "good_end (P data) P c (Some (snd (False, c\<lparr>ct_ok := oks\<rparr>)))" using same by (auto intro!: good_endI)
    show "good_end (P data) P c (Some (snd (True, ?c (c\<lparr>ct_ok := oks\<rparr>))))"
      using new [OF same(1) free, of oks] pk [of "c\<lparr>ct_ok := oks\<rparr>"] same(2) unfolding snd_conv by (intro good_endI) blast+
  qed
  then show ?thesis by (auto simp: Post ctor_run_def good_end_def)
next
  case (Pipe_event ev)
  then show ?thesis using notify_ok [OF assms(1), of P] assms(1) by (auto simp: ctor_run_def on_notify_def good_end_def)
next
  case (Read_event ev r)
  then show ?thesis using read_ok [OF assms(1), of r P] assms(1) by (cases ev) (auto simp: ctor_run_def on_read_def good_end_def)
next
  case (Write_event ev)
  then show ?thesis using write_ok [OF assms(1), of P] assms(1) by (auto simp: ctor_run_def on_write_def good_end_def)
next
  case Timer_event
  then show ?thesis using timeout_ok [OF assms(1), of P] assms(2) by (auto simp: ctor_run_def ctor_enabled_def good_end_def)
qed

lemma environment_ok:
  "ctor_environment c c' \<Longrightarrow> ctor_inv c' = ctor_inv c \<and> packets P c' = packets P c"
  using ptr_inv_cong [of c' c] packets_cong [of c' c P]
  by (auto simp: ctor_environment_def ctor_inv_def sock_inv_def closed_def live_on_def)

text \<open>A connector before \<open>open\<close>, whatever the system will do.\<close>

definition unopened :: "connector \<Rightarrow> bool" where
  "unopened c \<longleftrightarrow> closed c \<and> ct_buf c = [] \<and> ct_pipe c = [] \<and> ct_heap c = Map.empty \<and> ct_out c = q_new \<and> ct_sent c = (\<lambda>_. [])"

lemma unopened_new: "ctor_environment new_connector c \<Longrightarrow> unopened c"
  by (auto simp: ctor_environment_def unopened_def new_connector_def closed_def)

lemma unopened_pipe: "unopened c \<Longrightarrow> unopened (snd (open_pipe c))"
  unfolding open_pipe_def Let_def
  by (intro call_rule [where Q = "\<lambda>x. unopened (snd x)"]) (simp_all add: unopened_def closed_def)

lemma open_ok:
  assumes "ctor_environment new_connector c" "connector_open af c = Some (st, c')" "st \<noteq> failed"
  shows "ctor_inv c' \<and> packets P c'"
proof -
  let ?c = "snd (open_pipe c)"
  have u: "unopened ?c" using unopened_pipe [OF unopened_new [OF assms(1)]] .
  have "open_sock ?c = Some c'" using assms(2,3) by (auto simp: connector_open_def split: if_splits prod.splits option.splits)
  moreover obtain c1 where c1: "open_sock ?c = Some c1" "opened ?c c1" using opened_sock [of ?c] u by (auto simp: unopened_def)
  ultimately have c': "opened ?c c'" by simp
  have q: "queue_ok P ?c" "sent_ok P ?c" "unsent_queue ?c"
    using u by (simp_all add: unopened_def queue_ok_def sent_ok_def unsent_queue_def whole_nil)
  have parts: "ct_buf c' = []" "ct_pipe c' = []" "ct_heap c' = Map.empty"
    using buf.part_open_sock [OF \<open>open_sock ?c = Some c'\<close>] pipe.part_open_sock [OF \<open>open_sock ?c = Some c'\<close>]
      heap.part_open_sock [OF \<open>open_sock ?c = Some c'\<close>] u by (simp_all add: unopened_def)
  have "ptr_inv c'" by (rule ptr_invI [of _ "[]"]) (simp_all add: ptrs_def parts PIPE_MSG_SIZE_def)
  then show ?thesis
    using opened_inv [OF c'] framed_opened [OF c' q] parts by (simp add: ctor_inv_def packets_def)
qed

lemma reachable_inv: "ctor_reachable c \<Longrightarrow> ctor_inv c"
proof (induction rule: ctor_reachable.induct)
  case (ctor_open c af st c')
  then show ?case using open_ok by blast
next
  case (ctor_event c e c')
  then show ?case using event_ok [of c e "\<lambda>_. True"] by (auto simp: good_end_def)
next
  case (ctor_env c c')
  then show ?case using environment_ok by blast
qed

text \<open>
  C5: the connector's state says what is there: in every reachable state it is disconnected
  exactly when no socket is open, at most one socket ever is, both events are added exactly
  when there is one, the timer runs exactly while a connection is being made, and every event
  that can occur is handled without a failed assertion.
\<close>

theorem connector_consistent:
  assumes "ctor_reachable c" "ctor_enabled e c"
  shows "ct_state c \<noteq> failed \<and> (ct_open c = [] \<longleftrightarrow> ct_state c = disconnected) \<and> length (ct_open c) \<le> 1 \<and>
    (ct_rd c \<longleftrightarrow> ct_state c \<noteq> disconnected) \<and> (ct_wr c \<longleftrightarrow> ct_state c \<noteq> disconnected) \<and>
    (ct_tm c \<noteq> None \<longleftrightarrow> ct_state c = connecting) \<and> (\<exists>c'. ctor_run e c = Some c')"
proof -
  have inv: "ctor_inv c" by (rule reachable_inv [OF assms(1)])
  have "\<exists>c'. ctor_run e c = Some c'" using event_ok [OF inv assms(2), of "\<lambda>_. True"] by (auto simp: good_end_def)
  with inv show ?thesis by (auto simp: ctor_inv_def sock_inv_def closed_def live_on_def)
qed

text \<open>The run the theorems are applied to: an open connector whose connection is in progress.\<close>

definition first_open :: connector where
  "first_open = new_connector\<lparr>ct_pipe_open := True, ct_nt := True, ct_sock := Some 0, ct_next := 1, ct_open := [0],
     ct_rd := True, ct_wr := True, ct_tm := Some 60, ct_state := connecting\<rparr>"

lemmas open_defs = connector_open_def open_pipe_def open_sock_def open_sock_events_def open_sock_timer_def call_def
  connect_call_def new_connector_def

lemma first_open: "connector_open AF_INET new_connector = Some (connecting, first_open)"
  by (simp add: open_defs first_open_def)

lemma no_environment: "ctor_environment c c"
  unfolding ctor_environment_def
  by (rule exI [of _ "ct_ok c"], rule exI [of _ "ct_con c"], rule exI [of _ "ct_tx c"], rule exI [of _ "ct_reads c"]) simp

lemma first_open_reachable: "ctor_reachable first_open"
  by (rule ctor_open [OF no_environment first_open]) simp

theorem connector_consistent_witness:
  "length (ct_open first_open) \<le> 1 \<and> (\<exists>c'. ctor_run Timer_event first_open = Some c')"
  using connector_consistent [OF first_open_reachable, of Timer_event]
  by (simp add: ctor_enabled_def first_open_def)

section \<open>Packets stay whole\<close>

text \<open>
  Runs in which only packets are posted and the server does not close the connection while a
  packet is half sent.
\<close>

inductive packet_run :: "(bytes \<Rightarrow> bool) \<Rightarrow> connector \<Rightarrow> bool" for P where
  run_open: "ctor_environment new_connector c \<Longrightarrow> connector_open af c = Some (st, c') \<Longrightarrow> st \<noteq> failed \<Longrightarrow> packet_run P c'"
| run_event: "packet_run P c \<Longrightarrow> ctor_enabled e c \<Longrightarrow> ctor_run e c = Some c' \<Longrightarrow> (\<And>a d. e = Post a d \<Longrightarrow> P d) \<Longrightarrow>
    (\<And>r. e = Read_event True r \<Longrightarrow> peer_gone r \<Longrightarrow> unsent_queue c) \<Longrightarrow> packet_run P c'"
| run_env: "packet_run P c \<Longrightarrow> ctor_environment c c' \<Longrightarrow> packet_run P c'"

lemma packet_run_ok: "packet_run P c \<Longrightarrow> ctor_inv c \<and> packets P c"
proof (induction rule: packet_run.induct)
  case (run_open c af st c')
  then show ?case by (rule open_ok)
next
  case (run_event c e c')
  then show ?case using event_ok [of c e P] by (auto simp: good_end_def)
next
  case (run_env c c')
  then show ?case using environment_ok [of c c' P] by blast
qed

text \<open>
  C6: connections may break and be made anew, sends may take any number of bytes: as long as
  the server does not close while a packet is half sent, every connection is sent the
  beginning of a sequence of packets.
\<close>

theorem connector_packets_whole:
  assumes "packet_run P c"
  shows "\<exists>ps k. list_all P ps \<and> ct_sent c s = take k (concat ps)"
  using packet_run_ok [OF assms] by (simp add: packets_def framed_def sent_ok_def whole_def)

fun ctor_runs :: "ctor_event list \<Rightarrow> connector \<Rightarrow> connector option" where
  "ctor_runs [] c = Some c"
| "ctor_runs (e # es) c = (if ctor_enabled e c then (case ctor_run e c of None \<Rightarrow> None | Some c' \<Rightarrow> ctor_runs es c') else None)"

lemma packet_runs:
  assumes "packet_run P c" "ctor_runs es c = Some c'"
    and "\<forall>e \<in> set es. case e of Post a d \<Rightarrow> P d | Read_event ev r \<Rightarrow> \<not> (ev \<and> peer_gone r) | _ \<Rightarrow> True"
  shows "packet_run P c'"
  using assms
proof (induction es arbitrary: c)
  case (Cons e es)
  then obtain c1 where c1: "ctor_enabled e c" "ctor_run e c = Some c1" "ctor_runs es c1 = Some c'" by (auto split: if_splits option.splits)
  have "packet_run P c1" by (rule run_event [OF Cons(2) c1(1,2)]) (use Cons(4) in auto)
  from Cons(1) [OF this c1(3)] Cons(4) show ?case by simp
qed simp

definition sample :: connector where
  "sample = new_connector\<lparr>ct_con := [Con_now, Con_now], ct_tx := [Tx_take 2, Tx_again]\<rparr>"

definition sample_open :: connector where
  "sample_open = sample\<lparr>ct_pipe_open := True, ct_nt := True, ct_sock := Some 0, ct_next := 1, ct_open := [0],
     ct_rd := True, ct_wr := True, ct_con := [Con_now], ct_state := connected\<rparr>"

definition half_sent :: connector where
  "half_sent = sample_open\<lparr>ct_out := \<lparr>q_bufs = [(buffer_of ''hello'')\<lparr>b_dtran := 2\<rparr>], q_dsize = 5, q_dlow = default_low_mark,
     q_dhigh = default_high_mark\<rparr>, ct_tx := [], ct_sent := (\<lambda>_. [])(0 := ''he'')\<rparr>"

lemma sample_opens: "connector_open AF_INET sample = Some (connected, sample_open)"
  by (simp add: open_defs sample_def sample_open_def)

lemma sample_run: "ctor_runs [Post 5 ''hello'', Pipe_event True] sample_open = Some half_sent"
proof -
  let ?c = "sample_open\<lparr>ct_heap := [5 \<mapsto> buffer_of ''hello''], ct_pipe := le_bytes 8 5\<rparr>"
  have post: "ctor_run (Post 5 ''hello'') sample_open = Some ?c" "ctor_enabled (Post 5 ''hello'') sample_open"
    by (simp_all add: ctor_run_def ct_post_def call_def sample_open_def sample_def new_connector_def PIPE_MSG_SIZE_def ctor_enabled_def)
  let ?c2 = "sample_open\<lparr>ct_out := q_push q_new (buffer_of ''hello'')\<rparr>"
  let ?q = "\<lparr>q_bufs = [(buffer_of ''hello'')\<lparr>b_dtran := 2\<rparr>], q_dsize = 5, q_dlow = default_low_mark, q_dhigh = default_high_mark\<rparr>"
  let ?c3 = "sample_open\<lparr>ct_out := ?q, ct_tx := [Tx_again], ct_sent := (\<lambda>_. [])(0 := ''he'')\<rparr>"
  note defs = sample_open_def sample_def new_connector_def q_new_def q_push_def q_top_def buffer_of_def unsent_def sock_send_def
    take_tx_def add64_def SIZE_RANGE_def half_sent_def
  have two: "Suc (Suc 0) = 2" by simp
  have a: "ct_send_loop ?c3 = Some half_sent"
    by (subst ct_send_loop.simps) (simp add: defs)
  have b: "ct_send_loop ?c2 = ct_send_loop ?c3"
    by (subst ct_send_loop.simps) (simp add: defs sent_some_def set_top_def Let_def two)
  have le: "le_val (le_bytes 8 5) = 5" by simp
  have "ct_got (le_bytes 8 5) (?c\<lparr>ct_pipe := []\<rparr>) = ct_send_loop ?c2"
    by (simp add: ct_got_def ct_take_def sample_open_def sample_def new_connector_def PIPE_MSG_SIZE_def Let_def)
  moreover have "handle_notify_loop half_sent = Some half_sent"
    by (subst handle_notify_loop.simps) (simp add: ct_read_def half_sent_def sample_open_def sample_def new_connector_def Let_def)
  moreover have "ct_read ?c = (le_bytes 8 5, ?c\<lparr>ct_pipe := []\<rparr>)"
    by (simp add: ct_read_def sample_open_def sample_def new_connector_def PIPE_MSG_SIZE_def Let_def)
  moreover have "le_bytes 8 5 \<noteq> []" by (metis length_le_bytes list.size(3) zero_neq_numeral)
  ultimately have "handle_notify_loop ?c = Some half_sent"
    using a b by (subst handle_notify_loop.simps) simp
  moreover have "ctor_enabled (Pipe_event True) ?c" by (simp add: ctor_enabled_def sample_open_def)
  ultimately show ?thesis using post by (simp add: ctor_run_def on_notify_def)
qed

theorem connector_packets_whole_witness: "\<exists>ps k. list_all (\<lambda>p. p = ''hello'') ps \<and> ct_sent half_sent 0 = take k (concat ps)"
proof -
  have "ctor_environment new_connector sample"
    unfolding ctor_environment_def
    by (rule exI [of _ "[]"], rule exI [of _ "[Con_now, Con_now]"], rule exI [of _ "[Tx_take 2, Tx_again]"], rule exI [of _ "[]"])
      (simp add: sample_def new_connector_def)
  then have "packet_run (\<lambda>p. p = ''hello'') sample_open" by (rule run_open [OF _ sample_opens]) simp
  then have "packet_run (\<lambda>p. p = ''hello'') half_sent" by (rule packet_runs [OF _ sample_run]) simp
  then show ?thesis by (rule connector_packets_whole)
qed

lemma ctor_runs_append: "ctor_runs es c = Some c1 \<Longrightarrow> ctor_runs (es @ fs) c = ctor_runs fs c1"
  by (induction es arbitrary: c) (auto split: if_splits option.splits)

definition reconnected :: connector where
  "reconnected = half_sent\<lparr>ct_con := [], ct_sock := Some 1, ct_next := 2, ct_open := [1]\<rparr>"

lemma half_sent_reconnects:
  "ctor_enabled (Read_event True Rx_close) half_sent" "ctor_run (Read_event True Rx_close) half_sent = Some reconnected"
proof -
  show "ctor_enabled (Read_event True Rx_close) half_sent"
    by (simp add: ctor_enabled_def half_sent_def sample_open_def)
  have "reopen_sock half_sent = Some reconnected"
    by (simp add: reopen_sock_def close_sock_def q_empty_def open_defs half_sent_def sample_open_def sample_def reconnected_def
        Let_def numeral_2_eq_2)
  moreover have "log_state reconnected = Some reconnected"
    by (simp add: log_state_def get_state_text_def reconnected_def half_sent_def sample_open_def less_eq_ctor_state_def)
  ultimately show "ctor_run (Read_event True Rx_close) half_sent = Some reconnected"
    by (simp add: ctor_run_def on_read_def ct_handle_read_def peer_gone_def)
qed

lemma reconnected_sends:
  "\<exists>c. ctor_run (Write_event True) reconnected = Some c \<and> ct_sent c 0 = ''he'' \<and> ct_sent c 1 = ''llo''"
proof -
  note defs = reconnected_def half_sent_def sample_open_def sample_def new_connector_def q_top_def buffer_of_def unsent_def sock_send_def
    take_tx_def sent_some_def set_top_def pop_out_def q_pop_def Let_def
  have "\<exists>c. ct_send_loop reconnected = Some c \<and> ct_sent c 0 = ''he'' \<and> ct_sent c 1 = ''llo''"
    by (subst ct_send_loop.simps) (simp add: defs ct_send_loop.simps numeral_2_eq_2)
  then show ?thesis
    by (simp add: ctor_run_def on_write_def ct_handle_write_def reconnected_def half_sent_def sample_open_def)
qed


section \<open>From the other threads to the queue\<close>

lemma hand_over:
  assumes "ct_state c = connecting" "ptrs c addrs" "length (ct_buf c) < PIPE_MSG_SIZE"
  shows "\<exists>c'. handle_notify_loop c = Some c' \<and> ct_pipe c' = [] \<and>
     q_bufs (ct_out c') = q_bufs (ct_out c) @ map (\<lambda>a. the (ct_heap c a)) addrs"
  using assms
proof (induction c arbitrary: addrs rule: handle_notify_loop.induct)
  case (1 c)
  note step = handle_notify_loop.simps [of c]
  obtain bs c1 where r: "ct_read c = (bs, c1)" by fastforce
  have c1: "ct_state c1 = connecting" "ct_buf c1 = ct_buf c" "ct_heap c1 = ct_heap c" "ct_out c1 = ct_out c"
    using r 1(2) by (auto simp: ct_read_def Let_def)
  show ?case
  proof (cases "bs = []")
    case True
    then have "ct_pipe c = []" "ct_pipe c1 = []" using r 1(4) by (auto simp: ct_read_def Let_def split: list.splits)
    moreover have "addrs = []"
    proof (rule ccontr)
      assume "addrs \<noteq> []"
      then have "PIPE_MSG_SIZE \<le> length (ct_buf c @ ct_pipe c)" using 1(3) by (cases addrs) (simp_all add: ptrs_def)
      then show False using 1(4) \<open>ct_pipe c = []\<close> by simp
    qed
    ultimately show ?thesis using step r True c1 by simp
  next
    case False
    show ?thesis
    proof (cases "length (ct_buf c @ bs) = PIPE_MSG_SIZE")
      case True
      let ?a = "le_val (ct_buf c @ bs)"
      from ptrs_read [OF 1(3,4) r False] True obtain b xs where b: "ct_heap c ?a = Some b" "addrs = ?a # xs"
          "ptrs (c1\<lparr>ct_buf := [], ct_heap := (ct_heap c)(?a := None)\<rparr>) xs" by auto
      let ?c2 = "c1\<lparr>ct_buf := [], ct_out := q_push (ct_out c) b, ct_heap := (ct_heap c)(?a := None)\<rparr>"
      have got: "ct_got bs c1 = Some ?c2" using True b(1) c1 by (simp add: ct_got_def ct_take_def Let_def)
      have "ptrs ?c2 xs" using b(3) by (simp add: ptrs_def)
      from 1(1) [OF r [symmetric] False got _ this] c1(1) obtain c' where c': "handle_notify_loop ?c2 = Some c'" "ct_pipe c' = []"
          "q_bufs (ct_out c') = q_bufs (ct_out ?c2) @ map (\<lambda>a. the (ct_heap ?c2 a)) xs" by (auto simp: PIPE_MSG_SIZE_def)
      have "?a \<notin> set xs" using 1(3) b(2) by (simp add: ptrs_def)
      then have "map (\<lambda>a. the (ct_heap ?c2 a)) xs = map (\<lambda>a. the (ct_heap c a)) xs" by auto
      then show ?thesis using step r False got c' b by (simp add: q_push_def)
    next
      case other: False
      let ?c2 = "c1\<lparr>ct_buf := ct_buf c @ bs\<rparr>"
      have got: "ct_got bs c1 = Some ?c2" using other c1 by (simp add: ct_got_def Let_def)
      from ptrs_read [OF 1(3,4) r False] other have p: "ptrs ?c2 addrs" "length (ct_buf ?c2) < PIPE_MSG_SIZE" by auto
      from 1(1) [OF r [symmetric] False got _ p] c1 step r False got show ?thesis by simp
    qed
  qed
qed



end
