(* ===== verification/Ini_File.thy ===== *)
theory Ini_File
  imports Base_String "HOL-Library.Char_ord" "HOL-Library.List_Lexorder"
begin

text \<open>
  The settings file of \<open>base/ini_file.h\<close> and \<open>base/ini_file.cpp\<close>: sections of keys with values,
  reading and writing it, and the operations on single values. The two \<open>std::map\<close>s are lists
  in the order of their keys, which is the order of the bytes. The file system is a map from
  names to contents and the set of the names that can be written.
\<close>

section \<open>Sorted maps\<close>

fun sm_put :: "('k :: linorder \<times> 'v) list \<Rightarrow> 'k \<Rightarrow> 'v \<Rightarrow> ('k \<times> 'v) list" where
  "sm_put [] k v = [(k, v)]"
| "sm_put ((a, b) # m) k v =
     (if k < a then (k, v) # (a, b) # m else if k = a then (a, v) # m else (a, b) # sm_put m k v)"

definition sm_insert :: "('k :: linorder \<times> 'v) list \<Rightarrow> 'k \<Rightarrow> 'v \<Rightarrow> ('k \<times> 'v) list" where
  "sm_insert m k v = (case map_of m k of None \<Rightarrow> sm_put m k v | Some _ \<Rightarrow> m)"

definition sm_sorted :: "('k :: linorder \<times> 'v) list \<Rightarrow> bool" where
  "sm_sorted m \<longleftrightarrow> sorted_wrt (<) (map fst m)"

lemma map_of_sm_put [simp]: "map_of (sm_put m k v) = (map_of m)(k \<mapsto> v)"
  by (induction m k v rule: sm_put.induct) (auto simp: fun_upd_twist)

lemma map_of_sm_insert [simp]:
  "map_of (sm_insert m k v) k' = (case map_of m k' of Some x \<Rightarrow> Some x | None \<Rightarrow> if k' = k then Some v else None)"
  by (auto simp: sm_insert_def split: option.splits)

lemma set_sm_put: "fst ` set (sm_put m k v) = insert k (fst ` set m)"
  by (induction m k v rule: sm_put.induct) auto

lemma sm_sorted_put: "sm_sorted m \<Longrightarrow> sm_sorted (sm_put m k v)"
proof (induction m k v rule: sm_put.induct)
  case (2 a b m k v)
  have "\<forall>x \<in> set (sm_put m k v). a < fst x" if "a < k"
    using 2(2) that set_sm_put [of m k v] by (fastforce simp: sm_sorted_def)
  with 2 show ?case by (auto simp: sm_sorted_def)
qed (simp add: sm_sorted_def)

lemma sm_sorted_insert: "sm_sorted m \<Longrightarrow> sm_sorted (sm_insert m k v)"
  by (simp add: sm_insert_def sm_sorted_put split: option.splits)

lemma sm_sorted_erase: "sm_sorted m \<Longrightarrow> sm_sorted (al_erase m k)"
  by (induction m) (auto simp: sm_sorted_def al_erase_def)

text \<open>A key behind all others is appended, a last key is replaced.\<close>

lemma sm_put_append: "\<forall>x \<in> set m. fst x < k \<Longrightarrow> sm_put m k v = m @ [(k, v)]"
  by (induction m k v rule: sm_put.induct) auto

lemma sm_insert_append: "\<forall>x \<in> set m. fst x < k \<Longrightarrow> sm_insert m k v = m @ [(k, v)]"
proof -
  assume m: "\<forall>x \<in> set m. fst x < k"
  then have "map_of m k = None" by (force simp: map_of_eq_None_iff)
  with sm_put_append [OF m] show ?thesis by (simp add: sm_insert_def)
qed

lemma sm_put_last: "\<forall>x \<in> set m. fst x < k \<Longrightarrow> sm_put (m @ [(k, v0)]) k v = m @ [(k, v)]"
  by (induction m k v rule: sm_put.induct) auto

lemma map_of_last: "\<forall>x \<in> set m. fst x < (k :: 'k :: linorder) \<Longrightarrow> map_of (m @ [(k, v)]) k = Some v"
  by (force simp: map_add_def split: option.splits dest: map_of_SomeD)

section \<open>The file in memory\<close>

type_synonym ini_data = "(bytes \<times> (bytes \<times> bytes) list) list"

record ini_file =
  ini_name :: bytes
  ini_datas :: ini_data

definition new_ini :: ini_file where
  "new_ini = \<lparr>ini_name = [], ini_datas = []\<rparr>"

section \<open>Reading\<close>

text \<open>
  A stream is the bytes that are left. \<open>eof\<close> compares the position with the end: once \<open>get\<close>
  has failed at the end both are -1, so it is true exactly when nothing is left.
\<close>

definition ini_eof :: "bytes \<Rightarrow> bool" where
  "ini_eof fs \<longleftrightarrow> fs = []"

fun ini_getline :: "bytes \<Rightarrow> bytes \<times> bytes" where
  "ini_getline [] = ([], [])"
| "ini_getline (ch # fs) =
     (if ch = CR then ini_getline fs
      else if ch \<noteq> LF then (case ini_getline fs of (str, rest) \<Rightarrow> (ch # str, rest))
      else ([], fs))"

lemma ini_getline_shorter: "fs \<noteq> [] \<Longrightarrow> length (snd (ini_getline fs)) < length fs"
proof (induction fs rule: ini_getline.induct)
  case (2 ch fs)
  then show ?case by (cases "fs = []"; cases "ch = CR") (auto split: prod.splits intro: less_SucI)
qed simp

text \<open>
  One line, with the current section and the data: \<open>None\<close> where the code returns false.
  \<open>line[0]\<close> of a line of white space is the terminator of the string.
\<close>

definition parse_line :: "bytes \<Rightarrow> bytes \<times> ini_data \<Rightarrow> (bytes \<times> ini_data) option" where
  "parse_line str st = (case st of (cursec, datas) \<Rightarrow>
     if str = [] then Some st
     else let line = trim str; tag = (case line of [] \<Rightarrow> NUL | c # _ \<Rightarrow> c) in
       if tag = CHR ''#'' \<or> tag = CHR '';'' then Some st
       else if tag = CHR ''['' then
         (if last line \<noteq> CHR '']'' then None
          else let sec = slice line 1 (length line - 2) in
            if sec = [] then None else Some (trim sec, sm_insert datas (trim sec) []))
       else (case strchr line (CHR ''='') of
           None \<Rightarrow> None
         | Some pos \<Rightarrow>
             let curkey = take pos line; curvalue = drop (pos + 1) line in
             if curkey = [] then None
             else (case map_of datas cursec of
                 None \<Rightarrow> None
               | Some kv \<Rightarrow> Some (cursec, sm_put datas cursec (sm_insert kv (trim curkey) (trim curvalue))))))"

function parse_content :: "bytes \<Rightarrow> bytes \<times> ini_data \<Rightarrow> bool \<times> ini_data" where
  "parse_content fs st =
     (if ini_eof fs then (True, snd st)
      else (case parse_line (fst (ini_getline fs)) st of
          None \<Rightarrow> (False, snd st)
        | Some st' \<Rightarrow> parse_content (snd (ini_getline fs)) st'))"
  by pat_completeness auto
termination
  by (relation "measure (\<lambda>(fs, _). length fs)") (auto simp: ini_eof_def ini_getline_shorter)

declare parse_content.simps [simp del]

definition ini_load :: "(bytes \<Rightarrow> bytes option) \<Rightarrow> bytes \<Rightarrow> ini_file \<Rightarrow> bool \<times> ini_file" where
  "ini_load files filename ini = (case files (cstr filename) of
      None \<Rightarrow> (False, ini)
    | Some fs \<Rightarrow> (case parse_content fs ([], ini_datas ini) of (ok, datas) \<Rightarrow>
        (ok, ini\<lparr>ini_datas := datas, ini_name := (if ok then filename else ini_name ini)\<rparr>)))"

section \<open>Writing\<close>

definition key_text :: "bytes \<times> bytes \<Rightarrow> bytes" where
  "key_text kv = fst kv @ ''='' @ snd kv @ [LF]"

definition section_text :: "bytes \<times> (bytes \<times> bytes) list \<Rightarrow> bytes" where
  "section_text s = ''['' @ fst s @ '']'' @ [LF] @ concat (map key_text (snd s)) @ [LF]"

definition ini_text :: "ini_data \<Rightarrow> bytes" where
  "ini_text datas = concat (map section_text datas)"

definition ini_save_as :: "bytes set \<Rightarrow> bytes \<Rightarrow> ini_file \<Rightarrow> (bytes \<Rightarrow> bytes option) \<Rightarrow> bool \<times> (bytes \<Rightarrow> bytes option)" where
  "ini_save_as writable filename ini files =
     (if cstr filename \<notin> writable then (False, files)
      else (True, files(cstr filename \<mapsto> ini_text (ini_datas ini))))"

definition ini_save :: "bytes set \<Rightarrow> ini_file \<Rightarrow> (bytes \<Rightarrow> bytes option) \<Rightarrow> bool \<times> (bytes \<Rightarrow> bytes option)" where
  "ini_save writable ini files = ini_save_as writable (ini_name ini) ini files"

text \<open>What \<open>print\<close> writes to the standard output.\<close>

definition ini_print :: "ini_file \<Rightarrow> bytes" where
  "ini_print ini = concat (map (\<lambda>(sec, kv). ''['' @ cstr sec @ '']'' @
     concat (map (\<lambda>(k, v). k @ ''='' @ v) kv) @ [LF]) (ini_datas ini))"

section \<open>Single values\<close>

definition set_value_string :: "bytes \<Rightarrow> bytes \<Rightarrow> bytes \<Rightarrow> ini_file \<Rightarrow> ini_file" where
  "set_value_string section_name key val ini =
     (let s = trim_copy section_name; k = trim_copy key; v = trim_copy val in
      case map_of (ini_datas ini) s of
        None \<Rightarrow> ini\<lparr>ini_datas := sm_insert (ini_datas ini) s (sm_insert [] k v)\<rparr>
      | Some kv \<Rightarrow> (case map_of kv k of
            None \<Rightarrow> ini\<lparr>ini_datas := sm_put (ini_datas ini) s (sm_insert kv k v)\<rparr>
          | Some _ \<Rightarrow> ini\<lparr>ini_datas := sm_put (ini_datas ini) s (sm_put kv k v)\<rparr>))"

definition get_value_string :: "ini_file \<Rightarrow> bytes \<Rightarrow> bytes \<Rightarrow> bytes \<Rightarrow> bool \<times> bytes" where
  "get_value_string ini section_name key default_val =
     (let s = trim_copy section_name; k = trim_copy key; d = trim_copy default_val in
      case map_of (ini_datas ini) s of
        None \<Rightarrow> (False, d)
      | Some kv \<Rightarrow> (case map_of kv k of None \<Rightarrow> (False, d) | Some v \<Rightarrow> (True, v)))"

definition del_sec :: "bytes \<Rightarrow> ini_file \<Rightarrow> ini_file" where
  "del_sec section_name ini =
     (let s = trim_copy section_name in
      case map_of (ini_datas ini) s of
        None \<Rightarrow> ini | Some _ \<Rightarrow> ini\<lparr>ini_datas := al_erase (ini_datas ini) s\<rparr>)"

definition del_key :: "bytes \<Rightarrow> bytes \<Rightarrow> ini_file \<Rightarrow> ini_file" where
  "del_key section_name key ini =
     (let s = trim_copy section_name; k = trim_copy key in
      case map_of (ini_datas ini) s of
        None \<Rightarrow> ini
      | Some kv \<Rightarrow> (case map_of kv k of
            None \<Rightarrow> ini | Some _ \<Rightarrow> ini\<lparr>ini_datas := sm_put (ini_datas ini) s (al_erase kv k)\<rparr>))"

text \<open>
  The numbers: \<open>from_string\<close> is formatted input of the standard library in base 10, which
  skips white space, takes a sign and digits, ignores the rest, fails without a digit or
  out of the range of the type, and negates modulo the range of an unsigned type.
\<close>

datatype num_type = Signed nat | Unsigned nat

definition from_string :: "num_type \<Rightarrow> bytes \<Rightarrow> int option" where
  "from_string t s = (case scan_int 10 s of
      None \<Rightarrow> None
    | Some (neg, m, _) \<Rightarrow> (let v = (if neg then - int m else int m) in
        case t of
          Signed bits \<Rightarrow> if - (2 ^ (bits - 1)) \<le> v \<and> v < 2 ^ (bits - 1) then Some v else None
        | Unsigned bits \<Rightarrow> if m < 2 ^ bits then Some (v mod 2 ^ bits) else None))"

definition set_value_number :: "bytes \<Rightarrow> bytes \<Rightarrow> int \<Rightarrow> ini_file \<Rightarrow> ini_file" where
  "set_value_number section_name key val ini = set_value_string section_name key (dec_int val) ini"

definition get_value_number :: "num_type \<Rightarrow> ini_file \<Rightarrow> bytes \<Rightarrow> bytes \<Rightarrow> int \<Rightarrow> bool \<times> int" where
  "get_value_number t ini section_name key default_val =
     (case get_value_string ini section_name key [] of (found, str) \<Rightarrow>
        if \<not> found then (False, default_val)
        else (case from_string t str of None \<Rightarrow> (False, default_val) | Some v \<Rightarrow> (True, v)))"

section \<open>What is written is read back\<close>

text \<open>Names and values a file can hold, and data in order.\<close>

definition line_safe :: "bytes \<Rightarrow> bool" where
  "line_safe s \<longleftrightarrow> trimmed s \<and> CR \<notin> set s \<and> LF \<notin> set s"

definition key_ok :: "bytes \<Rightarrow> bool" where
  "key_ok k \<longleftrightarrow> line_safe k \<and> k \<noteq> [] \<and> CHR ''='' \<notin> set k \<and> hd k \<notin> {CHR ''#'', CHR '';'', CHR ''[''}"

definition section_ok :: "bytes \<times> (bytes \<times> bytes) list \<Rightarrow> bool" where
  "section_ok s \<longleftrightarrow> line_safe (fst s) \<and> fst s \<noteq> [] \<and> sm_sorted (snd s) \<and>
     (\<forall>kv \<in> set (snd s). key_ok (fst kv) \<and> line_safe (snd kv))"

definition data_ok :: "ini_data \<Rightarrow> bool" where
  "data_ok d \<longleftrightarrow> sm_sorted d \<and> (\<forall>s \<in> set d. section_ok s)"

lemma key_text: "key_text (k, v) = k @ ''='' @ v @ [LF]"
  by (simp add: key_text_def)

lemma ini_getline_append:
  "CR \<notin> set line \<Longrightarrow> LF \<notin> set line \<Longrightarrow> ini_getline (line @ LF # rest) = (line, rest)"
  by (induction line) auto

lemma parse_content_line:
  assumes "CR \<notin> set line" "LF \<notin> set line"
  shows "parse_content (line @ LF # rest) st = (case parse_line line st of
      None \<Rightarrow> (False, snd st) | Some st' \<Rightarrow> parse_content rest st')"
  by (subst parse_content.simps) (simp add: ini_eof_def ini_getline_append [OF assms] split: option.split)

lemma parse_empty_line: "parse_line [] st = Some st"
  by (cases st) (simp add: parse_line_def)

lemma parse_section_line:
  assumes "line_safe s" "s \<noteq> []"
  shows "parse_line (''['' @ s @ '']'') (cs, d) = Some (s, sm_insert d s [])"
proof -
  have t: "trim (''['' @ s @ '']'') = ''['' @ s @ '']''" by (rule trim_id) (simp add: trimmed_def is_trim_space_def)
  have "slice (''['' @ s @ '']'') 1 (length (''['' @ s @ '']'') - 2) = s" by (simp add: slice_def)
  with t assms show ?thesis by (simp add: parse_line_def line_safe_def Let_def slice_def)
qed

lemma strchr_append: "x \<notin> set a \<Longrightarrow> strchr (a @ x # b) x = Some (length a)"
  by (induction a) auto

lemma parse_key_line:
  assumes "key_ok k" "line_safe v" "map_of d cs = Some kv"
  shows "parse_line (k @ ''='' @ v) (cs, d) = Some (cs, sm_put d cs (sm_insert kv k v))"
proof -
  obtain c r where k: "k = c # r" using assms(1) by (cases k) (auto simp: key_ok_def)
  have "trimmed (k @ ''='' @ v)"
    using assms(1,2) k by (auto simp: trimmed_def key_ok_def line_safe_def is_trim_space_def)
  then have t: "trim (k @ ''='' @ v) = k @ ''='' @ v" by (rule trim_id)
  have s: "strchr (k @ ''='' @ v) (CHR ''='') = Some (length k)" using assms(1) strchr_append [of _ k v] by (simp add: key_ok_def)
  have c: "c \<noteq> CHR ''#''" "c \<noteq> CHR '';''" "c \<noteq> CHR ''[''" using assms(1) k by (auto simp: key_ok_def)
  have "trim k = k" "trim v = v" using assms(1,2) by (simp_all add: key_ok_def line_safe_def)
  with c s assms(3) t [simplified] k show ?thesis by (simp add: parse_line_def Let_def)
qed

lemma parse_keys:
  assumes "\<forall>x \<in> set d. fst x < s" "sm_sorted (kv0 @ kvs)" "\<forall>kv \<in> set kvs. key_ok (fst kv) \<and> line_safe (snd kv)"
  shows "parse_content (concat (map key_text kvs) @ rest) (s, d @ [(s, kv0)]) = parse_content rest (s, d @ [(s, kv0 @ kvs)])"
  using assms(2,3)
proof (induction kvs arbitrary: kv0)
  case (Cons kv kvs)
  obtain k v where kv: "kv = (k, v)" by fastforce
  have ok: "key_ok k" "line_safe v" using Cons(3) kv by auto
  then have no: "CR \<notin> set (k @ ''='' @ v)" "LF \<notin> set (k @ ''='' @ v)" by (auto simp: key_ok_def line_safe_def)
  have "\<forall>x \<in> set kv0. fst x < k" using Cons(2) kv by (auto simp: sm_sorted_def sorted_wrt_append)
  then have "sm_put (d @ [(s, kv0)]) s (sm_insert kv0 k v) = d @ [(s, kv0 @ [kv])]"
    by (simp add: sm_put_last [OF assms(1)] sm_insert_append kv)
  with parse_key_line [OF ok map_of_last [OF assms(1)], of kv0]
  have "parse_line (k @ ''='' @ v) (s, d @ [(s, kv0)]) = Some (s, d @ [(s, kv0 @ [kv])])" by simp
  with parse_content_line [OF no, of "concat (map key_text kvs) @ rest" "(s, d @ [(s, kv0)])"] Cons(1) [of "kv0 @ [kv]"] Cons(2,3)
  show ?case by (simp add: key_text kv)
qed simp

lemma parse_sections:
  assumes "sm_sorted (d0 @ d)" "\<forall>s \<in> set d. section_ok s"
  shows "parse_content (ini_text d) (cs, d0) = (True, d0 @ d)"
  using assms
proof (induction d arbitrary: cs d0)
  case Nil
  show ?case by (subst parse_content.simps) (simp add: ini_text_def ini_eof_def)
next
  case (Cons sec d)
  obtain s kvs where sec: "sec = (s, kvs)" by fastforce
  have ok: "line_safe s" "s \<noteq> []" "sm_sorted kvs" "\<forall>kv \<in> set kvs. key_ok (fst kv) \<and> line_safe (snd kv)"
    using Cons(3) sec by (auto simp: section_ok_def)
  let ?rest = "[LF] @ ini_text d"
  have no: "CR \<notin> set (''['' @ s @ '']'')" "LF \<notin> set (''['' @ s @ '']'')" using ok(1) by (auto simp: line_safe_def)
  have less: "\<forall>x \<in> set d0. fst x < s" using Cons(2) sec by (auto simp: sm_sorted_def sorted_wrt_append)
  have "ini_text (sec # d) = (''['' @ s @ '']'') @ LF # (concat (map key_text kvs) @ ?rest)"
    by (simp add: ini_text_def section_text_def sec)
  then have "parse_content (ini_text (sec # d)) (cs, d0) = parse_content (concat (map key_text kvs) @ ?rest) (s, d0 @ [(s, [])])"
    using parse_content_line [OF no, of "concat (map key_text kvs) @ ?rest" "(cs, d0)"] parse_section_line [OF ok(1,2), of cs d0]
    by (simp add: sm_insert_append [OF less])
  also have "\<dots> = parse_content ?rest (s, d0 @ [sec])"
    using parse_keys [OF less, of "[]" kvs ?rest] ok(3,4) sec by simp
  also have "\<dots> = parse_content (ini_text d) (s, d0 @ [sec])"
    using parse_content_line [of "[]" "ini_text d" "(s, d0 @ [sec])"] by (simp add: parse_empty_line)
  finally show ?case using Cons by simp
qed



section \<open>Values are kept\<close>

text \<open>
  What the settings rely on: a store of values under keys, where keys and values are
  normalised on the way in.
\<close>

locale value_store =
  fixes find :: "'s \<Rightarrow> 'k \<Rightarrow> 'v option" and put :: "'k \<Rightarrow> 'v \<Rightarrow> 's \<Rightarrow> 's" and del :: "'k \<Rightarrow> 's \<Rightarrow> 's"
    and key :: "'k \<Rightarrow> 'k" and val :: "'v \<Rightarrow> 'v"
  assumes find_put: "find (put k v s) k' = (if key k' = key k then Some (val v) else find s k')"
    and find_del: "find (del k s) k' = (if key k' = key k then None else find s k')"
begin

text \<open>The last of several writes counts.\<close>

lemma find_puts:
  "find (fold (\<lambda>(k, v). put k v) kvs s) k' =
     (case map_of (rev (map (\<lambda>(k, v). (key k, val v)) kvs)) (key k') of Some v \<Rightarrow> Some v | None \<Rightarrow> find s k')"
proof (induction kvs rule: rev_induct)
  case (snoc kv kvs)
  then show ?case by (cases kv) (simp add: find_put)
qed simp

lemma put_del: "find (put k v (del k s)) = find (put k v s)"
  by (rule ext) (simp add: find_put find_del)

end

definition ini_find :: "ini_file \<Rightarrow> bytes \<times> bytes \<Rightarrow> bytes option" where
  "ini_find ini sk = (case get_value_string ini (fst sk) (snd sk) [] of (found, v) \<Rightarrow> if found then Some v else None)"

definition ini_put :: "bytes \<times> bytes \<Rightarrow> bytes \<Rightarrow> ini_file \<Rightarrow> ini_file" where
  "ini_put sk v = set_value_string (fst sk) (snd sk) v"

lemma get_value_string_find:
  "get_value_string ini s k d = (case ini_find ini (s, k) of Some v \<Rightarrow> (True, v) | None \<Rightarrow> (False, trim d))"
  by (simp add: ini_find_def get_value_string_def trim_copy_def Let_def split: option.split)

interpretation ini: value_store ini_find ini_put "\<lambda>sk. del_key (fst sk) (snd sk)" "\<lambda>sk. (trim (fst sk), trim (snd sk))" trim
  by unfold_locales
    (auto simp: ini_find_def ini_put_def get_value_string_def set_value_string_def del_key_def trim_copy_def Let_def sm_insert_def
      split: option.splits)

text \<open>
  The settings file keeps what was written last: after any number of values were set a
  value is the last one set under its section and key, trimmed, and where none was set it is
  what it was before.
\<close>

theorem ini_last_write_wins:
  "get_value_string (fold (\<lambda>((s, k), v). set_value_string s k v) kvs ini) sec key d =
     (case map_of (rev (map (\<lambda>((s, k), v). ((trim s, trim k), trim v)) kvs)) (trim sec, trim key) of
        Some v \<Rightarrow> (True, v)
      | None \<Rightarrow> get_value_string ini sec key d)"
proof -
  have f: "(\<lambda>((s, k), v). set_value_string s k v) = (\<lambda>(k, v). ini_put k v)" by (auto simp: fun_eq_iff ini_put_def)
  have m: "(\<lambda>((s, k), v). ((trim s, trim k), trim v)) = (\<lambda>(k, v). ((trim (fst k), trim (snd k)), trim v))" by (auto simp: fun_eq_iff)
  show ?thesis unfolding get_value_string_find f m ini.find_puts by (simp split: option.split)
qed

text \<open>
  A line of white space is not an empty line: the file is refused at it, and the data
  read before stay in the object.
\<close>

theorem blank_line_refused:
  assumes "line \<noteq> []" "list_all is_trim_space line" "CR \<notin> set line" "LF \<notin> set line"
  shows "parse_content (line @ LF # rest) st = (False, snd st)"
proof -
  have "trim line = []" using trim_surround [of "[]" line "[]"] assms(2) by (simp add: trimmed_def)
  then have "parse_line line st = None" using assms(1) by (cases st) (simp add: parse_line_def Let_def)
  then show ?thesis using parse_content_line [OF assms(3,4)] by simp
qed

theorem blank_line_refused_witness:
  "parse_content (''  '' @ LF # ''port=80'') (''host'', [(''host'', [])]) = (False, [(''host'', [])])"
  using blank_line_refused [of "''  ''" "''port=80''" "(''host'', [(''host'', [])])"] by (simp add: is_trim_space_def)

text \<open>Every operation keeps the maps in order.\<close>

definition ini_sorted :: "ini_file \<Rightarrow> bool" where
  "ini_sorted ini \<longleftrightarrow> sm_sorted (ini_datas ini) \<and> (\<forall>s kv. map_of (ini_datas ini) s = Some kv \<longrightarrow> sm_sorted kv)"

lemma ini_sorted_parse_line:
  assumes "parse_line line (cs, d) = Some (cs', d')" "ini_sorted (ini\<lparr>ini_datas := d\<rparr>)"
  shows "ini_sorted (ini\<lparr>ini_datas := d'\<rparr>)"
  using assms
  by (auto simp: parse_line_def ini_sorted_def Let_def sm_sorted_insert sm_sorted_put sm_sorted_def [of "[]"]
      split: if_splits option.splits list.splits)

lemma ini_sorted_parse:
  "ini_sorted (ini\<lparr>ini_datas := snd st\<rparr>) \<Longrightarrow> ini_sorted (ini\<lparr>ini_datas := snd (parse_content fs st)\<rparr>)"
proof (induction fs st rule: parse_content.induct)
  case (1 fs st)
  show ?case
  proof (cases "ini_eof fs \<or> parse_line (fst (ini_getline fs)) st = None")
    case True
    with 1(2) show ?thesis by (subst parse_content.simps) auto
  next
    case False
    then obtain st' where st': "parse_line (fst (ini_getline fs)) st = Some st'" by auto
    have "ini_sorted (ini\<lparr>ini_datas := snd st'\<rparr>)"
      using ini_sorted_parse_line [of _ "fst st" "snd st" "fst st'" "snd st'"] st' 1(2) by simp
    with 1(1) [OF _ st'] st' False show ?thesis by (subst parse_content.simps) simp
  qed
qed

lemma ini_sorted_ops:
  assumes "ini_sorted ini"
  shows "ini_sorted (set_value_string s k v ini)" "ini_sorted (del_sec s ini)" "ini_sorted (del_key s k ini)"
    "ini_sorted (snd (ini_load files name ini))"
proof -
  show "ini_sorted (set_value_string s k v ini)"
    using assms by (auto simp: ini_sorted_def set_value_string_def Let_def sm_sorted_insert sm_sorted_put sm_sorted_def [of "[]"]
      split: option.split)
  show "ini_sorted (del_sec s ini)"
    using assms by (auto simp: ini_sorted_def del_sec_def Let_def sm_sorted_erase split: option.split)
  show "ini_sorted (del_key s k ini)"
    using assms by (auto simp: ini_sorted_def del_key_def Let_def sm_sorted_erase sm_sorted_put split: option.split)
  have "ini_sorted (ini\<lparr>ini_datas := snd (parse_content fs ([], ini_datas ini))\<rparr>)" for fs
    using ini_sorted_parse [where ini = ini and st = "([], ini_datas ini)" and fs = fs] assms by simp
  then show "ini_sorted (snd (ini_load files name ini))"
    using assms by (simp add: ini_load_def ini_sorted_def case_prod_beta split: option.split)
qed

text \<open>
  A number that was set is read back, when it is in the range of the type it is read as.
\<close>

lemma is_trim_space_digit: "d < 10 \<Longrightarrow> \<not> is_trim_space (digit_char d)"
  using digit_char_not_space [of d] by (auto simp: is_trim_space_def c_isspace_def byte_val_def)

lemma trimmed_dec_nat: "trimmed (dec_nat n)"
proof -
  have "c \<in> set (dec_nat n) \<Longrightarrow> \<not> is_trim_space c" for c using dec_nat_digits is_trim_space_digit by blast
  then show ?thesis using hd_in_set [of "dec_nat n"] last_in_set [of "dec_nat n"] by (auto simp: trimmed_def)
qed

lemma number_kept_nat:
  assumes "n < 2 ^ bits"
  shows "get_value_number (Unsigned bits) (set_value_number s k (int n) ini) s k d = (True, int n)"
proof -
  have "trim (dec_nat n) = dec_nat n" by (rule trim_id [OF trimmed_dec_nat])
  then have "get_value_string (set_value_number s k (int n) ini) s k [] = (True, dec_nat n)"
    unfolding get_value_string_find using ini.find_put [where k = "(s, k)" and v = "dec_nat n" and s = ini and k' = "(s, k)"]
    by (simp add: ini_put_def set_value_number_def dec_int_def)
  then show ?thesis using assms scan_int_dec_nat [of "[]" n] by (simp add: get_value_number_def from_string_def)
qed

end
