(* ===== verification/Config.thy ===== *)
theory Config
  imports Ini_File
begin

text \<open>
  The settings of the server, \<open>core/config.h\<close> and \<open>core/config.cpp\<close>, the names of the TLS
  protocols of \<open>core/ssl.cpp\<close>, and reading the settings at the start and again on SIGHUP,
  \<open>core/main.cpp\<close>. The resolver of host names is a parameter. The bits of changed settings
  are collected in a variable that is not initialised: its value before is a parameter too.
\<close>

section \<open>Tokens\<close>

text \<open>
  The loops over \<open>strtok_r\<close>, for a string without NUL: the tokens, and the buffer afterwards.
  The character behind a token is overwritten with NUL by \<open>strtok_r\<close>; the code saves and
  restores it only after that.
\<close>

function strtok :: "(char \<Rightarrow> bool) \<Rightarrow> bytes \<Rightarrow> bytes list \<times> bytes" where
  "strtok delim s =
     (let skipped = takeWhile delim s; t = dropWhile delim s in
      if t = [] then ([], s)
      else let tok = takeWhile (\<lambda>c. \<not> delim c) t; r = dropWhile (\<lambda>c. \<not> delim c) t in
        case r of
          [] \<Rightarrow> ([tok], skipped @ tok)
        | _ # r' \<Rightarrow> (case strtok delim r' of (toks, buf) \<Rightarrow> (tok # toks, skipped @ tok @ NUL # buf)))"
  by pat_completeness auto
termination
proof (relation "measure (\<lambda>(_, s). length s)")
  fix delim s skipped t tok r c r'
  assume "t = dropWhile delim s" "r = dropWhile (\<lambda>c. \<not> delim c) t" "r = c # r'"
  then have "length (c # r') \<le> length s"
    by (metis length_dropWhile_le le_trans)
  then show "((delim, r'), delim, s) \<in> measure (\<lambda>(_, s). length s)" by simp
qed simp

declare strtok.simps [simp del]

section \<open>TLS protocols\<close>

definition SSL_SSLv2 :: "32 word" where "SSL_SSLv2 = 0x0002"
definition SSL_SSLv3 :: "32 word" where "SSL_SSLv3 = 0x0004"
definition SSL_TLSv1 :: "32 word" where "SSL_TLSv1 = 0x0008"
definition SSL_TLSv1_1 :: "32 word" where "SSL_TLSv1_1 = 0x0010"
definition SSL_TLSv1_2 :: "32 word" where "SSL_TLSv1_2 = 0x0020"

definition SSL_PROTOCOLS :: "(bytes \<times> 32 word) list" where
  "SSL_PROTOCOLS = [(''SSLv2'', SSL_SSLv2), (''SSLv3'', SSL_SSLv3), (''TLSv1'', SSL_TLSv1),
     (''TLSv1.1'', SSL_TLSv1_1), (''TLSv1.2'', SSL_TLSv1_2)]"

definition ssl_protocol_to_string :: "32 word \<Rightarrow> bytes" where
  "ssl_protocol_to_string protocols =
     foldl (\<lambda>str (name, bits). if and protocols bits \<noteq> 0 then (if str \<noteq> [] then str @ [SP] else str) @ name else str) [] SSL_PROTOCOLS"

definition protocol_mask :: "bytes \<Rightarrow> 32 word" where
  "protocol_mask s = (case map_of SSL_PROTOCOLS s of None \<Rightarrow> 0 | Some m \<Rightarrow> m)"

definition ssl_string_to_protocol :: "bytes \<Rightarrow> 32 word" where
  "ssl_string_to_protocol str = foldl (\<lambda>p s. or p (protocol_mask s)) 0 (fst (strtok (\<lambda>c. c = SP) str))"

section \<open>The settings\<close>

record ssl_info =
  si_enable :: int
  si_port :: int
  si_protocols :: "32 word"
  si_verify :: int
  si_depth :: int
  si_ciphers :: bytes
  si_cert :: bytes
  si_key :: bytes
  si_keypass :: bytes
  si_ca :: bytes
  si_dhparam :: bytes
  si_crl :: bytes
  si_ecdh_curve :: bytes

text \<open>\<open>cf_handler\<close> says that a handler of changes is set, \<open>cf_calls\<close> are the masks it was called with.\<close>

record config =
  cf_address :: bytes
  cf_port :: int
  cf_p2p_addr :: bytes
  cf_p2p_port :: int
  cf_p2p_enable :: int
  cf_disp_addr :: bytes
  cf_disp_port :: int
  cf_disp_enable :: int
  cf_pub_addr :: bytes
  cf_pub_ip :: nat
  cf_timeout_idle :: int
  cf_timeout_respond :: int
  cf_interval_report :: int
  cf_limit_flow :: int
  cf_limit_rate :: int
  cf_cross_domain_file :: bytes
  cf_ssl :: ssl_info
  cf_handler :: bool
  cf_calls :: "32 word list"

definition MASK_BIT_LOCAL :: "32 word" where "MASK_BIT_LOCAL = 0x00000001"
definition MASK_BIT_P2P :: "32 word" where "MASK_BIT_P2P = 0x00000002"
definition MASK_BIT_DISPATCH :: "32 word" where "MASK_BIT_DISPATCH = 0x00000004"
definition MASK_BIT_PUB_ADDR :: "32 word" where "MASK_BIT_PUB_ADDR = 0x00000008"
definition MASK_BIT_TIMEOUT_IDLE :: "32 word" where "MASK_BIT_TIMEOUT_IDLE = 0x00000010"
definition MASK_BIT_TIMEOUT_RESPOND :: "32 word" where "MASK_BIT_TIMEOUT_RESPOND = 0x00000020"
definition MASK_BIT_INTERVAL_REPORT :: "32 word" where "MASK_BIT_INTERVAL_REPORT = 0x00000040"
definition MASK_BIT_LIMIT_FLOW :: "32 word" where "MASK_BIT_LIMIT_FLOW = 0x00000080"
definition MASK_BIT_LIMIT_RATE :: "32 word" where "MASK_BIT_LIMIT_RATE = 0x00000100"
definition MASK_BIT_CROSS_DOMAIN :: "32 word" where "MASK_BIT_CROSS_DOMAIN = 0x00000200"
definition MASK_BIT_ALL :: "32 word" where "MASK_BIT_ALL = 0xFFFFFFFF"
definition MASK_BIT_SSL_INFO :: "32 word" where "MASK_BIT_SSL_INFO = 0x80000000"

lemmas config_masks = MASK_BIT_LOCAL_def MASK_BIT_P2P_def MASK_BIT_DISPATCH_def MASK_BIT_PUB_ADDR_def MASK_BIT_TIMEOUT_IDLE_def
  MASK_BIT_TIMEOUT_RESPOND_def MASK_BIT_INTERVAL_REPORT_def MASK_BIT_LIMIT_FLOW_def MASK_BIT_LIMIT_RATE_def
  MASK_BIT_CROSS_DOMAIN_def MASK_BIT_ALL_def MASK_BIT_SSL_INFO_def

text \<open>One value: found or not, the new value, the new mask.\<close>

definition conf_get_string :: "ini_file \<Rightarrow> bytes \<Rightarrow> bytes \<Rightarrow> 32 word \<Rightarrow> bytes \<Rightarrow> bytes \<Rightarrow> 32 word \<Rightarrow> bool \<times> bytes \<times> 32 word" where
  "conf_get_string ini sec key flag def_val val bits =
     (case get_value_string ini sec key [] of (found, str) \<Rightarrow>
        if \<not> found then (False, def_val, bits)
        else if \<not> strcaseeq (cstr val) (cstr str) then (True, cstr str, or bits flag)
        else (True, val, and bits (not flag)))"

definition conf_get_integer :: "num_type \<Rightarrow> ini_file \<Rightarrow> bytes \<Rightarrow> bytes \<Rightarrow> 32 word \<Rightarrow> int \<Rightarrow> int \<Rightarrow> 32 word \<Rightarrow> bool \<times> int \<times> 32 word" where
  "conf_get_integer t ini sec key flag def_val val bits =
     (case get_value_number t ini sec key 0 of (found, v) \<Rightarrow>
        if \<not> found then (False, def_val, bits)
        else if val \<noteq> v then (True, v, or bits flag)
        else (True, v, and bits (not flag)))"

section \<open>Steps of \<open>set\<close>\<close>

text \<open>
  A step works on the settings and the mask and says whether \<open>set\<close> returns, and what.
\<close>

type_synonym cfg = "config \<times> 32 word"
type_synonym cfg_step = "cfg \<Rightarrow> bool option \<times> cfg"

primrec steps :: "cfg_step list \<Rightarrow> cfg_step" where
  "steps [] s = (None, s)"
| "steps (f # fs) s = (case f s of (None, s') \<Rightarrow> steps fs s' | (Some b, s') \<Rightarrow> (Some b, s'))"

definition string_of :: "ini_file \<Rightarrow> bytes \<Rightarrow> bytes \<Rightarrow> 32 word \<Rightarrow> bytes \<Rightarrow> (config \<Rightarrow> bytes) \<Rightarrow> ((bytes \<Rightarrow> bytes) \<Rightarrow> config \<Rightarrow> config) \<Rightarrow> cfg \<Rightarrow> bool \<times> cfg" where
  "string_of ini sec key flag def_val get upd s =
     (case conf_get_string ini sec key flag def_val (get (fst s)) (snd s) of (ok, v, m) \<Rightarrow> (ok, upd (\<lambda>_. v) (fst s), m))"

definition int_of :: "num_type \<Rightarrow> ini_file \<Rightarrow> bytes \<Rightarrow> bytes \<Rightarrow> 32 word \<Rightarrow> int \<Rightarrow> (config \<Rightarrow> int) \<Rightarrow> ((int \<Rightarrow> int) \<Rightarrow> config \<Rightarrow> config) \<Rightarrow> cfg \<Rightarrow> bool \<times> cfg" where
  "int_of t ini sec key flag def_val get upd s =
     (case conf_get_integer t ini sec key flag def_val (get (fst s)) (snd s) of (ok, v, m) \<Rightarrow> (ok, upd (\<lambda>_. v) (fst s), m))"

definition need :: "(cfg \<Rightarrow> bool \<times> cfg) \<Rightarrow> cfg_step" where
  "need f s = (case f s of (ok, s') \<Rightarrow> (if ok then None else Some False, s'))"

definition take_or_default :: "(cfg \<Rightarrow> bool \<times> cfg) \<Rightarrow> cfg_step" where
  "take_or_default f s = (None, snd (f s))"

definition refuse :: "(config \<Rightarrow> bool) \<Rightarrow> cfg_step" where
  "refuse bad s = (if bad (fst s) then Some False else None, s)"

text \<open>\<open>if(get_integer(...) && 0 == port)\<close>: a zero that was found is refused.\<close>

definition nonzero :: "(cfg \<Rightarrow> bool \<times> cfg) \<Rightarrow> (config \<Rightarrow> int) \<Rightarrow> cfg_step" where
  "nonzero f get s = (case f s of (ok, s') \<Rightarrow> (if ok \<and> get (fst s') = 0 then Some False else None, s'))"

definition on_bit :: "32 word \<Rightarrow> 32 word \<Rightarrow> cfg_step list \<Rightarrow> cfg_step" where
  "on_bit bits flag fs s = (if and bits flag \<noteq> 0 then steps fs s else (None, s))"

abbreviation INT32 :: num_type where "INT32 \<equiv> Signed 32"
abbreviation INT64 :: num_type where "INT64 \<equiv> Signed 64"
abbreviation UINT16 :: num_type where "UINT16 \<equiv> Unsigned 16"

definition set_local :: "ini_file \<Rightarrow> cfg_step list" where
  "set_local ini =
    [take_or_default (string_of ini ''host'' ''address'' MASK_BIT_LOCAL ''*'' cf_address cf_address_update),
     refuse (\<lambda>c. cf_address c = []),
     nonzero (int_of UINT16 ini ''host'' ''port'' MASK_BIT_LOCAL 0 cf_port cf_port_update) cf_port]"

text \<open>\<open>getaddrinfo\<close> with the public address gives the address of the server.\<close>

definition resolve_pub :: "(bytes \<Rightarrow> nat option) \<Rightarrow> cfg_step" where
  "resolve_pub resolve s = (case resolve (cstr (cf_pub_addr (fst s))) of
      None \<Rightarrow> (Some False, s)
    | Some ip \<Rightarrow> (None, (fst s)\<lparr>cf_pub_ip := ip\<rparr>, snd s))"

definition set_pub_addr :: "(bytes \<Rightarrow> nat option) \<Rightarrow> ini_file \<Rightarrow> cfg_step list" where
  "set_pub_addr resolve ini =
    [need (string_of ini ''host'' ''pub_addr'' MASK_BIT_PUB_ADDR [] cf_pub_addr cf_pub_addr_update),
     refuse (\<lambda>c. cf_pub_addr c = []),
     resolve_pub resolve]"

definition set_p2p :: "ini_file \<Rightarrow> cfg_step list" where
  "set_p2p ini =
    [need (string_of ini ''p2p'' ''p2p_addr'' MASK_BIT_P2P [] cf_p2p_addr cf_p2p_addr_update),
     refuse (\<lambda>c. cf_p2p_addr c = []),
     need (int_of INT32 ini ''p2p'' ''p2p_port'' MASK_BIT_P2P 0 cf_p2p_port cf_p2p_port_update),
     refuse (\<lambda>c. cf_p2p_port c = 0),
     take_or_default (int_of INT32 ini ''p2p'' ''p2p_enable'' MASK_BIT_P2P 1 cf_p2p_enable cf_p2p_enable_update)]"

definition set_dispatch :: "ini_file \<Rightarrow> cfg_step list" where
  "set_dispatch ini =
    [need (string_of ini ''dispatch'' ''disp_addr'' MASK_BIT_DISPATCH [] cf_disp_addr cf_disp_addr_update),
     refuse (\<lambda>c. cf_disp_addr c = []),
     need (int_of INT32 ini ''dispatch'' ''disp_port'' MASK_BIT_DISPATCH 0 cf_disp_port cf_disp_port_update),
     refuse (\<lambda>c. cf_disp_port c = 0),
     take_or_default (int_of INT32 ini ''dispatch'' ''disp_enable'' MASK_BIT_P2P 1 cf_disp_enable cf_disp_enable_update)]"

definition set_timeout_idle :: "ini_file \<Rightarrow> cfg_step list" where
  "set_timeout_idle ini =
    [take_or_default (int_of INT32 ini ''time'' ''timeout_idle'' MASK_BIT_TIMEOUT_IDLE 600 cf_timeout_idle cf_timeout_idle_update)]"

definition set_timeout_respond :: "ini_file \<Rightarrow> cfg_step list" where
  "set_timeout_respond ini =
    [take_or_default (int_of INT32 ini ''time'' ''timeout_respond'' MASK_BIT_TIMEOUT_RESPOND 60 cf_timeout_respond cf_timeout_respond_update)]"

definition set_interval_report :: "ini_file \<Rightarrow> cfg_step list" where
  "set_interval_report ini =
    [take_or_default (int_of INT32 ini ''time'' ''interval_report'' MASK_BIT_INTERVAL_REPORT 30 cf_interval_report cf_interval_report_update)]"

definition set_limit_flow :: "ini_file \<Rightarrow> cfg_step list" where
  "set_limit_flow ini =
    [take_or_default (int_of INT64 ini ''control'' ''limit_flow'' MASK_BIT_LIMIT_FLOW 0 cf_limit_flow cf_limit_flow_update)]"

definition set_limit_rate :: "ini_file \<Rightarrow> cfg_step list" where
  "set_limit_rate ini =
    [take_or_default (int_of INT64 ini ''control'' ''limit_rate'' MASK_BIT_LIMIT_RATE 0 cf_limit_rate cf_limit_rate_update)]"

definition set_cross_domain :: "ini_file \<Rightarrow> cfg_step list" where
  "set_cross_domain ini =
    [need (string_of ini ''http'' ''cross_domain'' MASK_BIT_CROSS_DOMAIN [] cf_cross_domain_file cf_cross_domain_file_update)]"

definition ssl_string :: "ini_file \<Rightarrow> bytes \<Rightarrow> bytes \<Rightarrow> (ssl_info \<Rightarrow> bytes) \<Rightarrow> ((bytes \<Rightarrow> bytes) \<Rightarrow> ssl_info \<Rightarrow> ssl_info) \<Rightarrow> cfg \<Rightarrow> bool \<times> cfg" where
  "ssl_string ini key def_val get upd =
     string_of ini ''ssl'' key MASK_BIT_SSL_INFO def_val (\<lambda>c. get (cf_ssl c)) (\<lambda>f. cf_ssl_update (upd f))"

definition ssl_int :: "num_type \<Rightarrow> ini_file \<Rightarrow> bytes \<Rightarrow> int \<Rightarrow> (ssl_info \<Rightarrow> int) \<Rightarrow> ((int \<Rightarrow> int) \<Rightarrow> ssl_info \<Rightarrow> ssl_info) \<Rightarrow> cfg \<Rightarrow> bool \<times> cfg" where
  "ssl_int t ini key def_val get upd =
     int_of t ini ''ssl'' key MASK_BIT_SSL_INFO def_val (\<lambda>c. get (cf_ssl c)) (\<lambda>f. cf_ssl_update (upd f))"

text \<open>Without TLS the plain port is 80 by default, and \<open>set\<close> returns at once.\<close>

definition ssl_disabled :: cfg_step where
  "ssl_disabled s = (if si_enable (cf_ssl (fst s)) = 0
     then (Some True, (cf_ssl_update (si_port_update (\<lambda>_. 0)) ((fst s)\<lparr>cf_port := (if cf_port (fst s) = 0 then 80 else cf_port (fst s))\<rparr>)), snd s)
     else (None, s))"

definition set_protocols :: "ini_file \<Rightarrow> cfg_step" where
  "set_protocols ini s =
     (case conf_get_string ini ''ssl'' ''ssl_protocols'' MASK_BIT_SSL_INFO ''SSLv2 SSLv3 TLSv1 TLSv1.1 TLSv1.2'' [] (snd s) of
        (_, str, m) \<Rightarrow> (None, cf_ssl_update (si_protocols_update (\<lambda>_. ssl_string_to_protocol str)) (fst s), m))"

definition set_verify :: "ini_file \<Rightarrow> cfg_step" where
  "set_verify ini s = (if si_verify (cf_ssl (fst s)) \<noteq> 0
     then steps [take_or_default (ssl_int INT32 ini ''ssl_depth'' 1 si_depth si_depth_update),
        \<lambda>s. (None, (if si_depth (cf_ssl (fst s)) < 0 then cf_ssl_update (si_depth_update (\<lambda>_. 1)) (fst s) else fst s), snd s),
        need (ssl_string ini ''ssl_ca'' [] si_ca si_ca_update),
        take_or_default (ssl_string ini ''ssl_crl'' [] si_crl si_crl_update)] s
     else (None, s))"

definition set_ssl :: "ini_file \<Rightarrow> cfg_step list" where
  "set_ssl ini =
    [take_or_default (ssl_int INT32 ini ''ssl_enable'' 1 si_enable si_enable_update),
     ssl_disabled,
     nonzero (ssl_int UINT16 ini ''ssl_port'' 443 si_port si_port_update) (\<lambda>c. si_port (cf_ssl c)),
     refuse (\<lambda>c. si_port (cf_ssl c) = cf_port c),
     need (ssl_string ini ''ssl_cert'' [] si_cert si_cert_update),
     need (ssl_string ini ''ssl_key'' [] si_key si_key_update),
     take_or_default (ssl_string ini ''ssl_keypass'' [] si_keypass si_keypass_update),
     set_protocols ini,
     refuse (\<lambda>c. si_protocols (cf_ssl c) = 0),
     take_or_default (ssl_string ini ''ssl_ciphers'' ''HIGH:!aNULL:!MD5'' si_ciphers si_ciphers_update),
     take_or_default (ssl_string ini ''ssl_dhparam'' [] si_dhparam si_dhparam_update),
     take_or_default (ssl_string ini ''ssl_ecdh_curve'' [] si_ecdh_curve si_ecdh_curve_update),
     take_or_default (ssl_int INT32 ini ''ssl_verify'' 0 si_verify si_verify_update),
     set_verify ini]"

definition config_steps :: "(bytes \<Rightarrow> nat option) \<Rightarrow> ini_file \<Rightarrow> 32 word \<Rightarrow> cfg_step" where
  "config_steps resolve ini bits = steps
    [on_bit bits MASK_BIT_LOCAL (set_local ini), on_bit bits MASK_BIT_PUB_ADDR (set_pub_addr resolve ini),
     on_bit bits MASK_BIT_P2P (set_p2p ini), on_bit bits MASK_BIT_DISPATCH (set_dispatch ini),
     on_bit bits MASK_BIT_TIMEOUT_IDLE (set_timeout_idle ini), on_bit bits MASK_BIT_TIMEOUT_RESPOND (set_timeout_respond ini),
     on_bit bits MASK_BIT_INTERVAL_REPORT (set_interval_report ini), on_bit bits MASK_BIT_LIMIT_FLOW (set_limit_flow ini),
     on_bit bits MASK_BIT_LIMIT_RATE (set_limit_rate ini), on_bit bits MASK_BIT_CROSS_DOMAIN (set_cross_domain ini),
     on_bit bits MASK_BIT_SSL_INFO (set_ssl ini)]"

definition config_set :: "(bytes \<Rightarrow> nat option) \<Rightarrow> ini_file \<Rightarrow> 32 word \<Rightarrow> bool \<Rightarrow> 32 word \<Rightarrow> config \<Rightarrow> bool \<times> config" where
  "config_set resolve ini bits is_notify_changed junk c =
     (case config_steps resolve ini bits (c, junk) of
        (Some b, c', _) \<Rightarrow> (b, c')
      | (None, c', m) \<Rightarrow> (True, if is_notify_changed \<and> cf_handler c' then c'\<lparr>cf_calls := cf_calls c' @ [m]\<rparr> else c'))"

definition set_all :: "(bytes \<Rightarrow> nat option) \<Rightarrow> ini_file \<Rightarrow> bool \<Rightarrow> 32 word \<Rightarrow> config \<Rightarrow> bool \<times> config" where
  "set_all resolve ini is_notify_changed = config_set resolve ini MASK_BIT_ALL is_notify_changed"

definition set_changed_handler :: "bool \<Rightarrow> config \<Rightarrow> config" where
  "set_changed_handler handler c = c\<lparr>cf_handler := handler\<rparr>"

section \<open>Start and reload\<close>

text \<open>
  \<open>configure\<close>: the file is in the directory of the executable, to which the process changes;
  the settings are read from it. \<open>reconfigure\<close> reads the file again and takes six of them.
\<close>

definition configure :: "(bytes \<Rightarrow> nat option) \<Rightarrow> (bytes \<Rightarrow> bytes option) \<Rightarrow> bytes option \<Rightarrow> bool \<Rightarrow> 32 word \<Rightarrow> config \<Rightarrow> bool \<times> bytes \<times> config" where
  "configure resolve files link chdir_ok junk c =
     (case get_exe_dir link True of
        None \<Rightarrow> (False, [], c)
      | Some dir \<Rightarrow>
          if \<not> chdir_ok then (False, dir, c)
          else let name = dir @ ''/server.cfg'' in
            (case ini_load files (cstr name) new_ini of (ok, ini) \<Rightarrow>
               if \<not> ok then (False, name, c)
               else (case set_all resolve ini False junk c of (ok, c') \<Rightarrow> (ok, name, c'))))"

definition reload_mask :: "32 word" where
  "reload_mask = or MASK_BIT_PUB_ADDR (or MASK_BIT_TIMEOUT_IDLE (or MASK_BIT_TIMEOUT_RESPOND
     (or MASK_BIT_INTERVAL_REPORT (or MASK_BIT_LIMIT_FLOW MASK_BIT_LIMIT_RATE))))"

definition reconfigure :: "(bytes \<Rightarrow> nat option) \<Rightarrow> (bytes \<Rightarrow> bytes option) \<Rightarrow> bytes \<Rightarrow> 32 word \<Rightarrow> config \<Rightarrow> config" where
  "reconfigure resolve files name junk c =
     (case ini_load files name new_ini of (ok, ini) \<Rightarrow>
        if \<not> ok then c else snd (config_set resolve ini reload_mask True junk c))"

section \<open>Reasoning about steps\<close>

text \<open>
  \<open>cwp R f Q s\<close>: if the step goes on, then to a state with \<open>Q\<close>, and if it makes \<open>set\<close> return
  true, then in a state with \<open>R\<close>.
\<close>

definition cwp :: "(cfg \<Rightarrow> bool) \<Rightarrow> cfg_step \<Rightarrow> (cfg \<Rightarrow> bool) \<Rightarrow> cfg \<Rightarrow> bool" where
  "cwp R f Q s = (case f s of (None, s') \<Rightarrow> Q s' | (Some b, s') \<Rightarrow> b \<longrightarrow> R s')"

named_theorems cwp_rules \<open>rules for the steps of config::set\<close>

lemma cwp_nil [cwp_rules]: "Q s \<Longrightarrow> cwp R (steps []) Q s"
  by (simp add: cwp_def)

lemma cwp_cons [cwp_rules]: "cwp R f (cwp R (steps fs) Q) s \<Longrightarrow> cwp R (steps (f # fs)) Q s"
  by (auto simp: cwp_def split: option.splits prod.splits)

lemma cwp_on_bit [cwp_rules]:
  "(and bits flag \<noteq> 0 \<Longrightarrow> cwp R (steps fs) Q s) \<Longrightarrow> (and bits flag = 0 \<Longrightarrow> Q s) \<Longrightarrow> cwp R (on_bit bits flag fs) Q s"
  by (simp add: cwp_def on_bit_def)

lemma cwp_refuse [cwp_rules]: "(\<not> bad (fst s) \<Longrightarrow> Q s) \<Longrightarrow> cwp R (refuse bad) Q s"
  by (simp add: cwp_def refuse_def)

lemma cwp_take_string [cwp_rules]:
  "(\<And>v m. Q (upd (\<lambda>_. v) (fst s), m)) \<Longrightarrow> cwp R (take_or_default (string_of ini sec key flag d get upd)) Q s"
  by (simp add: cwp_def take_or_default_def string_of_def split: prod.split)

lemma cwp_take_int [cwp_rules]:
  "(\<And>v m. Q (upd (\<lambda>_. v) (fst s), m)) \<Longrightarrow> cwp R (take_or_default (int_of t ini sec key flag d get upd)) Q s"
  by (simp add: cwp_def take_or_default_def int_of_def split: prod.split)

lemma cwp_need_string [cwp_rules]:
  "(\<And>v m. Q (upd (\<lambda>_. v) (fst s), m)) \<Longrightarrow> cwp R (need (string_of ini sec key flag d get upd)) Q s"
  by (simp add: cwp_def need_def string_of_def split: prod.split)

lemma cwp_need_int [cwp_rules]:
  "(\<And>v m. Q (upd (\<lambda>_. v) (fst s), m)) \<Longrightarrow> cwp R (need (int_of t ini sec key flag d get upd)) Q s"
  by (simp add: cwp_def need_def int_of_def split: prod.split)

lemma conf_get_integer_default: "conf_get_integer t ini sec key flag d val bits = (False, v, m) \<Longrightarrow> v = d"
  by (auto simp: conf_get_integer_def split: prod.splits if_splits)

lemma cwp_nonzero [cwp_rules]:
  "(\<And>v m. get' (upd (\<lambda>_. v) (fst s)) \<noteq> 0 \<or> v = d \<Longrightarrow> Q (upd (\<lambda>_. v) (fst s), m)) \<Longrightarrow>
   cwp R (nonzero (int_of t ini sec key flag d get upd) get') Q s"
  using conf_get_integer_default
  by (fastforce simp: cwp_def nonzero_def int_of_def split: prod.splits)

lemmas cwp_ssl [cwp_rules] =
  cwp_take_string [where sec = "''ssl''" and flag = MASK_BIT_SSL_INFO and get = "\<lambda>c. get (cf_ssl c)" and upd = "\<lambda>f. cf_ssl_update (upd f)" for get upd,
    folded ssl_string_def]
  cwp_need_string [where sec = "''ssl''" and flag = MASK_BIT_SSL_INFO and get = "\<lambda>c. get (cf_ssl c)" and upd = "\<lambda>f. cf_ssl_update (upd f)" for get upd,
    folded ssl_string_def]
  cwp_take_int [where sec = "''ssl''" and flag = MASK_BIT_SSL_INFO and get = "\<lambda>c. get (cf_ssl c)" and upd = "\<lambda>f. cf_ssl_update (upd f)" for get upd,
    folded ssl_int_def]
  cwp_nonzero [where sec = "''ssl''" and flag = MASK_BIT_SSL_INFO and get = "\<lambda>c. get (cf_ssl c)" and upd = "\<lambda>f. cf_ssl_update (upd f)" for get upd,
    folded ssl_int_def]

lemma cwp_resolve [cwp_rules]: "(\<And>ip. Q ((fst s)\<lparr>cf_pub_ip := ip\<rparr>, snd s)) \<Longrightarrow> cwp R (resolve_pub resolve) Q s"
  by (simp add: cwp_def resolve_pub_def split: option.split)

lemma cwp_local:
  "(\<And>a p m. a \<noteq> [] \<Longrightarrow> Q ((fst s)\<lparr>cf_address := a, cf_port := p\<rparr>, m)) \<Longrightarrow> cwp R (steps (set_local ini)) Q s"
  unfolding set_local_def by (intro cwp_rules) simp

lemma cwp_pub:
  "(\<And>a i m. a \<noteq> [] \<Longrightarrow> Q ((fst s)\<lparr>cf_pub_addr := a, cf_pub_ip := i\<rparr>, m)) \<Longrightarrow> cwp R (steps (set_pub_addr resolve ini)) Q s"
  unfolding set_pub_addr_def by (intro cwp_rules) simp

lemma cwp_p2p:
  "(\<And>a p e m. a \<noteq> [] \<Longrightarrow> p \<noteq> 0 \<Longrightarrow> Q ((fst s)\<lparr>cf_p2p_addr := a, cf_p2p_port := p, cf_p2p_enable := e\<rparr>, m)) \<Longrightarrow>
   cwp R (steps (set_p2p ini)) Q s"
  unfolding set_p2p_def by (intro cwp_rules) simp

lemma cwp_dispatch:
  "(\<And>a p e m. a \<noteq> [] \<Longrightarrow> p \<noteq> 0 \<Longrightarrow> Q ((fst s)\<lparr>cf_disp_addr := a, cf_disp_port := p, cf_disp_enable := e\<rparr>, m)) \<Longrightarrow>
   cwp R (steps (set_dispatch ini)) Q s"
  unfolding set_dispatch_def by (intro cwp_rules) simp

text \<open>What a complete set of settings promises.\<close>

definition ssl_usable :: "config \<Rightarrow> bool" where
  "ssl_usable c \<longleftrightarrow> (let s = cf_ssl c in
     if si_enable s = 0 then si_port s = 0 \<and> cf_port c \<noteq> 0
     else si_port s \<noteq> 0 \<and> si_port s \<noteq> cf_port c \<and> si_protocols s \<noteq> 0 \<and> (si_verify s \<noteq> 0 \<longrightarrow> 0 \<le> si_depth s))"

definition config_usable :: "config \<Rightarrow> bool" where
  "config_usable c \<longleftrightarrow> cf_address c \<noteq> [] \<and> cf_pub_addr c \<noteq> [] \<and> cf_p2p_addr c \<noteq> [] \<and> cf_p2p_port c \<noteq> 0 \<and>
     cf_disp_addr c \<noteq> [] \<and> cf_disp_port c \<noteq> 0 \<and> ssl_usable c"

definition plain_usable :: "config \<Rightarrow> bool" where
  "plain_usable c \<longleftrightarrow> cf_address c \<noteq> [] \<and> cf_pub_addr c \<noteq> [] \<and> cf_p2p_addr c \<noteq> [] \<and> cf_p2p_port c \<noteq> 0 \<and>
     cf_disp_addr c \<noteq> [] \<and> cf_disp_port c \<noteq> 0"

lemma cwp_pure [cwp_rules]: "Q (g s) \<Longrightarrow> cwp R (\<lambda>s. (None, g s)) Q s"
  by (simp add: cwp_def)

lemma cwp_disabled [cwp_rules]:
  "(si_enable (cf_ssl (fst s)) = 0 \<Longrightarrow> R (snd (ssl_disabled s))) \<Longrightarrow> (si_enable (cf_ssl (fst s)) \<noteq> 0 \<Longrightarrow> Q s) \<Longrightarrow>
   cwp R ssl_disabled Q s"
  by (simp add: cwp_def ssl_disabled_def)

lemma cwp_protocols [cwp_rules]:
  "(\<And>p m. Q (cf_ssl_update (si_protocols_update (\<lambda>_. p)) (fst s), m)) \<Longrightarrow> cwp R (set_protocols ini) Q s"
  by (simp add: cwp_def set_protocols_def split: prod.split)

lemma cwp_verify [cwp_rules]:
  assumes "\<And>d a l m. 0 \<le> d \<Longrightarrow> Q ((fst s)\<lparr>cf_ssl := (cf_ssl (fst s))\<lparr>si_depth := d, si_ca := a, si_crl := l\<rparr>\<rparr>, m)"
    and "si_verify (cf_ssl (fst s)) = 0 \<Longrightarrow> Q s"
  shows "cwp R (set_verify ini) Q s"
proof (cases "si_verify (cf_ssl (fst s)) = 0")
  case True
  with assms(2) show ?thesis by (simp add: cwp_def set_verify_def)
next
  case False
  have "cwp R (steps [take_or_default (ssl_int INT32 ini ''ssl_depth'' 1 si_depth si_depth_update),
        \<lambda>s. (None, (if si_depth (cf_ssl (fst s)) < 0 then cf_ssl_update (si_depth_update (\<lambda>_. 1)) (fst s) else fst s), snd s),
        need (ssl_string ini ''ssl_ca'' [] si_ca si_ca_update),
        take_or_default (ssl_string ini ''ssl_crl'' [] si_crl si_crl_update)]) Q s"
  proof (intro cwp_rules)
    fix d m a m' l m''
    let ?c = "cf_ssl_update (si_depth_update (\<lambda>_. d)) (fst s)"
    let ?d = "if d < 0 then 1 else d"
    have "0 \<le> ?d" by simp
    from assms(1) [OF this, where a = a and l = l and m = m''] show "Q (cf_ssl_update (si_crl_update (\<lambda>_. l)) (fst (cf_ssl_update (si_ca_update (\<lambda>_. a))
        (fst (if si_depth (cf_ssl (fst (?c, m))) < 0 then cf_ssl_update (si_depth_update (\<lambda>_. 1)) (fst (?c, m)) else fst (?c, m), snd (?c, m))), m')), m'')"
      by (cases "fst s"; cases "d < 0") simp_all
  qed
  with False show ?thesis by (simp add: cwp_def set_verify_def)
qed

lemma cwp_ssl_steps:
  assumes "plain_usable (fst s)" "\<And>c m. config_usable c \<Longrightarrow> R (c, m)" "\<And>c m. config_usable c \<Longrightarrow> Q (c, m)"
  shows "cwp R (steps (set_ssl ini)) Q s"
  unfolding set_ssl_def
  by (intro cwp_rules)
    (rule assms(2) [of "fst (snd (ssl_disabled t))" "snd (snd (ssl_disabled t))" for t, simplified] assms(3),
      use assms(1) in \<open>auto simp: config_usable_def ssl_usable_def plain_usable_def ssl_disabled_def Let_def\<close>)+

lemma cwp_idle: "(\<And>v m. Q ((fst s)\<lparr>cf_timeout_idle := v\<rparr>, m)) \<Longrightarrow> cwp R (steps (set_timeout_idle ini)) Q s"
  unfolding set_timeout_idle_def by (intro cwp_rules) simp

lemma cwp_respond: "(\<And>v m. Q ((fst s)\<lparr>cf_timeout_respond := v\<rparr>, m)) \<Longrightarrow> cwp R (steps (set_timeout_respond ini)) Q s"
  unfolding set_timeout_respond_def by (intro cwp_rules) simp

lemma cwp_report: "(\<And>v m. Q ((fst s)\<lparr>cf_interval_report := v\<rparr>, m)) \<Longrightarrow> cwp R (steps (set_interval_report ini)) Q s"
  unfolding set_interval_report_def by (intro cwp_rules) simp

lemma cwp_flow: "(\<And>v m. Q ((fst s)\<lparr>cf_limit_flow := v\<rparr>, m)) \<Longrightarrow> cwp R (steps (set_limit_flow ini)) Q s"
  unfolding set_limit_flow_def by (intro cwp_rules) simp

lemma cwp_rate: "(\<And>v m. Q ((fst s)\<lparr>cf_limit_rate := v\<rparr>, m)) \<Longrightarrow> cwp R (steps (set_limit_rate ini)) Q s"
  unfolding set_limit_rate_def by (intro cwp_rules) simp

lemma cwp_cross: "(\<And>v m. Q ((fst s)\<lparr>cf_cross_domain_file := v\<rparr>, m)) \<Longrightarrow> cwp R (steps (set_cross_domain ini)) Q s"
  unfolding set_cross_domain_def by (intro cwp_rules) simp

lemma on_bit_all: "flag \<noteq> 0 \<Longrightarrow> on_bit MASK_BIT_ALL flag fs = steps fs"
proof -
  assume "flag \<noteq> 0"
  moreover have "and MASK_BIT_ALL flag = flag"
  proof -
    have all: "MASK_BIT_ALL = - 1" by (simp add: MASK_BIT_ALL_def)
    show ?thesis unfolding all by (rule bit_word_eqI) (simp add: bit_simps)
  qed
  ultimately show ?thesis by (simp add: on_bit_def fun_eq_iff)
qed

lemma config_bits_nonzero:
  "MASK_BIT_LOCAL \<noteq> 0" "MASK_BIT_PUB_ADDR \<noteq> 0" "MASK_BIT_P2P \<noteq> 0" "MASK_BIT_DISPATCH \<noteq> 0" "MASK_BIT_TIMEOUT_IDLE \<noteq> 0"
  "MASK_BIT_TIMEOUT_RESPOND \<noteq> 0" "MASK_BIT_INTERVAL_REPORT \<noteq> 0" "MASK_BIT_LIMIT_FLOW \<noteq> 0" "MASK_BIT_LIMIT_RATE \<noteq> 0"
  "MASK_BIT_CROSS_DOMAIN \<noteq> 0" "MASK_BIT_SSL_INFO \<noteq> 0"
  by (simp_all add: config_masks)

lemma cwp_set_all:
  assumes "\<And>c m. config_usable c \<Longrightarrow> Q (c, m)"
  shows "cwp Q (config_steps resolve ini MASK_BIT_ALL) Q s"
  unfolding config_steps_def on_bit_all [OF config_bits_nonzero(1)] on_bit_all [OF config_bits_nonzero(2)]
    on_bit_all [OF config_bits_nonzero(3)] on_bit_all [OF config_bits_nonzero(4)] on_bit_all [OF config_bits_nonzero(5)]
    on_bit_all [OF config_bits_nonzero(6)] on_bit_all [OF config_bits_nonzero(7)] on_bit_all [OF config_bits_nonzero(8)]
    on_bit_all [OF config_bits_nonzero(9)] on_bit_all [OF config_bits_nonzero(10)] on_bit_all [OF config_bits_nonzero(11)]
  by (intro cwp_cons cwp_nil cwp_local cwp_pub cwp_p2p cwp_dispatch cwp_idle cwp_respond cwp_report cwp_flow cwp_rate cwp_cross
      cwp_ssl_steps)
    (simp_all add: plain_usable_def assms)

lemma set_all_usable:
  assumes "set_all resolve ini notify junk c = (True, c')"
  shows "config_usable c'"
proof -
  have call: "config_usable (d\<lparr>cf_calls := x\<rparr>) = config_usable d" for d x
    by (simp add: config_usable_def ssl_usable_def Let_def)
  have "cwp (\<lambda>s. config_usable (fst s)) (config_steps resolve ini MASK_BIT_ALL) (\<lambda>s. config_usable (fst s)) (c, junk)"
    by (rule cwp_set_all) simp
  then show ?thesis
    using assms call by (auto simp: set_all_def config_set_def cwp_def split: prod.splits option.splits if_splits)
qed


definition blank_ssl :: ssl_info where
  "blank_ssl = \<lparr>si_enable = 0, si_port = 0, si_protocols = 0, si_verify = 0, si_depth = 0, si_ciphers = [], si_cert = [],
     si_key = [], si_keypass = [], si_ca = [], si_dhparam = [], si_crl = [], si_ecdh_curve = []\<rparr>"

definition blank_config :: config where
  "blank_config = \<lparr>cf_address = [], cf_port = 0, cf_p2p_addr = [], cf_p2p_port = 0, cf_p2p_enable = 0, cf_disp_addr = [],
     cf_disp_port = 0, cf_disp_enable = 0, cf_pub_addr = [], cf_pub_ip = 0, cf_timeout_idle = 0, cf_timeout_respond = 0,
     cf_interval_report = 0, cf_limit_flow = 0, cf_limit_rate = 0, cf_cross_domain_file = [], cf_ssl = blank_ssl,
     cf_handler = False, cf_calls = []\<rparr>"

definition sample_ini :: ini_file where
  "sample_ini = \<lparr>ini_name = [], ini_datas =
     [(''dispatch'', [(''disp_addr'', ''d''), (''disp_port'', ''7'')]), (''host'', [(''pub_addr'', ''h'')]),
      (''http'', [(''cross_domain'', ''x'')]), (''p2p'', [(''p2p_addr'', ''p''), (''p2p_port'', ''9'')]),
      (''ssl'', [(''ssl_cert'', ''c''), (''ssl_key'', ''k'')])]\<rparr>"

lemma sample_accepted: "fst (set_all (\<lambda>_. Some 2) sample_ini False 0 blank_config)"
  by code_simp


section \<open>Names of protocols\<close>

text \<open>The string of a set of protocols depends on five bits of it.\<close>

definition join_names :: "bool list \<Rightarrow> bytes" where
  "join_names bs = foldl (\<lambda>str (b, name). if b then (if str \<noteq> [] then str @ [SP] else str) @ name else str) []
     (zip bs (map fst SSL_PROTOCOLS))"

definition protocol_bits :: "bool list \<Rightarrow> 32 word" where
  "protocol_bits bs = foldl (\<lambda>p (b, m). if b then or p m else p) 0 (zip bs (map snd SSL_PROTOCOLS))"

lemma names_back: "ssl_string_to_protocol (join_names [b1, b2, b3, b4, b5]) = protocol_bits [b1, b2, b3, b4, b5]"
proof -
  have "list_all (\<lambda>bs. ssl_string_to_protocol (join_names bs) = protocol_bits bs) (List.n_lists 5 [False, True])"
    by code_simp
  then have "\<forall>bs \<in> set (List.n_lists 5 [False, True]). ssl_string_to_protocol (join_names bs) = protocol_bits bs"
    by (simp only: list_all_iff)
  moreover have "[b1, b2, b3, b4, b5] \<in> set (List.n_lists 5 [False, True])" by (simp add: set_n_lists)
  ultimately show ?thesis by blast
qed

definition protocol_list :: "32 word \<Rightarrow> bool list" where
  "protocol_list p = map (\<lambda>(_, m). and p m \<noteq> 0) SSL_PROTOCOLS"

lemma protocol_to_string_join: "ssl_protocol_to_string p = join_names (protocol_list p)"
  by (simp add: ssl_protocol_to_string_def join_names_def protocol_list_def SSL_PROTOCOLS_def)

lemma and_single: "and p (2 ^ k) = 0 \<or> and p (2 ^ k) = (2 ^ k :: 32 word)"
  by (cases "bit p k") (auto simp: and_exp_eq_0_iff_not_bit intro!: bit_word_eqI simp: bit_simps)

lemma protocol_bits_list: "protocol_bits (protocol_list p) = and p 0x3E"
proof -
  have m: "and p 2 = 0 \<or> and p 2 = 2" "and p 4 = 0 \<or> and p 4 = 4" "and p 8 = 0 \<or> and p 8 = 8" "and p 16 = 0 \<or> and p 16 = 16"
      "and p 32 = 0 \<or> and p 32 = 32"
    using and_single [of p 1] and_single [of p 2] and_single [of p 3] and_single [of p 4] and_single [of p 5] by simp_all
  have all: "0x3E = or 2 (or 4 (or 8 (or 16 32 :: 32 word)))" by simp
  have "and p 0x3E = or (and p 2) (or (and p 4) (or (and p 8) (or (and p 16) (and p 32))))"
    unfolding all by (simp only: bit.conj_disj_distrib)
  then show ?thesis
    using m by (elim disjE)
      (simp_all add: protocol_bits_def protocol_list_def SSL_PROTOCOLS_def SSL_SSLv2_def SSL_SSLv3_def SSL_TLSv1_def
        SSL_TLSv1_1_def SSL_TLSv1_2_def)
qed

text \<open>
  The protocols written as names are read back: exactly the known protocols of the set
  come back, and other bits are dropped.
\<close>

theorem protocol_names_roundtrip: "ssl_string_to_protocol (ssl_protocol_to_string p) = and p 0x3E"
  unfolding protocol_to_string_join protocol_bits_list [symmetric]
  by (simp add: protocol_list_def SSL_PROTOCOLS_def names_back)

section \<open>Reloading\<close>

text \<open>A part of the settings that a step leaves alone, however it ends.\<close>

definition leaves :: "(config \<Rightarrow> 'x) \<Rightarrow> cfg_step \<Rightarrow> bool" where
  "leaves f st \<longleftrightarrow> (\<forall>s. f (fst (snd (st s))) = f (fst s))"

named_theorems leave_rules \<open>steps that leave a part of the settings alone\<close>

lemma leaves_nil [leave_rules]: "leaves f (steps [])"
  by (simp add: leaves_def)

lemma leaves_cons [leave_rules]: "leaves f g \<Longrightarrow> leaves f (steps gs) \<Longrightarrow> leaves f (steps (g # gs))"
proof -
  assume g: "leaves f g" and gs: "leaves f (steps gs)"
  have "f (fst (snd (steps (g # gs) s))) = f (fst s)" for s
  proof -
    obtain r s' where r: "g s = (r, s')" by (cases "g s") blast
    have "f (fst s') = f (fst s)" using g r by (metis leaves_def snd_conv)
    moreover have "f (fst (snd (steps gs s'))) = f (fst s')" using gs unfolding leaves_def by blast
    ultimately show ?thesis using r by (cases r) simp_all
  qed
  then show ?thesis by (simp add: leaves_def)
qed

lemma leaves_on_bit [leave_rules]: "(and bits flag \<noteq> 0 \<Longrightarrow> leaves f (steps fs)) \<Longrightarrow> leaves f (on_bit bits flag fs)"
  by (simp add: leaves_def on_bit_def)

lemma leaves_refuse [leave_rules]: "leaves f (refuse bad)"
  by (simp add: leaves_def refuse_def)

lemma leaves_string [leave_rules]:
  assumes "\<And>v c. f (upd (\<lambda>_. v) c) = f c"
  shows "leaves f (take_or_default (string_of ini sec key flag d get upd))" "leaves f (need (string_of ini sec key flag d get upd))"
  using assms by (simp_all add: leaves_def take_or_default_def need_def string_of_def split: prod.split)

lemma leaves_int [leave_rules]:
  assumes "\<And>v c. f (upd (\<lambda>_. v) c) = f c"
  shows "leaves f (take_or_default (int_of t ini sec key flag d get upd))"
  using assms by (simp add: leaves_def take_or_default_def int_of_def split: prod.split)

lemma leaves_resolve [leave_rules]: "(\<And>v c. f (c\<lparr>cf_pub_ip := v\<rparr>) = f c) \<Longrightarrow> leaves f (resolve_pub resolve)"
  by (simp add: leaves_def resolve_pub_def split: option.split)

definition fixed_part :: "config \<Rightarrow> bytes \<times> int \<times> bytes \<times> int \<times> int \<times> bytes \<times> int \<times> int \<times> bytes \<times> ssl_info" where
  "fixed_part c = (cf_address c, cf_port c, cf_p2p_addr c, cf_p2p_port c, cf_p2p_enable c, cf_disp_addr c, cf_disp_port c,
     cf_disp_enable c, cf_cross_domain_file c, cf_ssl c)"

lemma leaves_reload: "leaves fixed_part (config_steps resolve ini reload_mask)"
  unfolding config_steps_def
  by (intro leave_rules)
    (simp_all add: reload_mask_def config_masks set_pub_addr_def set_timeout_idle_def set_timeout_respond_def
      set_interval_report_def set_limit_flow_def set_limit_rate_def,
      (intro leave_rules; simp add: fixed_part_def)+)

text \<open>
  C16: reloading the settings while the server runs changes nothing that the listening sockets,
  the connection to the stun server, the dispatch server, the cross domain file or TLS were
  set up from, whatever the file then holds and wherever reading it stops.
\<close>

theorem reload_keeps_fixed_settings:
  "fixed_part (reconfigure resolve files name junk c) = fixed_part c"
proof -
  have "fixed_part (snd (config_set resolve ini reload_mask True junk c)) = fixed_part c" for ini
  proof -
    obtain r c' m where r: "config_steps resolve ini reload_mask (c, junk) = (r, c', m)" by (metis prod.exhaust)
    have "fixed_part c' = fixed_part c"
      using leaves_reload [of resolve ini] r by (metis leaves_def fst_conv snd_conv)
    with r show ?thesis by (cases r) (simp_all add: config_set_def fixed_part_def)
  qed
  then show ?thesis by (simp add: reconfigure_def split: prod.split)
qed

end
