(* ===== verification/Net_Addr.thy ===== *)
theory Net_Addr
  imports Worker_Pipe
begin

text \<open>
  Socket addresses, \<open>net/net_addr.h\<close>, \<open>net/net_addr.cpp\<close> and \<open>net/function.h\<close>: the union of
  \<open>sockaddr_in\<close> and \<open>sockaddr_in6\<close> as its 28 bytes. The family is in the byte order of the target,
  port and address are in network order. An accessor that fails its assertion has no result.
\<close>

section \<open>The union\<close>

definition AF_INET_VAL :: nat where "AF_INET_VAL = 2"
definition AF_INET6_VAL :: nat where "AF_INET6_VAL = 10"
definition SOCKADDR_IN_SIZE :: nat where "SOCKADDR_IN_SIZE = 16"
definition SOCKADDR_IN6_SIZE :: nat where "SOCKADDR_IN6_SIZE = 28"

lemmas addr_sizes = AF_INET_VAL_def AF_INET6_VAL_def SOCKADDR_IN_SIZE_def SOCKADDR_IN6_SIZE_def

definition na_family :: "bytes \<Rightarrow> nat" where
  "na_family a = le_val (slice a 0 2)"

definition na_length :: "bytes \<Rightarrow> nat" where
  "na_length a = (if na_family a = AF_INET_VAL then SOCKADDR_IN_SIZE else SOCKADDR_IN6_SIZE)"

definition ip4_addr :: "bytes \<Rightarrow> bytes" where
  "ip4_addr a = slice a 4 4"

definition ip6_addr :: "bytes \<Rightarrow> bytes" where
  "ip6_addr a = slice a 8 16"

definition ip_addr :: "bytes \<Rightarrow> bytes" where
  "ip_addr a = (if na_family a = AF_INET_VAL then ip4_addr a else ip6_addr a)"

text \<open>A port as \<open>ntohs\<close> gives it.\<close>

definition ip4_port :: "bytes \<Rightarrow> nat option" where
  "ip4_port a = (if na_family a \<noteq> AF_INET_VAL then None else Some (le_val (rev (slice a 2 2))))"

definition ip6_port :: "bytes \<Rightarrow> nat option" where
  "ip6_port a = (if na_family a \<noteq> AF_INET6_VAL then None else Some (le_val (rev (slice a 2 2))))"

definition ip_port :: "bytes \<Rightarrow> nat option" where
  "ip_port a = (if na_family a = AF_INET_VAL then ip4_port a else ip6_port a)"

text \<open>\<open>set\<close> copies at most the size of the family's structure over the old contents.\<close>

definition na_set :: "bytes \<Rightarrow> bytes \<Rightarrow> nat \<Rightarrow> bytes" where
  "na_set old addr len =
     (let maxlen = (if na_family addr = AF_INET_VAL then SOCKADDR_IN_SIZE
                    else if na_family addr = AF_INET6_VAL then SOCKADDR_IN6_SIZE else 0);
          n = (if len > maxlen then maxlen else len)
      in take n addr @ drop n old)"

section \<open>Kinds of addresses\<close>

definition is_any :: "bytes \<Rightarrow> bool" where
  "is_any a \<longleftrightarrow> (if na_family a = AF_INET6_VAL then ip6_addr a = replicate 16 NUL else ip4_addr a = replicate 4 NUL)"

text \<open>The macro \<open>IN_LOOPBACK\<close> of \<open>net/function.h\<close>, on the address in host order.\<close>

definition IN_LOOPBACK :: "32 word \<Rightarrow> bool" where
  "IN_LOOPBACK a \<longleftrightarrow> and a 0xff000000 = 0xff000000"

definition IN_MULTICAST :: "32 word \<Rightarrow> bool" where
  "IN_MULTICAST a \<longleftrightarrow> and a 0xf0000000 = 0xe0000000"

definition ntohl :: "bytes \<Rightarrow> 32 word" where
  "ntohl bs = word_of_nat (le_val (rev bs))"

definition is_loopback :: "bytes \<Rightarrow> bool" where
  "is_loopback a \<longleftrightarrow> (if na_family a = AF_INET6_VAL then ip6_addr a = replicate 15 NUL @ [CHR 0x01]
     else IN_LOOPBACK (ntohl (ip4_addr a)))"

definition is_multicast :: "bytes \<Rightarrow> bool" where
  "is_multicast a \<longleftrightarrow> (if na_family a = AF_INET6_VAL then slice a 8 1 = [CHR 0xFF] else IN_MULTICAST (ntohl (ip4_addr a)))"

definition is_all_broadcast :: "bytes \<Rightarrow> bool" where
  "is_all_broadcast a \<longleftrightarrow> (if na_family a = AF_INET_VAL then ip4_addr a = replicate 4 (CHR 0xFF) else False)"

section \<open>Building addresses\<close>

text \<open>What the system hands out: \<open>sockaddr_in\<close> and \<open>sockaddr_in6\<close>, with their padding.\<close>

definition sockaddr_in :: "nat \<Rightarrow> bytes \<Rightarrow> bytes" where
  "sockaddr_in port ip = le_bytes 2 AF_INET_VAL @ rev (le_bytes 2 port) @ ip @ replicate 8 NUL"

definition sockaddr_in6 :: "nat \<Rightarrow> bytes \<Rightarrow> bytes \<Rightarrow> bytes \<Rightarrow> bytes" where
  "sockaddr_in6 port flow ip scope = le_bytes 2 AF_INET6_VAL @ rev (le_bytes 2 port) @ flow @ ip @ scope"

lemma sockaddr_in:
  assumes "port < 2 ^ 16" "length ip = 4"
  shows "na_family (sockaddr_in port ip) = AF_INET_VAL" "ip4_port (sockaddr_in port ip) = Some port"
    "ip4_addr (sockaddr_in port ip) = ip" "length (sockaddr_in port ip) = SOCKADDR_IN_SIZE"
proof -
  show "na_family (sockaddr_in port ip) = AF_INET_VAL" by (simp add: na_family_def sockaddr_in_def slice_def addr_sizes)
  moreover have "slice (sockaddr_in port ip) 2 2 = rev (le_bytes 2 port)" by (simp add: sockaddr_in_def slice_def)
  ultimately show "ip4_port (sockaddr_in port ip) = Some port" using assms(1) by (simp add: ip4_port_def)
  show "ip4_addr (sockaddr_in port ip) = ip" using assms(2) by (simp add: ip4_addr_def sockaddr_in_def slice_def)
  show "length (sockaddr_in port ip) = SOCKADDR_IN_SIZE" using assms(2) by (simp add: sockaddr_in_def addr_sizes)
qed

lemma na_set_in:
  assumes "port < 2 ^ 16" "length ip = 4" "length old = SOCKADDR_IN6_SIZE" "SOCKADDR_IN_SIZE \<le> len"
  shows "na_set old (sockaddr_in port ip) len = sockaddr_in port ip @ drop SOCKADDR_IN_SIZE old"
  using sockaddr_in [OF assms(1,2)] assms(4) by (auto simp: na_set_def addr_sizes)

lemma slice_append1: "b + n \<le> length xs \<Longrightarrow> slice (xs @ ys) b n = slice xs b n"
  by (simp add: slice_def)

text \<open>
  An address of the system that is copied into the union, whatever was there before, is
  read back: family, length, port and address.
\<close>

theorem net_addr_roundtrip:
  assumes "port < 2 ^ 16" "length ip = 4" "length old = SOCKADDR_IN6_SIZE" "SOCKADDR_IN_SIZE \<le> len"
  shows "let a = na_set old (sockaddr_in port ip) len in
    na_family a = AF_INET_VAL \<and> na_length a = SOCKADDR_IN_SIZE \<and> ip_port a = Some port \<and> ip_addr a = ip \<and> length a = SOCKADDR_IN6_SIZE"
proof -
  note s = sockaddr_in [OF assms(1,2)]
  let ?a = "sockaddr_in port ip @ drop SOCKADDR_IN_SIZE old"
  have len: "length (sockaddr_in port ip) = 16" using s(4) by (simp add: addr_sizes)
  have "na_family ?a = AF_INET_VAL" "slice ?a 2 2 = slice (sockaddr_in port ip) 2 2" "ip4_addr ?a = ip"
    using s(1,3) len by (simp_all add: na_family_def ip4_addr_def slice_append1)
  moreover have "length ?a = SOCKADDR_IN6_SIZE" using s(4) assms(3) by (simp add: addr_sizes)
  ultimately show ?thesis
    using s(1,2) unfolding Let_def na_set_in [OF assms] by (simp add: na_length_def ip_port_def ip4_port_def ip_addr_def)
qed

theorem net_addr_roundtrip_witness:
  "ip_port (na_set (replicate 28 (CHR ''x'')) (sockaddr_in 443 (map char_of [127, 0, 0, 1 :: nat])) 16) = Some 443"
  using net_addr_roundtrip [of 443 "map char_of [127, 0, 0, 1 :: nat]" "replicate 28 (CHR ''x'')" 16]
  by (simp add: addr_sizes Let_def)

text \<open>
  The test for the loopback network asks for the wrong network: 127.0.0.1 is not taken for
  a loopback address and the broadcast address is.
\<close>

theorem loopback_test_wrong:
  "\<not> is_loopback (sockaddr_in port (map char_of [127, 0, 0, 1 :: nat])) \<and>
   is_loopback (sockaddr_in port (replicate 4 (CHR 0xFF))) \<and> is_all_broadcast (sockaddr_in port (replicate 4 (CHR 0xFF)))"
proof -
  have fam: "na_family (sockaddr_in port ip) = AF_INET_VAL" for ip by (simp add: na_family_def sockaddr_in_def slice_def addr_sizes)
  have ip: "ip4_addr (sockaddr_in port ip) = ip" if "length ip = 4" for ip using that by (simp add: ip4_addr_def sockaddr_in_def slice_def)
  have four: "replicate 4 x = [x, x, x, x]" for x :: char by (simp add: numeral_eq_Suc)
  have n1: "ntohl (map char_of [127, 0, 0, 1 :: nat]) = 0x7f000001" by (simp add: ntohl_def)
  have n2: "ntohl (replicate 4 (CHR 0xFF)) = 0xffffffff" unfolding four by (simp add: ntohl_def byte_val_def)
  have "\<not> is_loopback (sockaddr_in port (map char_of [127, 0, 0, 1 :: nat]))"
  proof -
    have l: "ip4_addr (sockaddr_in port (map char_of [127, 0, 0, 1 :: nat])) = map char_of [127, 0, 0, 1 :: nat]" by (rule ip) simp
    show ?thesis unfolding is_loopback_def fam l n1 by (simp add: addr_sizes IN_LOOPBACK_def)
  qed
  moreover have "is_loopback (sockaddr_in port (replicate 4 (CHR 0xFF)))"
    by (simp add: is_loopback_def fam ip addr_sizes IN_LOOPBACK_def n2)
  moreover have "is_all_broadcast (sockaddr_in port (replicate 4 (CHR 0xFF)))"
    by (simp add: is_all_broadcast_def fam ip addr_sizes)
  ultimately show ?thesis by blast
qed

end
