(* ===== verification/Flow_Report.thy ===== *)
theory Flow_Report
  imports Complex_Main Net_Addr Config
begin

text \<open>
  Counting the bytes the server sends, \<open>core/flow_grab.h\<close> and \<open>core/flow_grab.cpp\<close>, and the
  report to the dispatch server that says how much of the limits is left,
  \<open>core/codgram.h\<close> and \<open>core/codgram.cpp\<close>. The packet capture library is not in the
  repository: what its calls return is a list of outcomes. The ratios are rational numbers: the
  rounding of \<open>float\<close> is not modelled, and printing a ratio with two digits is a parameter.
\<close>

section \<open>Calls that succeed or fail\<close>

text \<open>A number of calls of which each must succeed before the next is made; they succeed when no outcome is left.\<close>

fun attempts :: "nat \<Rightarrow> bool list \<Rightarrow> bool \<times> bool list" where
  "attempts 0 oks = (True, oks)"
| "attempts (Suc n) [] = (True, [])"
| "attempts (Suc n) (b # bs) = (if b then attempts n bs else (False, bs))"

lemma attempts_nil [simp]: "attempts n [] = (True, [])"
  by (cases n) auto

section \<open>The bytes that go out\<close>

record flow_grab =
  fg_bytes :: nat
  fg_open :: bool
  fg_event :: bool

definition new_flow_grab :: flow_grab where
  "new_flow_grab = \<lparr>fg_bytes = 0, fg_open = False, fg_event = False\<rparr>"

text \<open>
  \<open>start\<close>: looking up a device when none is given, opening it, the two calls for a filter and
  the four that make the descriptor an event. A failure closes the handle. The first assertion
  fails when the handle is open already.
\<close>

definition flow_start :: "bool \<Rightarrow> bool \<Rightarrow> bool list \<Rightarrow> flow_grab \<Rightarrow> (bool \<times> flow_grab \<times> bool list) option" where
  "flow_start dev filter_given oks fg =
     (if fg_open fg then None
      else Some (case attempts (if dev then 0 else 1) oks of
          (False, r) \<Rightarrow> (False, fg, r)
        | (True, r) \<Rightarrow> (case attempts 1 r of
              (False, r) \<Rightarrow> (False, fg, r)
            | (True, r) \<Rightarrow> (case attempts ((if filter_given then 2 else 0) + 4) r of
                  (False, r) \<Rightarrow> (False, fg\<lparr>fg_open := False\<rparr>, r)
                | (True, r) \<Rightarrow> (True, fg\<lparr>fg_open := True, fg_event := True\<rparr>, r)))))"

definition flow_stop :: "flow_grab \<Rightarrow> flow_grab" where
  "flow_stop fg = (if \<not> fg_open fg then fg else fg\<lparr>fg_event := False, fg_open := False\<rparr>)"

definition get_out_flow :: "flow_grab \<Rightarrow> nat" where
  "get_out_flow fg = fg_bytes fg"

text \<open>
  A captured frame: the type of the Ethernet header, the protocol and the length of the IP
  header behind it. The length of the capture is not looked at: a frame that is too short has
  no result.
\<close>

definition ETHER_HDR :: nat where "ETHER_HDR = 14"

definition be_val :: "bytes \<Rightarrow> nat" where
  "be_val bs = le_val (rev bs)"

definition handle_packet :: "bytes \<Rightarrow> flow_grab \<Rightarrow> flow_grab option" where
  "handle_packet sp fg =
     (if length sp < ETHER_HDR then None
      else if be_val (slice sp 12 2) \<noteq> 0x0800 then Some fg
      else if length sp < ETHER_HDR + 10 then None
      else if slice sp (ETHER_HDR + 9) 1 \<noteq> [CHR 0x06] then Some fg
      else Some (fg\<lparr>fg_bytes := (fg_bytes fg + be_val (slice sp (ETHER_HDR + 2) 2)) mod 2 ^ 64\<rparr>))"

text \<open>\<open>handle_read\<close> dispatches what was captured until nothing is left.\<close>

fun flow_handle_read :: "bytes list \<Rightarrow> flow_grab \<Rightarrow> flow_grab option" where
  "flow_handle_read [] fg = Some fg"
| "flow_handle_read (sp # sps) fg = (case handle_packet sp fg of None \<Rightarrow> None | Some fg' \<Rightarrow> flow_handle_read sps fg')"

definition tcp_len :: "bytes \<Rightarrow> nat" where
  "tcp_len sp = (if be_val (slice sp 12 2) = 0x0800 \<and> slice sp (ETHER_HDR + 9) 1 = [CHR 0x06]
     then be_val (slice sp (ETHER_HDR + 2) 2) else 0)"

text \<open>
  The counter is the sum of the lengths of the TCP packets over IP that were captured,
  modulo its width, when every frame holds at least both headers up to the protocol.
\<close>

theorem out_flow_is_sum:
  assumes "\<forall>sp \<in> set sps. ETHER_HDR + 10 \<le> length sp" "fg_bytes fg < 2 ^ 64"
  shows "flow_handle_read sps fg = Some (fg\<lparr>fg_bytes := (fg_bytes fg + (\<Sum>sp\<leftarrow>sps. tcp_len sp)) mod 2 ^ 64\<rparr>)"
  using assms
proof (induction sps arbitrary: fg)
  case (Cons sp sps)
  have h: "handle_packet sp fg = Some (fg\<lparr>fg_bytes := (fg_bytes fg + tcp_len sp) mod 2 ^ 64\<rparr>)"
    using Cons(2,3) by (auto simp: handle_packet_def tcp_len_def ETHER_HDR_def)
  show ?case
    using Cons(1) [of "fg\<lparr>fg_bytes := (fg_bytes fg + tcp_len sp) mod 2 ^ 64\<rparr>"] Cons(2) h
    by (simp add: mod_add_left_eq add.assoc)
qed simp

definition tcp_frame :: bytes where
  "tcp_frame = replicate 12 NUL @ [CHR 0x08, NUL, CHR 0x45, NUL, CHR 0x01, CHR 0x2C, NUL, NUL, NUL, NUL, CHR 0x40, CHR 0x06]"

theorem out_flow_is_sum_witness:
  "flow_handle_read [tcp_frame, tcp_frame] new_flow_grab = Some (new_flow_grab\<lparr>fg_bytes := 600\<rparr>)"
proof -
  have "tcp_len tcp_frame = 300"
    by (simp add: tcp_len_def tcp_frame_def be_val_def slice_def ETHER_HDR_def drop_replicate byte_val_def)
  moreover have "ETHER_HDR + 10 \<le> length tcp_frame" by (simp add: tcp_frame_def ETHER_HDR_def)
  ultimately show ?thesis
    using out_flow_is_sum [of "[tcp_frame, tcp_frame]" new_flow_grab] by (simp add: new_flow_grab_def)
qed

section \<open>The socket to the dispatch server\<close>

record codgram =
  cg_open :: bool
  cg_rd :: bool
  cg_timer :: "int option"
  cg_last :: nat

text \<open>The constructor leaves \<open>last_out_flow_\<close> as it is in memory.\<close>

definition new_codgram :: "nat \<Rightarrow> codgram" where
  "new_codgram junk = \<lparr>cg_open = False, cg_rd = False, cg_timer = None, cg_last = junk\<rparr>"

definition codgram_open :: "bytes \<Rightarrow> int \<Rightarrow> bool list \<Rightarrow> codgram \<Rightarrow> bool \<times> codgram \<times> bool list" where
  "codgram_open remote interval oks cg =
     (if na_family remote \<noteq> AF_INET_VAL \<and> na_family remote \<noteq> AF_INET6_VAL then (False, cg, oks)
      else (case attempts 1 oks of
          (False, r) \<Rightarrow> (False, cg\<lparr>cg_open := False\<rparr>, r)
        | (True, r) \<Rightarrow> (case attempts 3 r of
              (False, r) \<Rightarrow> (False, cg\<lparr>cg_open := False\<rparr>, r)
            | (True, r) \<Rightarrow> (case attempts 2 r of
                  (False, r) \<Rightarrow> (False, cg\<lparr>cg_rd := False, cg_open := False\<rparr>, r)
                | (True, r) \<Rightarrow> (True, cg\<lparr>cg_open := True, cg_rd := True, cg_timer := Some interval\<rparr>, r)))))"

definition codgram_close :: "codgram \<Rightarrow> codgram" where
  "codgram_close cg = (if cg_open cg then cg\<lparr>cg_rd := False, cg_timer := None, cg_open := False\<rparr> else cg)"

text \<open>\<open>send\<close>: the system's result is the number of bytes or a failure; a datagram cut short fails the assertion.\<close>

definition codgram_send :: "nat option \<Rightarrow> bytes \<Rightarrow> bool option" where
  "codgram_send result data = (case result of None \<Rightarrow> Some False | Some n \<Rightarrow> if n = length data then Some True else None)"

section \<open>What is left of the limits\<close>

definition get_left_flow_ratio :: "nat \<Rightarrow> int \<Rightarrow> rat" where
  "get_left_flow_ratio now_flow limit_flow =
     (let flow_gb = now_flow div 2 ^ 30 in
      if limit_flow > 0
      then of_nat (if flow_gb \<ge> nat limit_flow then 0 else nat limit_flow - flow_gb) / of_int limit_flow
      else 1)"

text \<open>
  \<open>None\<close> where the assertion fails or the product of type \<open>int\<close> overflows. The wrapped
  difference is one less than it should be.
\<close>

definition get_left_rate_ratio :: "nat \<Rightarrow> nat \<Rightarrow> int \<Rightarrow> int \<Rightarrow> rat option" where
  "get_left_rate_ratio last_flow now_flow limit_rate time_span =
     (if \<not> time_span > 0 \<or> time_span * 1024 \<ge> 2 ^ 31 then None
      else let bytes = (if last_flow \<le> now_flow then now_flow - last_flow else (2 ^ 64 - 1) - (last_flow - now_flow));
               rate = bytes div nat (time_span * 1024)
        in Some (if limit_rate > 0
             then (if rate < nat limit_rate then of_nat (nat limit_rate - rate) / of_int limit_rate else 0)
             else 1))"

definition REPORT_BUF :: nat where "REPORT_BUF = 1024"

definition report_text :: "(rat \<Rightarrow> bytes) \<Rightarrow> config \<Rightarrow> nat \<Rightarrow> rat \<Rightarrow> rat \<Rightarrow> rat \<Rightarrow> rat \<Rightarrow> bytes" where
  "report_text fmt c conns cpu mem flow rate =
     ''{\"ip\":\"'' @ cstr (cf_pub_addr c) @ ''\",\"port\":'' @ dec_int (cf_port c) @ '',\"ssl_port\":'' @ dec_int (si_port (cf_ssl c)) @
     '',\"conns\":'' @ dec_nat conns @ '',\"cpu\":'' @ fmt cpu @ '',\"mem\":'' @ fmt mem @ '',\"left_flow\":'' @ fmt flow @
     '',\"left_rate\":'' @ fmt rate @ ''}''"

text \<open>The bytes of \<open>buf\<close> that are sent: \<open>snprintf\<close> was given one byte less than there are, and returns the full length.\<close>

definition report_buf :: "bytes \<Rightarrow> bytes option" where
  "report_buf text =
     (let ret = length text in
      if ret \<ge> REPORT_BUF then None
      else if ret < REPORT_BUF - 1 then Some text
      else Some (take (REPORT_BUF - 2) text @ [NUL]))"

text \<open>
  \<open>handle_timeout\<close>: whether connections are to be accepted, what is sent, and the new state.
\<close>

definition codgram_timeout :: "(rat \<Rightarrow> bytes) \<Rightarrow> config \<Rightarrow> nat \<Rightarrow> rat \<Rightarrow> rat \<Rightarrow> nat \<Rightarrow> nat option \<Rightarrow> codgram \<Rightarrow> (bool \<times> bytes \<times> codgram) option" where
  "codgram_timeout fmt c conns cpu mem now_flow send_result cg =
     (let ratio_flow = get_left_flow_ratio now_flow (cf_limit_flow c) in
      case get_left_rate_ratio (cg_last cg) now_flow (cf_limit_rate c) (cf_interval_report c) of
        None \<Rightarrow> None
      | Some ratio_rate \<Rightarrow>
          let cg = cg\<lparr>cg_last := now_flow\<rparr>;
              accept = \<not> (- 1 / 1000000 \<le> ratio_rate \<and> ratio_rate \<le> 1 / 1000000)
          in (case report_buf (report_text fmt c conns cpu mem ratio_flow ratio_rate) of
                None \<Rightarrow> None
              | Some data \<Rightarrow> (case codgram_send send_result data of None \<Rightarrow> None | Some _ \<Rightarrow> Some (accept, data, cg))))"

section \<open>Limits\<close>

lemma ratio_bounds:
  "0 \<le> get_left_flow_ratio f l \<and> get_left_flow_ratio f l \<le> 1"
  "get_left_rate_ratio a b l t = Some r \<Longrightarrow> 0 \<le> r \<and> r \<le> 1"
  by (auto simp: get_left_flow_ratio_def get_left_rate_ratio_def Let_def divide_le_eq_1 of_nat_diff split: if_splits)

text \<open>
  The server stops accepting connections exactly when a rate is set and the bytes sent
  since the last report reach it, for rates below a gigabyte a second.
\<close>

theorem accept_below_rate:
  assumes "codgram_timeout fmt c conns cpu mem now sr cg = Some (accept, data, cg')"
    and "cg_last cg \<le> now" "cf_limit_rate c < 1000000"
  shows "accept \<longleftrightarrow> \<not> (0 < cf_limit_rate c \<and>
     nat (cf_limit_rate c) \<le> (now - cg_last cg) div nat (cf_interval_report c * 1024))"
proof -
  let ?l = "cf_limit_rate c" and ?rate = "(now - cg_last cg) div nat (cf_interval_report c * 1024)"
  obtain q where q: "get_left_rate_ratio (cg_last cg) now ?l (cf_interval_report c) = Some q"
    and a: "accept \<longleftrightarrow> \<not> (- 1 / 1000000 \<le> q \<and> q \<le> 1 / 1000000)"
    using assms(1) by (auto simp: codgram_timeout_def Let_def split: option.splits)
  have q': "q = (if ?l > 0 then if ?rate < nat ?l then of_nat (nat ?l - ?rate) / of_int ?l else 0 else 1)"
    using q assms(2) by (simp add: get_left_rate_ratio_def Let_def split: if_splits)
  show ?thesis
  proof (cases "?l > 0 \<and> ?rate < nat ?l")
    case True
    then have q: "q = of_nat (nat ?l - ?rate) / of_int ?l" using q' by simp
    have l: "0 < (of_int ?l :: rat)" "(of_int ?l :: rat) < 1000000" using True assms(3) by simp_all
    have "?rate < nat ?l" using True by blast
    then have "1 \<le> nat ?l - ?rate" by (simp only: Suc_le_eq One_nat_def zero_less_diff)
    then have "(1 :: rat) \<le> of_nat (nat ?l - ?rate)" by (metis of_nat_1 of_nat_le_iff)
    then have "1 / 1000000 < q" using l unfolding q by (simp add: field_simps)
    then show ?thesis using True a by simp
  next
    case False
    then have "(?l > 0 \<and> q = 0) \<or> (\<not> ?l > 0 \<and> q = 1)" using q' by auto
    then show ?thesis using False a by auto
  qed
qed


theorem accept_below_rate_witness:
  "\<exists>data cg. codgram_timeout (\<lambda>_. ''0.50'') (blank_config\<lparr>cf_limit_rate := 10, cf_interval_report := 1\<rparr>) 0 0 0 20480 (Some 97) (new_codgram 0)
     = Some (False, data, cg)"
proof -
  let ?c = "blank_config\<lparr>cf_limit_rate := 10, cf_interval_report := 1\<rparr>"
  have "\<exists>a data cg. codgram_timeout (\<lambda>_. ''0.50'') ?c 0 0 0 20480 (Some 97) (new_codgram 0) = Some (a, data, cg)"
    by (auto simp: codgram_timeout_def get_left_rate_ratio_def new_codgram_def report_text_def report_buf_def codgram_send_def
        blank_config_def blank_ssl_def dec_int_def dec_nat.simps REPORT_BUF_def Let_def)
  then obtain a data cg where r: "codgram_timeout (\<lambda>_. ''0.50'') ?c 0 0 0 20480 (Some 97) (new_codgram 0) = Some (a, data, cg)" by blast
  have "\<not> a" using accept_below_rate [OF r] by (simp add: new_codgram_def)
  with r show ?thesis by auto
qed

definition zero_ini :: ini_file where
  "zero_ini = set_value_string ''time'' ''interval_report'' ''0'' sample_ini"

lemma zero_accepted:
  "fst (set_all (\<lambda>_. Some 2) zero_ini False 0 blank_config)"
  "cf_interval_report (snd (set_all (\<lambda>_. Some 2) zero_ini False 0 blank_config)) = 0"
  by code_simp+

text \<open>
  A report interval of zero is accepted as a setting, and the first report then fails the
  assertion that it is positive.
\<close>

theorem report_interval_unchecked:
  "case set_all (\<lambda>_. Some 2) zero_ini False 0 blank_config of (accepted, c) \<Rightarrow>
     accepted \<and> codgram_timeout fmt c conns cpu mem now sr cg = None"
  using zero_accepted by (simp add: case_prod_beta codgram_timeout_def get_left_rate_ratio_def Let_def)

end
