(* ===== verification/Acceptor.thy ===== *)
theory Acceptor
  imports Flow_Report "HOL-Library.Multiset"
begin

text \<open>
  Listening sockets, \<open>core/acceptor.h\<close> and \<open>core/acceptor.cpp\<close>: opening one with every way it
  can fail, and accepting connections and handing them to the workers in turn. A connection
  that was handed over is an entry of \<open>ds_given\<close>: the worker's index and the arguments of
  \<open>notify_add_conn\<close>. The text of an address is a parameter.
\<close>

section \<open>Opening and closing\<close>

record acceptor =
  ac_accept :: bool
  ac_ssl :: bool
  ac_sock :: "nat option"
  ac_event :: bool
  ac_addr :: bytes

definition new_acceptor :: "bool \<Rightarrow> acceptor" where
  "new_acceptor is_on_ssl_port = \<lparr>ac_accept = True, ac_ssl = is_on_ssl_port, ac_sock = None, ac_event = False, ac_addr = []\<rparr>"

text \<open>
  \<open>open\<close>: the socket, then the calls that make it non-blocking, bind it, listen on it and add the
  event; a failure of one of these closes it. \<open>fd\<close> is the descriptor the system will give.
\<close>

definition acceptor_open :: "nat \<Rightarrow> bytes \<Rightarrow> bool list \<Rightarrow> acceptor \<Rightarrow> bool \<times> acceptor \<times> bool list" where
  "acceptor_open fd addr oks ac =
     (if na_family addr \<noteq> AF_INET_VAL \<and> na_family addr \<noteq> AF_INET6_VAL then (False, ac, oks)
      else (case attempts 1 oks of
          (False, r) \<Rightarrow> (False, ac\<lparr>ac_sock := None\<rparr>, r)
        | (True, r) \<Rightarrow> (case attempts 5 r of
              (False, r) \<Rightarrow> (False, ac\<lparr>ac_sock := None\<rparr>, r)
            | (True, r) \<Rightarrow> (True, ac\<lparr>ac_sock := Some fd, ac_event := True, ac_addr := addr\<rparr>, r))))"

definition acceptor_close :: "acceptor \<Rightarrow> acceptor" where
  "acceptor_close ac = (if ac_sock ac \<noteq> None then ac\<lparr>ac_event := False, ac_sock := None\<rparr> else ac)"

text \<open>The constructor with an address throws when \<open>open\<close> fails: there is no object then.\<close>

definition make_acceptor :: "nat \<Rightarrow> bytes \<Rightarrow> bool \<Rightarrow> bool list \<Rightarrow> acceptor option \<times> bool list" where
  "make_acceptor fd addr is_on_ssl_port oks =
     (case acceptor_open fd addr oks (new_acceptor is_on_ssl_port) of (ok, ac, r) \<Rightarrow> (if ok then Some ac else None, r))"

definition acceptor_enable :: "bool \<Rightarrow> acceptor \<Rightarrow> acceptor" where
  "acceptor_enable is_accept ac = ac\<lparr>ac_accept := is_accept\<rparr>"

text \<open>\<open>set_on_ssl_port\<close> assigns the member to itself.\<close>

definition set_on_ssl_port :: "bool \<Rightarrow> acceptor \<Rightarrow> acceptor" where
  "set_on_ssl_port is_on_ssl_port ac = ac\<lparr>ac_ssl := ac_ssl ac\<rparr>"

definition is_on_ssl_port :: "acceptor \<Rightarrow> bool" where
  "is_on_ssl_port ac = ac_ssl ac"

section \<open>Accepting\<close>

record given =
  gv_worker :: nat
  gv_sock :: int
  gv_ip :: bytes
  gv_port :: nat
  gv_ssl :: bool

record dispatch_state =
  ds_workers :: nat
  ds_last :: int
  ds_given :: "given list"
  ds_closed :: "int list"

text \<open>
  \<open>dispatch_conn\<close>: the next worker in turn. The sum is converted to the unsigned type of the
  size; without workers the remainder has no result.
\<close>

definition dispatch_conn :: "bool \<Rightarrow> int \<Rightarrow> bytes \<Rightarrow> nat \<Rightarrow> acceptor \<Rightarrow> dispatch_state \<Rightarrow> (bool \<times> dispatch_state) option" where
  "dispatch_conn notified sock ip port ac d =
     (if ds_workers d = 0 then None
      else let index = nat ((ds_last d + 1) mod 2 ^ 64) mod ds_workers d; d = d\<lparr>ds_last := int index\<rparr> in
        if \<not> notified then Some (False, d)
        else Some (True, d\<lparr>ds_given := ds_given d @ [\<lparr>gv_worker = index, gv_sock = sock, gv_ip = ip, gv_port = port, gv_ssl = ac_ssl ac\<rparr>]\<rparr>))"

definition close_accepted :: "int \<Rightarrow> dispatch_state \<Rightarrow> dispatch_state" where
  "close_accepted sock d = d\<lparr>ds_closed := ds_closed d @ [sock]\<rparr>"

definition not_unicast :: "bytes \<Rightarrow> bool" where
  "not_unicast addr \<longleftrightarrow> is_any addr \<or> is_multicast addr \<or> is_all_broadcast addr"

text \<open>
  \<open>handle_accept\<close>: the connections that wait, each with its address, and the outcomes of the
  calls; the result has the connections that are still waiting when the loop ends.
\<close>

fun handle_accept :: "(bytes \<Rightarrow> bytes) \<Rightarrow> acceptor \<Rightarrow> (int \<times> bytes) list \<Rightarrow> bool list \<Rightarrow> dispatch_state \<Rightarrow> (dispatch_state \<times> (int \<times> bytes) list) option" where
  "handle_accept ntop ac [] oks d = Some (d, [])"
| "handle_accept ntop ac ((sock, addr) # waiting_conns) oks d =
     (case ip_port addr of
        None \<Rightarrow> None
      | Some port \<Rightarrow>
          if not_unicast addr then handle_accept ntop ac waiting_conns oks (close_accepted sock d)
          else if \<not> ac_accept ac then handle_accept ntop ac waiting_conns oks (close_accepted sock d)
          else (case attempts 1 oks of
              (False, _) \<Rightarrow> Some (close_accepted sock d, waiting_conns)
            | (True, r) \<Rightarrow> (case attempts 1 r of
                (notified, r) \<Rightarrow> (case dispatch_conn notified sock (ntop addr) port ac d of
                    None \<Rightarrow> None
                  | Some (True, d) \<Rightarrow> handle_accept ntop ac waiting_conns r d
                  | Some (False, d) \<Rightarrow> Some (close_accepted sock d, waiting_conns)))))"

section \<open>Every accepted socket has an owner\<close>

definition owned :: "dispatch_state \<Rightarrow> int list" where
  "owned d = map gv_sock (ds_given d) @ ds_closed d"

lemma dispatch_owned:
  "dispatch_conn b sock ip port ac d = Some (ok, d') \<Longrightarrow>
   ds_closed d' = ds_closed d \<and> ds_workers d' = ds_workers d \<and> map gv_sock (ds_given d') = map gv_sock (ds_given d) @ (if ok then [sock] else [])"
  by (auto simp: dispatch_conn_def Let_def split: if_splits)

text \<open>
  C14: no accepted socket is lost and none has two owners: when the accept handler ends, the
  sockets that were taken are exactly those handed to a worker and those closed.
\<close>

theorem accepted_sockets_owned:
  assumes "handle_accept ntop ac conns oks d = Some (d', left)"
  shows "\<exists>taken. conns = taken @ left \<and> mset (owned d') = mset (owned d) + mset (map fst taken)"
  using assms
proof (induction ntop ac conns oks d rule: handle_accept.induct)
  case (2 ntop ac sock addr conns oks d)
  have closed: "mset (owned (close_accepted s e)) = mset (owned e) + {#s#}" for s e
    by (simp add: owned_def close_accepted_def)
  have more: "\<exists>taken. (sock, addr) # conns = taken @ left \<and> mset (owned d') = mset (owned d) + mset (map fst taken)"
    if "\<exists>taken. conns = taken @ left \<and> mset (owned d') = mset (owned e) + mset (map fst taken)"
      "mset (owned e) = mset (owned d) + {#sock#}" for e
  proof -
    from that(1) obtain taken where "conns = taken @ left" "mset (owned d') = mset (owned e) + mset (map fst taken)" by blast
    with that(2) show ?thesis by (intro exI [of _ "(sock, addr) # taken"]) simp
  qed
  obtain port where port: "ip_port addr = Some port" using 2(4) by (cases "ip_port addr") auto
  show ?case
  proof (cases "not_unicast addr \<or> \<not> ac_accept ac")
    case True
    then have "handle_accept ntop ac conns oks (close_accepted sock d) = Some (d', left)" using 2(4) port by (auto split: if_splits)
    with True 2(1,2) port have "\<exists>taken. conns = taken @ left \<and> mset (owned d') = mset (owned (close_accepted sock d)) + mset (map fst taken)" by auto
    then show ?thesis by (rule more) (rule closed)
  next
    case False
    obtain ok1 r1 where r1: "attempts 1 oks = (ok1, r1)" by fastforce
    obtain ok2 r2 where r2: "attempts 1 r1 = (ok2, r2)" by fastforce
    show ?thesis
    proof (cases ok1)
      case no: False
      then have "d' = close_accepted sock d" "left = conns" using 2(4) port False r1 by auto
      then show ?thesis using closed by (intro exI [of _ "[(sock, addr)]"]) simp
    next
      case yes: True
      obtain ok d1 where d1: "dispatch_conn ok2 sock (ntop addr) port ac d = Some (ok, d1)"
        using 2(4) port False r1 r2 yes by (auto split: option.splits)
      note o = dispatch_owned [OF d1]
      show ?thesis
      proof (cases ok)
        case True
        then have h: "handle_accept ntop ac conns r2 d1 = Some (d', left)" using 2(4) port False r1 r2 yes d1 by auto
        have "\<exists>taken. conns = taken @ left \<and> mset (owned d') = mset (owned d1) + mset (map fst taken)"
          using 2(3) [OF port _ _ r1 [symmetric] _ r2 [symmetric] d1 _ _ h] False yes True by auto
        then show ?thesis by (rule more) (use o True in \<open>simp add: owned_def\<close>)
      next
        case no: False
        then have "d' = close_accepted sock d1" "left = conns" using 2(4) port False r1 r2 yes d1 by auto
        then show ?thesis using closed [of sock d1] o no by (intro exI [of _ "[(sock, addr)]"]) (simp add: owned_def)
      qed
    qed
  qed
qed (auto intro: exI [of _ "[]"])

definition host_addr :: "nat \<Rightarrow> bytes" where
  "host_addr n = sockaddr_in 4000 (map char_of [10, 0, 0, n :: nat])"

lemma unicast_host:
  assumes "n < 255"
  shows "ip_port (host_addr n) = Some 4000" "\<not> not_unicast (host_addr n)"
proof -
  let ?ip = "map char_of [10, 0, 0, n]"
  have len: "length ?ip = 4" by simp
  note s = sockaddr_in [where port = 4000 and ip = ?ip, OF _ len, folded host_addr_def]
  show "ip_port (host_addr n) = Some 4000" using s(1,2) by (simp add: ip_port_def)
  have four: "replicate 4 x = [x, x, x, x]" for x :: char by (simp add: numeral_eq_Suc)
  have w: "ntohl ?ip = word_of_nat (0x0A000000 + n)" using assms by (simp add: ntohl_def add.commute)
  have "and (word_of_nat (0x0A000000 + n) :: 32 word) 0xf0000000 \<noteq> 0xe0000000"
  proof
    assume a: "and (word_of_nat (0x0A000000 + n) :: 32 word) 0xf0000000 = 0xe0000000"
    have "\<not> bit (0x0A000000 + n) 31" using assms by (simp add: bit_iff_odd)
    then have "\<not> bit (word_of_nat (0x0A000000 + n) :: 32 word) 31" by (simp only: bit_of_nat_iff simp_thms)
    moreover have "bit (0xe0000000 :: 32 word) 31" by simp
    ultimately show False using a by (metis bit_and_iff)
  qed
  then have "\<not> is_multicast (host_addr n)" using s(1,3) w by (simp add: is_multicast_def addr_sizes IN_MULTICAST_def)
  moreover have ten: "char_of (10 :: nat) \<noteq> NUL" "char_of (10 :: nat) \<noteq> CHR 0xFF" by code_simp+
  have "\<not> is_any (host_addr n)" "\<not> is_all_broadcast (host_addr n)"
    using s(1,3) ten by (simp_all add: is_any_def is_all_broadcast_def addr_sizes four)
  ultimately show "\<not> not_unicast (host_addr n)" by (simp add: not_unicast_def)
qed

definition two_workers :: dispatch_state where
  "two_workers = \<lparr>ds_workers = 2, ds_last = -1, ds_given = [], ds_closed = []\<rparr>"



theorem accepted_sockets_owned_witness:
  "\<exists>d'. handle_accept (\<lambda>_. ''10.0.0.1'') (new_acceptor False) [(4, host_addr 1), (5, host_addr 2)] [True, False] two_workers = Some (d', [(5, host_addr 2)]) \<and>
     mset (owned d') = {#4#}"
proof -
  have "\<exists>d'. handle_accept (\<lambda>_. ''10.0.0.1'') (new_acceptor False) [(4, host_addr 1), (5, host_addr 2)] [True, False] two_workers = Some (d', [(5, host_addr 2)])"
    using unicast_host [of 1] by (simp add: new_acceptor_def dispatch_conn_def two_workers_def Let_def)
  then obtain d' where d': "handle_accept (\<lambda>_. ''10.0.0.1'') (new_acceptor False) [(4, host_addr 1), (5, host_addr 2)] [True, False] two_workers =
      Some (d', [(5, host_addr 2)])" by blast
  from accepted_sockets_owned [OF this] show ?thesis using d' by (auto simp: two_workers_def owned_def)
qed

end
