(* ===== verification/Proc_Stat.thy ===== *)
theory Proc_Stat
  imports Complex_Main CLib
begin

text \<open>
  Reading the statistics of the system and of a process, \<open>base/proc_stat.h\<close> and
  \<open>base/proc_stat.cpp\<close>. The contents of the files are parameters, and so are the two numbers with
  fractions of the file for the uptime. The ratios are rational numbers.
\<close>

section \<open>Files and conversions\<close>

text \<open>\<open>file2str\<close>: one read into a buffer of the given size, which is ended with NUL.\<close>

definition file2str :: "bytes option \<Rightarrow> nat \<Rightarrow> bytes option" where
  "file2str file len = (case file of None \<Rightarrow> None
     | Some t \<Rightarrow> let b = take (len - 1) t in if b = [] then None else Some (cstr b))"

text \<open>The conversions of \<open>sscanf\<close> that are used; each skips white space first.\<close>

datatype conv = C_d | C_u | C_lu | C_ld | C_Lu

fun conv_value :: "conv \<Rightarrow> bytes \<Rightarrow> int" where
  "conv_value C_d s = signed_take_bit 31 (fst (c_strtol 10 s))"
| "conv_value C_u s = int (fst (c_strtoul 10 s)) mod 2 ^ 32"
| "conv_value C_lu s = int (fst (c_strtoul 10 s))"
| "conv_value C_ld s = fst (c_strtol 10 s)"
| "conv_value C_Lu s = int (fst (c_strtoul 10 s))"

fun sscan :: "conv list \<Rightarrow> bytes \<Rightarrow> int list" where
  "sscan [] s = []"
| "sscan (c # cs) s = (case scan_int 10 s of None \<Rightarrow> [] | Some (neg, m, e) \<Rightarrow> conv_value c s # sscan cs (drop e s))"

section \<open>The system\<close>

record cpu_counters =
  cc_user :: nat
  cc_nice :: nat
  cc_sys :: nat
  cc_idle :: nat
  cc_wait :: nat
  cc_hirq :: nat
  cc_sirq :: nat

text \<open>The members without and with the prefix \<open>old_\<close>.\<close>

record sys_cpu_time =
  sc_now :: cpu_counters
  sc_old :: cpu_counters

record sys_mem_info =
  main_total :: nat
  main_free :: nat
  main_used :: nat
  main_buffers :: nat
  main_cached :: nat
  swap_total :: nat
  swap_free :: nat
  swap_used :: nat
  swap_cached :: nat

record system_stat =
  ss_ct :: sys_cpu_time
  ss_mi :: sys_mem_info
  ss_ut :: "rat \<times> rat"

definition no_counters :: cpu_counters where
  "no_counters = \<lparr>cc_user = 0, cc_nice = 0, cc_sys = 0, cc_idle = 0, cc_wait = 0, cc_hirq = 0, cc_sirq = 0\<rparr>"

definition no_mem :: sys_mem_info where
  "no_mem = \<lparr>main_total = 0, main_free = 0, main_used = 0, main_buffers = 0, main_cached = 0, swap_total = 0, swap_free = 0,
     swap_used = 0, swap_cached = 0\<rparr>"

definition zero_stat :: system_stat where
  "zero_stat = \<lparr>ss_ct = \<lparr>sc_now = no_counters, sc_old = no_counters\<rparr>, ss_mi = no_mem, ss_ut = (0, 0)\<rparr>"

text \<open>\<open>sscanf\<close> of the first line: the literal \<open>cpu\<close>, then seven numbers, those it found being stored.\<close>

definition read_cpu :: "bytes \<Rightarrow> cpu_counters \<Rightarrow> bool \<times> cpu_counters" where
  "read_cpu buf c =
     (let vs = (if take 3 buf = ''cpu'' then sscan (replicate 7 C_Lu) (drop 3 buf) else []);
          val = (\<lambda>i d. if i < length vs then nat (vs ! i) else d)
      in (length vs = 7, \<lparr>cc_user = val 0 (cc_user c), cc_nice = val 1 (cc_nice c), cc_sys = val 2 (cc_sys c), cc_idle = val 3 (cc_idle c),
           cc_wait = val 4 (cc_wait c), cc_hirq = val 5 (cc_hirq c), cc_sirq = val 6 (cc_sirq c)\<rparr>))"

text \<open>The table, in which \<open>bsearch\<close> looks a name up: the name has to be one of the seven.\<close>

definition mem_table :: "(bytes \<times> (nat \<Rightarrow> sys_mem_info \<Rightarrow> sys_mem_info)) list" where
  "mem_table = [(''Buffers'', \<lambda>v m. m\<lparr>main_buffers := v\<rparr>), (''Cached'', \<lambda>v m. m\<lparr>main_cached := v\<rparr>),
     (''MemFree'', \<lambda>v m. m\<lparr>main_free := v\<rparr>), (''MemTotal'', \<lambda>v m. m\<lparr>main_total := v\<rparr>),
     (''SwapCached'', \<lambda>v m. m\<lparr>swap_cached := v\<rparr>), (''SwapFree'', \<lambda>v m. m\<lparr>swap_free := v\<rparr>),
     (''SwapTotal'', \<lambda>v m. m\<lparr>swap_total := v\<rparr>)]"

definition set_entry :: "bytes \<Rightarrow> nat \<Rightarrow> sys_mem_info \<Rightarrow> sys_mem_info" where
  "set_entry name v m = (case map_of mem_table name of None \<Rightarrow> m | Some f \<Rightarrow> f v m)"

text \<open>The loop over the lines: the name up to a colon, the number behind it, on to the next line.\<close>

function meminfo_loop :: "bytes \<Rightarrow> sys_mem_info \<Rightarrow> sys_mem_info" where
  "meminfo_loop s m = (case dropWhile (\<lambda>c. c \<noteq> CHR '':'') s of
      [] \<Rightarrow> m
    | _ # r \<Rightarrow> (case dropWhile (\<lambda>c. c \<noteq> LF) r of
          [] \<Rightarrow> m
        | _ # t \<Rightarrow> meminfo_loop t (set_entry (takeWhile (\<lambda>c. c \<noteq> CHR '':'') s) (fst (c_strtoul 10 r)) m)))"
  by pat_completeness auto
termination
proof (relation "measure (\<lambda>(s, _). length s)")
  fix s r t :: bytes and m :: sys_mem_info and c d
  assume "dropWhile (\<lambda>c. c \<noteq> CHR '':'') s = c # r" "dropWhile (\<lambda>c. c \<noteq> LF) r = d # t"
  then have "length (c # r) \<le> length s" "length (d # t) \<le> length r"
    by (metis length_dropWhile_le)+
  then show "((t, set_entry (takeWhile (\<lambda>c. c \<noteq> CHR '':'') s) (fst (c_strtoul 10 r)) m), s, m) \<in> measure (\<lambda>(s, _). length s)" by simp
qed simp

declare meminfo_loop.simps [simp del]

definition read_meminfo :: "bytes \<Rightarrow> sys_mem_info \<Rightarrow> sys_mem_info" where
  "read_meminfo buf m = (let m = meminfo_loop buf m
     in m\<lparr>main_used := (main_total m + 2 ^ 64 - main_free m) mod 2 ^ 64, swap_used := (swap_total m + 2 ^ 64 - swap_free m) mod 2 ^ 64\<rparr>)"

text \<open>The three files, \<open>fs_uptime\<close> already converted.\<close>

record proc_files =
  fs_stat :: "bytes option"
  fs_meminfo :: "bytes option"
  fs_uptime :: "(rat \<times> rat) option"

definition BUF_LEN :: nat where "BUF_LEN = 2048"
definition PROC_STAT :: "32 word" where "PROC_STAT = 1"
definition PROC_MEM :: "32 word" where "PROC_MEM = 2"
definition PROC_UPTIME :: "32 word" where "PROC_UPTIME = 4"

text \<open>No result when the assertion on the flags fails.\<close>

definition get_system_stat :: "proc_files \<Rightarrow> 32 word \<Rightarrow> system_stat \<Rightarrow> (bool \<times> system_stat) option" where
  "get_system_stat fs flag ss =
     (if and flag (or PROC_STAT (or PROC_MEM PROC_UPTIME)) = 0 then None
      else Some (case (if and flag PROC_STAT \<noteq> 0
             then (case file2str (fs_stat fs) BUF_LEN of
                 None \<Rightarrow> (False, ss)
               | Some buf \<Rightarrow> (case read_cpu buf (sc_now (ss_ct ss)) of (ok, c) \<Rightarrow> (ok, ss\<lparr>ss_ct := (ss_ct ss)\<lparr>sc_now := c\<rparr>\<rparr>)))
             else (True, ss)) of
          (False, ss) \<Rightarrow> (False, ss)
        | (True, ss) \<Rightarrow> (case (if and flag PROC_UPTIME \<noteq> 0
               then (case fs_uptime fs of None \<Rightarrow> (False, ss) | Some u \<Rightarrow> (True, ss\<lparr>ss_ut := u\<rparr>))
               else (True, ss)) of
            (False, ss) \<Rightarrow> (False, ss)
          | (True, ss) \<Rightarrow> (if and flag PROC_MEM \<noteq> 0
               then (case file2str (fs_meminfo fs) BUF_LEN of
                   None \<Rightarrow> (False, ss)
                 | Some buf \<Rightarrow> (True, ss\<lparr>ss_mi := read_meminfo buf (ss_mi ss)\<rparr>))
               else (True, ss)))))"

text \<open>The differences are taken as \<open>long long\<close>.\<close>

definition delta :: "nat \<Rightarrow> nat \<Rightarrow> int" where
  "delta now old = signed_take_bit 63 (int now - int old)"

definition cpu_usage :: "sys_cpu_time \<Rightarrow> rat" where
  "cpu_usage ct =
     (let d = (\<lambda>f. delta (f (sc_now ct)) (f (sc_old ct)));
          idle = (if d cc_idle < 0 then 0 else d cc_idle);
          sum = d cc_user + d cc_nice + d cc_sys + idle + d cc_wait + d cc_hirq + d cc_sirq;
          sum = (if sum < 1 then 1 else sum)
      in 100 * of_int (sum - idle) / of_int sum)"

definition mem_usage :: "sys_mem_info \<Rightarrow> rat" where
  "mem_usage m = 100 * of_nat (main_used m) / of_nat (main_total m)"

text \<open>The statistics are kept from call to call.\<close>

definition get_system_usage :: "proc_files \<Rightarrow> system_stat \<Rightarrow> ((rat \<times> rat) option \<times> system_stat) option" where
  "get_system_usage fs ss = (case get_system_stat fs (or PROC_MEM PROC_STAT) ss of
      None \<Rightarrow> None
    | Some (False, ss) \<Rightarrow> Some (None, ss)
    | Some (True, ss) \<Rightarrow> Some (Some (cpu_usage (ss_ct ss), mem_usage (ss_mi ss)), ss\<lparr>ss_ct := (ss_ct ss)\<lparr>sc_old := sc_now (ss_ct ss)\<rparr>\<rparr>))"

section \<open>A process\<close>

text \<open>The name, the state and the twenty-one numbers behind it, in the order of the structure.\<close>

record process_stat =
  ps_name :: bytes
  ps_state :: char
  ps_nums :: "int list"

definition PS_NAME_SIZE :: nat where "PS_NAME_SIZE = 16"
definition NAME_SIZE :: nat where "NAME_SIZE = 64"

definition ps_convs :: "conv list" where
  "ps_convs = replicate 5 C_d @ [C_u] @ replicate 6 C_lu @ replicate 6 C_ld @ [C_Lu, C_lu, C_ld]"

text \<open>
  The bound of the name is the size of a local array of 64 bytes, not that of the member, which
  has 16: \<open>None\<close> for a longer name, which is written over the members behind it, and for a text that
  ends at the parenthesis, behind which the conversions then begin.
\<close>

definition get_process_stat :: "bytes option \<Rightarrow> (bool \<times> process_stat) option" where
  "get_process_stat file = (case file2str file 1024 of
      None \<Rightarrow> Some (False, \<lparr>ps_name = [], ps_state = NUL, ps_nums = []\<rparr>)
    | Some buf \<Rightarrow> (case dropWhile (\<lambda>c. c \<noteq> CHR ''('') buf of
        [] \<Rightarrow> Some (False, \<lparr>ps_name = [], ps_state = NUL, ps_nums = []\<rparr>)
      | _ # beg \<Rightarrow> (case dropWhile (\<lambda>c. c \<noteq> CHR '')'') beg of
          [] \<Rightarrow> Some (False, \<lparr>ps_name = [], ps_state = NUL, ps_nums = []\<rparr>)
        | e \<Rightarrow>
            (let num = length beg - length e; num = (if num \<ge> NAME_SIZE then NAME_SIZE - 1 else num) in
             if num \<ge> PS_NAME_SIZE \<or> length e < 2 then None
             else (case drop 2 e of
                 [] \<Rightarrow> Some (False, \<lparr>ps_name = take num beg, ps_state = NUL, ps_nums = []\<rparr>)
               | c # r \<Rightarrow> let vs = sscan ps_convs r in Some (length vs = 21, \<lparr>ps_name = take num beg, ps_state = c, ps_nums = vs\<rparr>))))))"

text \<open>The fields that are used: \<open>utime\<close>, \<open>stime\<close>, \<open>starttime\<close> and \<open>rss\<close>.\<close>

definition get_process_usage :: "proc_files \<Rightarrow> bytes option \<Rightarrow> nat \<Rightarrow> nat \<Rightarrow> system_stat \<Rightarrow> (rat \<times> rat \<times> nat) option option" where
  "get_process_usage fs file hz page_kb ss =
     (case get_system_stat fs (or PROC_MEM PROC_UPTIME) ss of
        None \<Rightarrow> None
      | Some (False, ss) \<Rightarrow> Some None
      | Some (True, ss) \<Rightarrow> (case get_process_stat file of
          None \<Rightarrow> None
        | Some (False, ps) \<Rightarrow> Some None
        | Some (True, ps) \<Rightarrow>
            (let pct = nat ((ps_nums ps ! 10 + ps_nums ps ! 11) mod 2 ^ 64);
                 upt = nat ((\<lfloor>fst (ss_ut ss)\<rfloor> - ps_nums ps ! 18 div int hz) mod 2 ^ 64);
                 cpu = (if upt \<noteq> 0 then (100 * of_nat pct / of_nat hz) / of_nat upt else 0);
                 mem = 100 * of_int (ps_nums ps ! 20) * of_nat page_kb / of_nat (main_total (ss_mi ss))
             in Some (Some (cpu, mem, upt)))))"

section \<open>Texts the system writes\<close>

lemma scan_int_space: "scan_int 10 (SP # s) = map_option (\<lambda>(neg, m, e). (neg, m, Suc e)) (scan_int 10 s)"
proof -
  have "c_isspace SP" by (simp add: c_isspace_def)
  moreover have "length (dropWhile c_isspace s) \<le> length s" by (rule length_dropWhile_le)
  ultimately show ?thesis
    by (auto simp: scan_int_def Let_def Suc_diff_le split: list.splits)
qed

lemma scan_int_dec_int:
  assumes "r = [] \<or> \<not> is_digit_of 10 (hd r)"
  shows "scan_int 10 (dec_int v @ r) = Some (v < 0, nat \<bar>v\<bar>, length (dec_int v))"
proof (cases "v < 0")
  case False
  then show ?thesis using scan_int_dec_nat [OF assms] by (simp add: dec_int_def)
next
  case True
  have d: "takeWhile (is_digit_of 10) (dec_nat (nat (- v)) @ r) = dec_nat (nat (- v))" by (rule takeWhile_digits_dec_nat [OF assms])
  have "\<not> c_isspace (CHR ''-'')" by (simp add: c_isspace_def byte_val_def)
  then show ?thesis using True d by (simp add: dec_int_def scan_int_def Let_def)
qed

text \<open>A number that fits the conversion is read back.\<close>

definition conv_fits :: "conv \<Rightarrow> int \<Rightarrow> bool" where
  "conv_fits c v \<longleftrightarrow> (case c of
     C_d \<Rightarrow> - (2 ^ 31) \<le> v \<and> v < 2 ^ 31
   | C_u \<Rightarrow> 0 \<le> v \<and> v < 2 ^ 32
   | C_ld \<Rightarrow> - (2 ^ 63) \<le> v \<and> v < 2 ^ 63
   | _ \<Rightarrow> 0 \<le> v \<and> v < 2 ^ 64)"

definition num_text :: "int list \<Rightarrow> bytes" where
  "num_text vs = concat (map (\<lambda>v. SP # dec_int v) vs)"

lemma conv_value_dec:
  assumes "conv_fits c v" "r = [] \<or> \<not> is_digit_of 10 (hd r)"
  shows "conv_value c (SP # dec_int v @ r) = v"
proof -
  have sc: "scan_int 10 (SP # dec_int v @ r) = Some (v < 0, nat \<bar>v\<bar>, Suc (length (dec_int v)))"
    using scan_int_dec_int [OF assms(2)] by (simp add: scan_int_space)
  have l: "- (2 ^ 63) \<le> v \<Longrightarrow> v < 2 ^ 63 \<Longrightarrow> fst (c_strtol 10 (SP # dec_int v @ r)) = v"
    by (simp add: c_strtol_def sc LONG_MAX_def LONG_MIN_def Let_def)
  have u: "0 \<le> v \<Longrightarrow> v < 2 ^ 64 \<Longrightarrow> int (fst (c_strtoul 10 (SP # dec_int v @ r))) = v"
    by (auto simp: c_strtoul_def sc ULONG_MAX_def)
  have "signed_take_bit 31 v = v" if "- (2 ^ 31) \<le> v" "v < 2 ^ 31"
    using that by (simp add: signed_take_bit_int_eq_self)
  then show ?thesis using assms(1) l u by (cases c) (simp_all add: conv_fits_def)
qed

lemma sscan_num_text:
  assumes "list_all2 conv_fits cs vs" "r = [] \<or> \<not> is_digit_of 10 (hd r)"
  shows "sscan cs (num_text vs @ r) = vs"
  using assms(1)
proof (induction rule: list_all2_induct)
  case (Cons c cs v vs)
  have sp: "\<not> is_digit_of 10 SP" by (simp add: is_digit_of_def digit_val_def byte_val_def Let_def)
  have r: "num_text vs @ r = [] \<or> \<not> is_digit_of 10 (hd (num_text vs @ r))"
    using assms(2) sp by (cases vs) (simp_all add: num_text_def)
  have t: "num_text (v # vs) @ r = SP # dec_int v @ num_text vs @ r" by (simp add: num_text_def)
  show ?case unfolding t using Cons conv_value_dec [OF Cons(1) r] scan_int_dec_int [OF r, of v] by (simp add: scan_int_space)
qed (simp add: num_text_def)

definition stat_text :: "bytes \<Rightarrow> bytes \<Rightarrow> char \<Rightarrow> int list \<Rightarrow> bytes" where
  "stat_text pid name st nums = pid @ ''('' @ name @ '') '' @ [st] @ num_text nums @ [LF]"

lemma file2str_whole:
  assumes "length t < len" "t \<noteq> []" "NUL \<notin> set t"
  shows "file2str (Some t) len = Some t"
  using assms by (simp add: file2str_def)

lemma cut_at:
  assumes "c \<notin> set a"
  shows "dropWhile (\<lambda>x. x \<noteq> c) (a @ c # b) = c # b" "takeWhile (\<lambda>x. x \<noteq> c) (a @ c # b) = a"
  using assms by (induction a) auto

lemma get_process_stat_text:
  assumes "CHR ''('' \<notin> set pid" "CHR '')'' \<notin> set name" "length name < NAME_SIZE" "list_all2 conv_fits ps_convs nums"
    and "NUL \<notin> set (stat_text pid name st nums)" "length (stat_text pid name st nums) < 1024"
  shows "get_process_stat (Some (stat_text pid name st nums)) =
    (if length name < PS_NAME_SIZE then Some (True, \<lparr>ps_name = name, ps_state = st, ps_nums = nums\<rparr>) else None)"
proof -
  have t: "stat_text pid name st nums = pid @ CHR ''('' # name @ CHR '')'' # SP # st # num_text nums @ [LF]" by (simp add: stat_text_def)
  have f: "file2str (Some (stat_text pid name st nums)) 1024 = Some (stat_text pid name st nums)"
    by (rule file2str_whole [OF assms(6) _ assms(5)]) (simp add: stat_text_def)
  have nl: "\<not> is_digit_of 10 LF" by (simp add: is_digit_of_def digit_val_def byte_val_def Let_def)
  have n: "sscan ps_convs (num_text nums @ [LF]) = nums" "length nums = 21"
    using sscan_num_text [OF assms(4), of "[LF]"] nl list_all2_lengthD [OF assms(4)] by (simp_all add: ps_convs_def)
  show ?thesis using assms(3) n unfolding get_process_stat_def f by (simp add: t cut_at assms(1,2) Let_def)
qed

text \<open>What the system writes about a process is read back, when its name has no closing parenthesis and less than 16 characters.\<close>

theorem process_stat_read:
  assumes "CHR ''('' \<notin> set pid" "CHR '')'' \<notin> set name" "length name < PS_NAME_SIZE" "list_all2 conv_fits ps_convs nums"
    and "NUL \<notin> set (stat_text pid name st nums)" "length (stat_text pid name st nums) < 1024"
  shows "get_process_stat (Some (stat_text pid name st nums)) = Some (True, \<lparr>ps_name = name, ps_state = st, ps_nums = nums\<rparr>)"
  using get_process_stat_text [OF assms(1,2) _ assms(4-6)] assms(3) by (simp add: NAME_SIZE_def PS_NAME_SIZE_def)

text \<open>A longer name is written over the members behind it.\<close>

theorem long_process_name_overruns:
  assumes "CHR ''('' \<notin> set pid" "CHR '')'' \<notin> set name" "PS_NAME_SIZE \<le> length name" "length name < NAME_SIZE" "list_all2 conv_fits ps_convs nums"
    and "NUL \<notin> set (stat_text pid name st nums)" "length (stat_text pid name st nums) < 1024"
  shows "get_process_stat (Some (stat_text pid name st nums)) = None"
  using get_process_stat_text [OF assms(1,2,4-7)] assms(3) by simp

lemma zeros_fit: "list_all2 conv_fits ps_convs (replicate 21 0)"
  by (simp add: ps_convs_def conv_fits_def numeral_eq_Suc)

lemma dec_zero: "dec_int 0 = ''0''"
  by (simp add: dec_int_def dec_nat.simps digit_char_def char_of_def) code_simp

theorem process_stat_read_witness:
  "get_process_stat (Some (stat_text ''7 '' ''nti_proxy'' (CHR ''S'') (replicate 21 0)))
     = Some (True, \<lparr>ps_name = ''nti_proxy'', ps_state = CHR ''S'', ps_nums = replicate 21 0\<rparr>)"
  by (rule process_stat_read [OF _ _ _ zeros_fit]) (simp_all add: PS_NAME_SIZE_def stat_text_def num_text_def dec_zero length_concat sum_list_replicate)

theorem long_process_name_overruns_witness:
  "get_process_stat (Some (stat_text ''7 '' ''kworker/u16:2-events_power'' (CHR ''S'') (replicate 21 0))) = None"
  by (rule long_process_name_overruns [OF _ _ _ _ zeros_fit]) (simp_all add: PS_NAME_SIZE_def NAME_SIZE_def stat_text_def num_text_def dec_zero length_concat sum_list_replicate)

section \<open>Usage\<close>

definition counters :: "cpu_counters \<Rightarrow> nat list" where
  "counters c = [cc_user c, cc_nice c, cc_sys c, cc_idle c, cc_wait c, cc_hirq c, cc_sirq c]"

text \<open>While no counter goes back the usage is a percentage.\<close>

theorem cpu_usage_percentage:
  assumes "list_all2 (\<lambda>old now. old \<le> now \<and> now < 2 ^ 63) (counters (sc_old ct)) (counters (sc_now ct))"
  shows "0 \<le> cpu_usage ct \<and> cpu_usage ct \<le> 100"
proof -
  have d: "old \<le> now \<Longrightarrow> now < 2 ^ 63 \<Longrightarrow> delta now old = int now - int old" for old now :: nat
    unfolding delta_def by (rule signed_take_bit_int_eq_self) auto
  have pct: "0 \<le> 100 * of_int ((if s < 1 then 1 else s) - i) / (of_int (if s < 1 then 1 else s) :: rat) \<and>
      100 * of_int ((if s < 1 then 1 else s) - i) / (of_int (if s < 1 then 1 else s) :: rat) \<le> 100" if "0 \<le> i" "i \<le> s" for s i :: int
    using that by (auto simp: field_simps)
  let ?d = "\<lambda>f. delta (f (sc_now ct)) (f (sc_old ct))"
  have "0 \<le> ?d cc_user" "0 \<le> ?d cc_nice" "0 \<le> ?d cc_sys" "0 \<le> ?d cc_idle" "0 \<le> ?d cc_wait" "0 \<le> ?d cc_hirq" "0 \<le> ?d cc_sirq"
    using assms by (simp_all add: counters_def d)
  moreover from this have "(if ?d cc_idle < 0 then 0 else ?d cc_idle) = ?d cc_idle" by simp
  ultimately show ?thesis unfolding cpu_usage_def Let_def by (simp only:) (rule pct, simp_all)
qed

text \<open>The counter of waiting may go back; then it is not.\<close>

lemma cpu_usage_negative:
  "cpu_usage \<lparr>sc_now = no_counters\<lparr>cc_idle := 10, cc_wait := 5\<rparr>, sc_old = no_counters\<lparr>cc_wait := 10\<rparr>\<rparr> = - 100"
  by (simp add: cpu_usage_def no_counters_def delta_def Let_def)

theorem cpu_usage_percentage_witness:
  "cpu_usage \<lparr>sc_now = no_counters\<lparr>cc_idle := 30, cc_user := 10\<rparr>, sc_old = no_counters\<rparr> \<le> 100"
  using cpu_usage_percentage [of "\<lparr>sc_now = no_counters\<lparr>cc_idle := 30, cc_user := 10\<rparr>, sc_old = no_counters\<rparr>"]
  by (simp add: counters_def no_counters_def)

text \<open>When no time has gone by since the last call the load is full.\<close>

lemma cpu_usage_no_time: "cpu_usage \<lparr>sc_now = c, sc_old = c\<rparr> = 100"
  by (simp add: cpu_usage_def delta_def Let_def)

section \<open>Memory\<close>

text \<open>The lines of the file: a name, a number and a unit.\<close>

definition mem_line :: "bytes \<times> nat \<Rightarrow> bytes" where
  "mem_line nv = fst nv @ '': '' @ dec_nat (snd nv) @ '' kB'' @ [LF]"

lemma meminfo_line:
  assumes "CHR '':'' \<notin> set name" "v \<le> ULONG_MAX"
  shows "meminfo_loop (mem_line (name, v) @ t) m = meminfo_loop t (set_entry name v m)"
proof -
  have sp: "\<not> is_digit_of 10 SP" by (simp add: is_digit_of_def digit_val_def byte_val_def Let_def)
  have lf: "LF \<notin> set (SP # dec_nat v @ '' kB'')"
    using dec_nat_is_digit [of LF v] by (auto simp: is_digit_of_def digit_val_def byte_val_def Let_def)
  have l: "mem_line (name, v) @ t = name @ CHR '':'' # (SP # dec_nat v @ '' kB'') @ LF # t" by (simp add: mem_line_def)
  have n: "fst (c_strtoul 10 ((SP # dec_nat v @ '' kB'') @ LF # t)) = v"
    using scan_int_dec_nat [of "'' kB'' @ LF # t" v] sp assms(2) by (simp add: c_strtoul_def scan_int_space)
  show ?thesis
    by (subst meminfo_loop.simps) (simp only: l cut_at [OF assms(1)] cut_at [OF lf] list.case n)
qed

theorem meminfo_read:
  assumes "\<forall>(name, v) \<in> set ls. CHR '':'' \<notin> set name \<and> v \<le> ULONG_MAX"
  shows "meminfo_loop (concat (map mem_line ls)) m = foldl (\<lambda>m (name, v). set_entry name v m) m ls"
  using assms
proof (induction ls arbitrary: m)
  case Nil
  then show ?case by (simp add: meminfo_loop.simps)
next
  case (Cons l ls)
  obtain name v where l: "l = (name, v)" by (cases l)
  then show ?case using Cons meminfo_line [of name v "concat (map mem_line ls)" m] by simp
qed

theorem meminfo_read_witness:
  "main_total (meminfo_loop (concat (map mem_line [(''MemTotal'', 8000), (''MemFree'', 20)])) no_mem) = 8000"
  using meminfo_read [of "[(''MemTotal'', 8000), (''MemFree'', 20)]" no_mem]
  by (simp add: ULONG_MAX_def set_entry_def mem_table_def)

end
