(* ===== verification/Ssl_Lib.thy ===== *)
theory Ssl_Lib
  imports Prelude CLib
begin

text \<open>
  What \<open>core/ssl.cpp\<close> does around the TLS library: the text of its errors, and the locks it asks for.
  The errors the library has and the number of its locks are parameters.
\<close>

section \<open>The text of the errors\<close>

definition ERRSTR_SIZE :: nat where "ERRSTR_SIZE = 1024"

definition store :: "nat \<Rightarrow> bytes \<Rightarrow> bytes \<Rightarrow> bytes" where
  "store p bs buf = take p buf @ bs @ drop (p + length bs) buf"

text \<open>\<open>ERR_error_string_n\<close>: the text cut to the size, with its terminator; nothing for no room.\<close>

definition put_error :: "bytes \<Rightarrow> nat \<Rightarrow> bytes \<Rightarrow> bytes" where
  "put_error e p buf = (let n = length buf - p in if n = 0 then buf else store p (take (n - 1) e @ [NUL]) buf)"

definition scan_end :: "bytes \<Rightarrow> nat \<Rightarrow> nat" where
  "scan_end buf p = p + length (takeWhile (\<lambda>c. c \<noteq> NUL) (drop p buf))"

fun error_loop :: "bytes list \<Rightarrow> bytes \<Rightarrow> nat \<Rightarrow> bytes" where
  "error_loop [] buf p = buf"
| "error_loop (e # es) buf p =
     (if p \<ge> length buf then error_loop es buf p
      else let buf = put_error e (Suc p) (store p [SP] buf) in error_loop es buf (scan_end buf (Suc p)))"

definition ERR_HEAD :: bytes where "ERR_HEAD = ''(SSL:''"

text \<open>The string that is logged; no result when the buffer has no terminator.\<close>

definition ssl_error :: "bytes list \<Rightarrow> bytes option" where
  "ssl_error es = (let buf = error_loop es (ERR_HEAD @ replicate (ERRSTR_SIZE - length ERR_HEAD) NUL) (length ERR_HEAD) in
     if NUL \<in> set buf then Some (takeWhile (\<lambda>c. c \<noteq> NUL) buf @ '')'') else None)"

definition ssl_clear_error :: "bytes list \<Rightarrow> bytes option option" where
  "ssl_clear_error es = (if es = [] then None else Some (ssl_error es))"

section \<open>Locks\<close>

text \<open>Whether each lock is held; \<open>None\<close> before the set-up and when it failed.\<close>

record ssl_locks =
  sl_lock :: "bool list option"
  sl_callbacks :: bool

definition CRYPTO_LOCK :: "32 word" where "CRYPTO_LOCK = 1"

definition no_locks :: ssl_locks where
  "no_locks = \<lparr>sl_lock = None, sl_callbacks = False\<rparr>"

definition ssl_thread_setup :: "nat \<Rightarrow> bool \<Rightarrow> ssl_locks \<Rightarrow> bool \<times> ssl_locks" where
  "ssl_thread_setup num alloc sl = (if \<not> alloc then (False, sl\<lparr>sl_lock := None\<rparr>)
     else (True, \<lparr>sl_lock = Some (replicate num False), sl_callbacks = True\<rparr>))"

text \<open>Cleaning up leaves the pointer to the array that was freed.\<close>

definition ssl_thread_cleanup :: "ssl_locks \<Rightarrow> ssl_locks" where
  "ssl_thread_cleanup sl = (if sl_lock sl = None then sl else sl\<lparr>sl_callbacks := False\<rparr>)"

text \<open>The call-back: the thread waits, so has no result yet, while the lock is held.\<close>

definition pthreads_locking_callback :: "32 word \<Rightarrow> nat \<Rightarrow> ssl_locks \<Rightarrow> ssl_locks option" where
  "pthreads_locking_callback mode type sl = (case sl_lock sl of
      None \<Rightarrow> None
    | Some ls \<Rightarrow> if type \<ge> length ls then None
        else if and mode CRYPTO_LOCK \<noteq> 0 then (if ls ! type then None else Some (sl\<lparr>sl_lock := Some (ls[type := True])\<rparr>))
        else Some (sl\<lparr>sl_lock := Some (ls[type := False])\<rparr>))"

section \<open>When the text is terminated\<close>

text \<open>What the errors take in the buffer: a space and the text for each.\<close>

definition error_texts :: "bytes list \<Rightarrow> bytes" where
  "error_texts es = concat (map (\<lambda>e. SP # e) es)"

lemma takeWhile_text: "NUL \<notin> set u \<Longrightarrow> takeWhile (\<lambda>c. c \<noteq> NUL) (u @ NUL # z) = u"
  by (subst takeWhile_append2) auto

lemma scan_end_text: "NUL \<notin> set u \<Longrightarrow> scan_end (t @ u @ NUL # z) (length t) = length t + length u"
  by (simp add: scan_end_def takeWhile_text)

text \<open>One error: there is room for some of it, or the terminator goes and the buffer is full.\<close>

lemma error_step:
  assumes "NUL \<notin> set e" "z \<noteq> []"
  shows "\<exists>z'. error_loop (e # es) (t @ NUL # z) (length t) =
      error_loop es ((t @ SP # take (length z - 1) e) @ NUL # z') (length (t @ SP # take (length z - 1) e)) \<and>
    length z' = length z - 1 - length (take (length z - 1) e)"
proof -
  let ?u = "take (length z - 1) e"
  let ?z = "drop (Suc (length ?u)) z"
  have "store (length t) [SP] (t @ NUL # z) = (t @ [SP]) @ z" by (simp add: store_def)
  moreover have "put_error e (length (t @ [SP])) ((t @ [SP]) @ z) = (t @ [SP]) @ ?u @ NUL # ?z"
    using assms(2) unfolding put_error_def store_def by (simp add: Let_def)
  moreover have "NUL \<notin> set ?u" using assms(1) by (meson in_set_takeD)
  then have "scan_end ((t @ [SP]) @ ?u @ NUL # ?z) (length (t @ [SP])) = length (t @ SP # ?u)"
    by (subst scan_end_text) simp_all
  ultimately show ?thesis using assms(2) by (intro exI [of _ ?z]) (simp add: Let_def)
qed

lemma error_full: "length buf \<le> p \<Longrightarrow> error_loop es buf p = buf"
  by (induction es) auto

lemma error_last: "error_loop (e # es) (t @ [NUL]) (length t) = t @ [SP]"
  by (simp add: store_def put_error_def Let_def error_full scan_end_def)

lemma error_loop_fits:
  assumes "\<forall>e \<in> set es. NUL \<notin> set e" "length (error_texts es) \<le> length z"
  shows "\<exists>z'. error_loop es (t @ NUL # z) (length t) = t @ error_texts es @ NUL # z'"
  using assms
proof (induction es arbitrary: t z)
  case (Cons e es)
  have z: "z \<noteq> []" "length e \<le> length z - 1" using Cons.prems(2) by (auto simp: error_texts_def)
  have "NUL \<notin> set e" using Cons.prems(1) by simp
  from error_step [OF this z(1), of es t] z(2) obtain z' where
    step: "error_loop (e # es) (t @ NUL # z) (length t) = error_loop es ((t @ SP # e) @ NUL # z') (length (t @ SP # e))"
    and len: "length z' = length z - 1 - length e" by auto
  have "\<exists>z''. error_loop es ((t @ SP # e) @ NUL # z') (length (t @ SP # e)) = (t @ SP # e) @ error_texts es @ NUL # z''"
    by (rule Cons.IH) (use Cons.prems len in \<open>auto simp: error_texts_def\<close>)
  then show ?case using step by (simp add: error_texts_def)
qed (simp add: error_texts_def)

lemma error_loop_full:
  assumes "\<forall>e \<in> set (es1 @ e # es2). NUL \<notin> set e" "length z \<le> length (error_texts es1)" "NUL \<notin> set t"
  shows "NUL \<notin> set (error_loop (es1 @ e # es2) (t @ NUL # z) (length t))"
  using assms
proof (induction es1 arbitrary: t z)
  case Nil
  then show ?case using error_last [of e es2 t] by (simp add: error_texts_def del: error_loop.simps)
next
  case (Cons e1 es1)
  show ?case
  proof (cases "z = []")
    case True
    then show ?thesis using error_last [of e1 "es1 @ e # es2" t] Cons.prems(3) by (simp del: error_loop.simps)
  next
    case False
    let ?t = "t @ SP # take (length z - 1) e1"
    have e1: "NUL \<notin> set e1" using Cons.prems(1) by simp
    from error_step [OF this False, of "es1 @ e # es2" t] obtain z' where
      step: "error_loop (e1 # es1 @ e # es2) (t @ NUL # z) (length t) = error_loop (es1 @ e # es2) (?t @ NUL # z') (length ?t)"
      and len: "length z' = length z - 1 - length (take (length z - 1) e1)" by blast
    have "NUL \<notin> set (error_loop (es1 @ e # es2) (?t @ NUL # z') (length ?t))"
      by (rule Cons.IH) (use Cons.prems len e1 in \<open>auto simp: error_texts_def dest: in_set_takeD\<close>)
    then show ?thesis using step by simp
  qed
qed

lemma error_head: "ERR_HEAD @ replicate (ERRSTR_SIZE - length ERR_HEAD) NUL = ERR_HEAD @ NUL # replicate 1018 NUL" "NUL \<notin> set ERR_HEAD"
  by (simp_all add: ERRSTR_SIZE_def ERR_HEAD_def flip: replicate_Suc)

lemma ssl_error_fits:
  assumes "\<forall>e \<in> set es. NUL \<notin> set e" "length (error_texts es) \<le> 1018"
  shows "ssl_error es = Some (ERR_HEAD @ error_texts es @ '')'')"
proof -
  obtain z' where z': "error_loop es (ERR_HEAD @ NUL # replicate 1018 NUL) (length ERR_HEAD) = (ERR_HEAD @ error_texts es) @ NUL # z'"
    using error_loop_fits [OF assms(1), of "replicate 1018 NUL" ERR_HEAD] assms(2) by auto
  have "NUL \<notin> set (ERR_HEAD @ error_texts es)" using assms(1) error_head(2) by (auto simp: error_texts_def)
  from takeWhile_text [OF this, of z'] show ?thesis
    unfolding ssl_error_def error_head(1) z' by (simp del: append_assoc add: Let_def)
qed

text \<open>
  C26: once the texts have filled the buffer, one more error overwrites the terminator: the string
  that is logged then has no end.
\<close>

theorem ssl_error_unterminated:
  assumes "\<forall>e \<in> set (es1 @ e # es2). NUL \<notin> set e" "1018 \<le> length (error_texts es1)"
  shows "ssl_error (es1 @ e # es2) = None"
proof -
  have "NUL \<notin> set (error_loop (es1 @ e # es2) (ERR_HEAD @ NUL # replicate 1018 NUL) (length ERR_HEAD))"
    by (rule error_loop_full [OF assms(1)]) (use assms(2) error_head(2) in simp_all)
  then show ?thesis unfolding ssl_error_def error_head(1) by (simp add: Let_def)
qed

theorem ssl_error_unterminated_witness:
  "ssl_error [replicate 1017 (CHR ''e''), ''x''] = None"
  using ssl_error_unterminated [of "[replicate 1017 (CHR ''e'')]" "''x''" "[]"] by (simp add: error_texts_def)

section \<open>Locks are held once\<close>

text \<open>A lock that is taken cannot be taken again before it is given back.\<close>

lemma lock_exclusive:
  assumes "pthreads_locking_callback CRYPTO_LOCK k sl = Some sl'"
  shows "pthreads_locking_callback CRYPTO_LOCK k sl' = None"
    and "\<exists>sl''. pthreads_locking_callback 0 k sl' = Some sl'' \<and> pthreads_locking_callback CRYPTO_LOCK k sl'' \<noteq> None"
  using assms by (auto simp: pthreads_locking_callback_def CRYPTO_LOCK_def split: option.splits if_splits)

end
