(* ===== verification/Mem_Pool.thy ===== *)
theory Mem_Pool
  imports Prelude "HOL-Library.Multiset"
begin

text \<open>
  The memory pools of \<open>mem/basic_pool\<close>, \<open>mem/smart_pool\<close> and \<open>mem/mem_pool\<close>. Memory is a set of
  addresses; a free list is the list of the addresses of its nodes. \<open>malloc\<close> of the system is a
  parameter: the ranges it has given and not got back, and a size, determine its answer.
\<close>

section \<open>The basic pool\<close>

type_synonym range = "nat \<times> nat"
type_synonym sys_malloc = "range list \<Rightarrow> nat \<Rightarrow> nat option"

definition ALIGNMENT :: nat where "ALIGNMENT = 16"
definition MAX_CHUNK_SIZE :: nat where "MAX_CHUNK_SIZE = 16 * 1024"
definition NODE_NUM :: nat where "NODE_NUM = 16"
definition CHUNK_NUM :: nat where "CHUNK_NUM = MAX_CHUNK_SIZE div ALIGNMENT"

text \<open>The three words of a \<open>heap_node\<close>.\<close>

definition HEAP_NODE_SIZE :: nat where "HEAP_NODE_SIZE = 24"

lemmas pool_sizes = ALIGNMENT_def MAX_CHUNK_SIZE_def NODE_NUM_def CHUNK_NUM_def HEAP_NODE_SIZE_def

text \<open>\<open>bp_heap\<close> has the nodes of the list of heaps: where the node is, the memory and its size.\<close>

record pool =
  bp_free :: "nat \<Rightarrow> nat list"
  bp_heap :: "(nat \<times> nat \<times> nat) list"
  bp_start :: nat
  bp_end :: nat
  bp_given :: "range list"

definition new_pool :: pool where
  "new_pool = \<lparr>bp_free = (\<lambda>_. []), bp_heap = [], bp_start = 0, bp_end = 0, bp_given = []\<rparr>"

definition round_up :: "nat \<Rightarrow> nat" where
  "round_up n = (n + ALIGNMENT - 1) div ALIGNMENT * ALIGNMENT"

definition chunk_index :: "nat \<Rightarrow> nat option" where
  "chunk_index n = (if n = 0 \<or> n > MAX_CHUNK_SIZE then None else Some ((n - 1) div ALIGNMENT))"

text \<open>\<open>Fault\<close>: an assertion fails or a null pointer is written through.\<close>

datatype 'a outcome = Done 'a | Fault | No_fuel

text \<open>What is left between the two ends goes to the list of its size.\<close>

definition put_rest :: "pool \<Rightarrow> pool option" where
  "put_rest p = (let left_bytes = bp_end p - bp_start p in
     if left_bytes = 0 then Some p
     else if left_bytes mod ALIGNMENT \<noteq> 0 then None
     else (case chunk_index left_bytes of None \<Rightarrow> None
       | Some i \<Rightarrow> Some (p\<lparr>bp_free := (bp_free p)(i := bp_start p # bp_free p i)\<rparr>)))"

text \<open>The loop for a larger node when the system has no memory.\<close>

function take_larger :: "nat \<Rightarrow> pool \<Rightarrow> pool option" where
  "take_larger n p = (if n > MAX_CHUNK_SIZE then None
     else (case bp_free p ((n - 1) div ALIGNMENT) of
         [] \<Rightarrow> take_larger (n + ALIGNMENT) p
       | a # as \<Rightarrow> Some (p\<lparr>bp_free := (bp_free p)((n - 1) div ALIGNMENT := as), bp_start := a, bp_end := a + n\<rparr>)))"
  by pat_completeness auto
termination
  by (relation "measure (\<lambda>(n, _). MAX_CHUNK_SIZE + 1 - n)") (auto simp: pool_sizes)

declare take_larger.simps [simp del]

text \<open>
  The four functions call each other: memory from the system is entered in the list of heaps,
  whose node comes from the pool. The fuel is the depth to which \<open>chunk_alloc\<close> is entered again.
\<close>

function (sequential) chunk_alloc :: "nat \<Rightarrow> sys_malloc \<Rightarrow> nat \<Rightarrow> nat \<Rightarrow> pool \<Rightarrow> (nat option \<times> nat \<times> pool) outcome"
  and add_heap :: "nat \<Rightarrow> sys_malloc \<Rightarrow> nat \<Rightarrow> nat \<Rightarrow> pool \<Rightarrow> pool outcome"
  and pool_allocate :: "nat \<Rightarrow> sys_malloc \<Rightarrow> nat \<Rightarrow> pool \<Rightarrow> (nat option \<times> pool) outcome"
  and refill :: "nat \<Rightarrow> sys_malloc \<Rightarrow> nat \<Rightarrow> nat \<Rightarrow> pool \<Rightarrow> (nat option \<times> pool) outcome" where
  "chunk_alloc 0 m n num p = No_fuel"
| "chunk_alloc (Suc k) m n num p =
     (let left_bytes = bp_end p - bp_start p; total_bytes = n * num in
      if total_bytes \<le> left_bytes then Done (Some (bp_start p), num, p\<lparr>bp_start := bp_start p + total_bytes\<rparr>)
      else if n \<le> left_bytes then let num = left_bytes div n in Done (Some (bp_start p), num, p\<lparr>bp_start := bp_start p + num * n\<rparr>)
      else (case put_rest p of
          None \<Rightarrow> Fault
        | Some p \<Rightarrow> (case m (bp_given p) (total_bytes * 2) of
              None \<Rightarrow> (case take_larger (n + ALIGNMENT) (p\<lparr>bp_start := 0\<rparr>) of
                  None \<Rightarrow> Done (None, num, p\<lparr>bp_start := 0, bp_end := 0\<rparr>)
                | Some p \<Rightarrow> chunk_alloc k m n num p)
            | Some a \<Rightarrow> (case add_heap k m a (total_bytes * 2)
                  (p\<lparr>bp_start := a, bp_end := a + total_bytes * 2, bp_given := (a, total_bytes * 2) # bp_given p\<rparr>) of
                  Done p \<Rightarrow> chunk_alloc k m n num p
                | Fault \<Rightarrow> Fault
                | No_fuel \<Rightarrow> No_fuel))))"
| "add_heap k m mem n p = (case pool_allocate k m HEAP_NODE_SIZE p of
      Done (Some a, p) \<Rightarrow> Done (p\<lparr>bp_heap := (a, mem, n) # bp_heap p\<rparr>)
    | Done (None, p) \<Rightarrow> Fault
    | Fault \<Rightarrow> Fault
    | No_fuel \<Rightarrow> No_fuel)"
| "pool_allocate k m n p =
     (if n = 0 then Fault
      else if n \<le> MAX_CHUNK_SIZE then (case bp_free p ((n - 1) div ALIGNMENT) of
          [] \<Rightarrow> refill k m ((n - 1) div ALIGNMENT) (round_up n) p
        | a # as \<Rightarrow> Done (Some a, p\<lparr>bp_free := (bp_free p)((n - 1) div ALIGNMENT := as)\<rparr>))
      else (case m (bp_given p) n of
          None \<Rightarrow> Done (None, p)
        | Some a \<Rightarrow> Done (Some a, p\<lparr>bp_given := (a, n) # bp_given p\<rparr>)))"
| "refill k m i n p =
     (if bp_free p i \<noteq> [] then Fault
      else (case chunk_alloc k m n NODE_NUM p of
          Done (c, num, p) \<Rightarrow>
            if num = 0 then Fault
            else if num = 1 then Done (c, p)
            else (case c of None \<Rightarrow> Fault
              | Some a \<Rightarrow> Done (Some a, p\<lparr>bp_free := (bp_free p)(i := map (\<lambda>j. a + j * n) [1..<num])\<rparr>))
        | Fault \<Rightarrow> Fault
        | No_fuel \<Rightarrow> No_fuel))"
  by pat_completeness auto
termination
  by (relation "measure (case_sum (case_sum (\<lambda>(k, _). 4 * k) (\<lambda>(k, _). 4 * k + 3)) (case_sum (\<lambda>(k, _). 4 * k + 2) (\<lambda>(k, _). 4 * k + 1)))") auto

declare chunk_alloc.simps(2) [simp del] pool_allocate.simps [simp del] refill.simps [simp del] add_heap.simps [simp del]

section \<open>Who has which byte\<close>

text \<open>How many of a list of ranges an address is in, and how many of the ranges the pool has for itself.\<close>

definition in_range :: "range \<Rightarrow> nat \<Rightarrow> nat" where
  "in_range r x = (case r of (a, n) \<Rightarrow> if a \<le> x \<and> x < a + n then 1 else 0)"

definition hits :: "range list \<Rightarrow> nat \<Rightarrow> nat" where
  "hits rs x = sum_list (map (\<lambda>r. in_range r x) rs)"

definition class_ranges :: "nat \<Rightarrow> nat list \<Rightarrow> range list" where
  "class_ranges i as = map (\<lambda>a. (a, 16 * Suc i)) as"

definition free_hits :: "(nat \<Rightarrow> nat list) \<Rightarrow> nat \<Rightarrow> nat" where
  "free_hits f x = (\<Sum>i < 1024. hits (class_ranges i (f i)) x)"

definition heap_ranges :: "(nat \<times> nat \<times> nat) list \<Rightarrow> range list" where
  "heap_ranges hs = map (\<lambda>h. (fst h, 32)) hs"

definition cover :: "pool \<Rightarrow> nat \<Rightarrow> nat" where
  "cover p x = free_hits (bp_free p) x + in_range (bp_start p, bp_end p - bp_start p) x + hits (heap_ranges (bp_heap p)) x"

lemma hits_simps [simp]:
  "hits [] x = 0" "hits (r # rs) x = in_range r x + hits rs x" "hits (rs @ ts) x = hits rs x + hits ts x"
  by (simp_all add: hits_def)

lemma in_range_split: "in_range (a, n + k) x = in_range (a, n) x + in_range (a + n, k) x"
  by (auto simp: in_range_def)

lemma in_range_empty [simp]: "in_range (a, 0) x = 0"
  by (simp add: in_range_def)

lemma in_range_cut:
  assumes "n \<le> k"
  shows "in_range (a, k) x = in_range (a, n) x + in_range (a + n, k - n) x"
  using in_range_split [of a n "k - n" x] assms by simp

text \<open>A new list for one class.\<close>

lemma free_hits_upd:
  assumes "i < 1024"
  shows "free_hits (f(i := as)) x + hits (class_ranges i (f i)) x = free_hits f x + hits (class_ranges i as) x"
proof -
  have split: "free_hits g x = hits (class_ranges i (g i)) x + (\<Sum>j \<in> {..<1024} - {i}. hits (class_ranges j (g j)) x)" for g
    unfolding free_hits_def using assms by (subst sum.remove [of _ i]) auto
  have "(\<Sum>j \<in> {..<1024} - {i}. hits (class_ranges j ((f(i := as)) j)) x) = (\<Sum>j \<in> {..<1024} - {i}. hits (class_ranges j (f j)) x)"
    by (rule sum.cong) auto
  then show ?thesis using split [of f] split [of "f(i := as)"] by simp
qed

text \<open>A block of \<open>num\<close> nodes is its first node and the others.\<close>

lemma nodes_hits: "in_range (a, n * Suc k) x = in_range (a, n) x + hits (map (\<lambda>j. (a + j * n, n)) [1..<Suc k]) x"
proof (induction k)
  case (Suc k)
  have "in_range (a, n * Suc (Suc k)) x = in_range (a, n * Suc k) x + in_range (a + n * Suc k, n) x"
    using in_range_split [of a "n * Suc k" n x] by (simp add: add.commute mult.commute)
  also have "\<dots> = in_range (a, n) x + hits (map (\<lambda>j. (a + j * n, n)) [1..<Suc (Suc k)]) x"
    by (subst Suc.IH) (simp add: mult.commute)
  finally show ?case .
qed simp

lemma class_index:
  assumes "0 < n" "n \<le> MAX_CHUNK_SIZE"
  shows "(n - 1) div ALIGNMENT < 1024" "round_up n = 16 * Suc ((n - 1) div ALIGNMENT)" "n \<le> round_up n"
proof -
  obtain k where k: "n = Suc k" using assms(1) by (cases n) auto
  have "(16 + k) div 16 = Suc (k div 16)" by simp
  then show r: "round_up n = 16 * Suc ((n - 1) div ALIGNMENT)" by (simp add: k round_up_def ALIGNMENT_def)
  have "k = 16 * (k div 16) + k mod 16" "k mod 16 < 16" by simp_all
  then show "n \<le> round_up n" unfolding r by (simp add: k ALIGNMENT_def)
  show "(n - 1) div ALIGNMENT < 1024" using assms(2) by (simp add: k pool_sizes less_mult_imp_div_less)
qed

section \<open>Nothing is given away twice\<close>

definition region_ok :: "pool \<Rightarrow> bool" where
  "region_ok p \<longleftrightarrow> bp_start p \<le> bp_end p \<and> 16 dvd (bp_end p - bp_start p)"

text \<open>
  \<open>pays p q r\<close>: from \<open>p\<close> to \<open>q\<close> the pool has given away \<open>r\<close>: what it has, with \<open>r\<close>, is no more than
  what it had and what it got from the system.
\<close>

definition pays :: "pool \<Rightarrow> pool \<Rightarrow> range \<Rightarrow> bool" where
  "pays p q r \<longleftrightarrow> (\<forall>x. cover q x + in_range r x + hits (bp_given p) x \<le> cover p x + hits (bp_given q) x)"

text \<open>\<open>fresh_malloc\<close>: memory the system gives is in no range it has given before.\<close>

definition fresh_malloc :: "sys_malloc \<Rightarrow> bool" where
  "fresh_malloc m \<longleftrightarrow> (\<forall>given n a. m given n = Some a \<longrightarrow> 0 < a \<and> (\<forall>x. a \<le> x \<and> x < a + n \<longrightarrow> hits given x = 0))"

definition memory_out :: "sys_malloc \<Rightarrow> bool" where
  "memory_out m \<longleftrightarrow> (\<exists>given n. m given n = None)"

definition given_once :: "pool \<Rightarrow> bool" where
  "given_once p \<longleftrightarrow> (\<forall>x. hits (bp_given p) x \<le> 1)"

lemma given_once_more:
  assumes "fresh_malloc m" "m (bp_given p) n = Some a" "given_once p"
  shows "hits ((a, n) # bp_given p) x \<le> 1"
  using assms by (auto simp: fresh_malloc_def given_once_def in_range_def)

lemma pays_trans:
  assumes "pays p q (a, 0)" "pays q r b"
  shows "pays p r b"
  unfolding pays_def
proof
  fix x
  have "cover q x + hits (bp_given p) x \<le> cover p x + hits (bp_given q) x"
    and "cover r x + in_range b x + hits (bp_given q) x \<le> cover q x + hits (bp_given r) x"
    using assms by (simp_all add: pays_def)
  then show "cover r x + in_range b x + hits (bp_given p) x \<le> cover p x + hits (bp_given r) x" by linarith
qed

lemma put_rest_ok:
  assumes "region_ok p" "bp_end p - bp_start p < n" "n \<le> MAX_CHUNK_SIZE"
  shows "\<exists>f. put_rest p = Some (p\<lparr>bp_free := f\<rparr>) \<and>
    (\<forall>x. free_hits f x = free_hits (bp_free p) x + in_range (bp_start p, bp_end p - bp_start p) x) \<and>
    (\<forall>i. bp_free p i \<noteq> [] \<longrightarrow> f i \<noteq> [])"
proof (cases "bp_end p - bp_start p = 0")
  case True
  then show ?thesis by (intro exI [of _ "bp_free p"]) (simp add: put_rest_def)
next
  case False
  let ?l = "bp_end p - bp_start p"
  let ?i = "(?l - 1) div ALIGNMENT"
  have l: "0 < ?l" "?l \<le> MAX_CHUNK_SIZE" "16 dvd ?l" using False assms by (auto simp: region_ok_def)
  note i = class_index [OF l(1,2)]
  have "round_up ?l = ?l" using l(3) by (auto simp: round_up_def pool_sizes elim!: dvdE)
  then have r: "16 * Suc ?i = ?l" using i(2) by metis
  let ?f = "(bp_free p)(?i := bp_start p # bp_free p ?i)"
  have put: "put_rest p = Some (p\<lparr>bp_free := ?f\<rparr>)"
    using l False by (simp add: put_rest_def chunk_index_def ALIGNMENT_def dvd_imp_mod_0 Let_def)
  have "free_hits ?f x = free_hits (bp_free p) x + in_range (bp_start p, ?l) x" for x
    using free_hits_upd [OF i(1), of "bp_free p" "bp_start p # bp_free p ?i" x] r by (simp add: class_ranges_def)
  with put show ?thesis by (intro exI [of _ ?f]) simp
qed

lemma take_larger_ok:
  assumes "take_larger n p = Some q" "n = 16 * Suc k"
  shows "\<exists>f a j. q = p\<lparr>bp_free := f, bp_start := a, bp_end := a + 16 * Suc j\<rparr> \<and> k \<le> j \<and> j < 1024 \<and>
    (\<forall>x. free_hits f x + in_range (a, 16 * Suc j) x = free_hits (bp_free p) x)"
  using assms
proof (induction n p arbitrary: k rule: take_larger.induct)
  case (1 n p)
  have n: "n \<le> MAX_CHUNK_SIZE" using 1(2) by (simp add: take_larger.simps split: if_splits)
  have k: "(n - 1) div ALIGNMENT = k" "k < 1024" using 1(3) n by (simp_all add: pool_sizes)
  show ?case
  proof (cases "bp_free p k")
    case Nil
    then have "take_larger (n + ALIGNMENT) p = Some q" using 1(2) n k by (simp add: take_larger.simps [of n p])
    from 1(1) [OF _ _ this, of "Suc k"] n k Nil 1(3) show ?thesis by (fastforce simp: ALIGNMENT_def)
  next
    case (Cons a as)
    let ?f = "(bp_free p)(k := as)"
    have "q = p\<lparr>bp_free := ?f, bp_start := a, bp_end := a + n\<rparr>" using 1(2) n k Cons by (simp add: take_larger.simps [of n p])
    then have q: "q = p\<lparr>bp_free := ?f, bp_start := a, bp_end := a + 16 * Suc k\<rparr>" using 1(3) by simp
    have "free_hits ?f x + in_range (a, 16 * Suc k) x = free_hits (bp_free p) x" for x
      using free_hits_upd [OF k(2), of "bp_free p" as x] Cons by (simp add: class_ranges_def)
    then show ?thesis using q k by blast
  qed
qed

definition good :: "pool \<Rightarrow> bool" where
  "good p \<longleftrightarrow> region_ok p \<and> given_once p"

definition chunk_spec :: "sys_malloc \<Rightarrow> nat \<Rightarrow> pool \<Rightarrow> (nat option \<times> nat \<times> pool) outcome \<Rightarrow> bool" where
  "chunk_spec m n p r \<longleftrightarrow> (case r of
      Done (Some a, num, q) \<Rightarrow> 0 < num \<and> good q \<and> pays p q (a, n * num)
    | Done (None, num, q) \<Rightarrow> num = NODE_NUM \<and> memory_out m
    | Fault \<Rightarrow> memory_out m
    | No_fuel \<Rightarrow> True)"

definition alloc_spec :: "sys_malloc \<Rightarrow> nat \<Rightarrow> pool \<Rightarrow> (nat option \<times> pool) outcome \<Rightarrow> bool" where
  "alloc_spec m n p r \<longleftrightarrow> (case r of
      Done (Some a, q) \<Rightarrow> good q \<and> pays p q (a, n)
    | Done (None, q) \<Rightarrow> memory_out m
    | Fault \<Rightarrow> memory_out m
    | No_fuel \<Rightarrow> True)"

lemma refill_spec:
  assumes "\<And>p. good p \<Longrightarrow> chunk_spec m (16 * Suc i) p (chunk_alloc k m (16 * Suc i) NODE_NUM p)"
    and "good p" "bp_free p i = []" "i < 1024"
  shows "alloc_spec m (16 * Suc i) p (refill k m i (16 * Suc i) p)"
proof (cases "chunk_alloc k m (16 * Suc i) NODE_NUM p")
  case (Done r)
  obtain c num q where r: "r = (c, num, q)" by (metis surj_pair)
  show ?thesis
  proof (cases c)
    case None
    then show ?thesis using assms(1) [OF assms(2)] assms(3) Done r
      by (auto simp: chunk_spec_def alloc_spec_def refill.simps NODE_NUM_def)
  next
    case (Some a)
    have sp: "0 < num" "good q" "pays p q (a, 16 * Suc i * num)"
      using assms(1) [OF assms(2)] Done r Some by (simp_all add: chunk_spec_def)
    let ?f = "(bp_free q)(i := map (\<lambda>j. a + j * (16 * Suc i)) [1..<num])"
    let ?q = "q\<lparr>bp_free := ?f\<rparr>"
    obtain t where t: "num = Suc t" using sp(1) by (cases num) auto
    have "pays p ?q (a, 16 * Suc i)"
      unfolding pays_def
    proof
      fix x
      have "hits (class_ranges i (map (\<lambda>j. a + j * (16 * Suc i)) [1..<num])) x + in_range (a, 16 * Suc i) x = in_range (a, 16 * Suc i * num) x"
        using nodes_hits [of a "16 * Suc i" t x] by (simp add: class_ranges_def t comp_def del: upt_Suc)
      moreover have "cover ?q x + hits (class_ranges i (bp_free q i)) x = cover q x + hits (class_ranges i (map (\<lambda>j. a + j * (16 * Suc i)) [1..<num])) x"
        using free_hits_upd [OF assms(4), of "bp_free q" "map (\<lambda>j. a + j * (16 * Suc i)) [1..<num]" x] by (simp add: cover_def del: upt_Suc)
      ultimately show "cover ?q x + in_range (a, 16 * Suc i) x + hits (bp_given p) x \<le> cover p x + hits (bp_given ?q) x"
        using sp(3) [unfolded pays_def, rule_format, of x] by simp
    qed
    moreover have "good ?q" using sp(2) by (simp add: good_def region_ok_def given_once_def)
    moreover have "pays p q (a, 16 * Suc i)" if "num = 1" using sp(3) that by simp
    ultimately show ?thesis using sp Done r Some assms(3) by (simp add: refill.simps alloc_spec_def t del: upt_Suc)
  qed
qed (use assms(1) [OF assms(2)] assms(3) in \<open>simp_all add: chunk_spec_def alloc_spec_def refill.simps\<close>)

lemma allocate_spec:
  assumes "\<And>p i. good p \<Longrightarrow> i < 1024 \<Longrightarrow> chunk_spec m (16 * Suc i) p (chunk_alloc k m (16 * Suc i) NODE_NUM p)"
    and "good p" "0 < n" "n \<le> MAX_CHUNK_SIZE"
  shows "alloc_spec m (round_up n) p (pool_allocate k m n p)"
proof -
  let ?i = "(n - 1) div ALIGNMENT"
  note i = class_index [OF assms(3,4)]
  show ?thesis
  proof (cases "bp_free p ?i")
    case Nil
    then have "pool_allocate k m n p = refill k m ?i (16 * Suc ?i) p" using assms(3,4) i(2) by (simp add: pool_allocate.simps)
    then show ?thesis using refill_spec [OF assms(1) assms(2) Nil i(1)] i by metis
  next
    case (Cons a as)
    let ?q = "p\<lparr>bp_free := (bp_free p)(?i := as)\<rparr>"
    have "pays p ?q (a, round_up n)" unfolding pays_def
    proof
      fix x
      show "cover ?q x + in_range (a, round_up n) x + hits (bp_given p) x \<le> cover p x + hits (bp_given ?q) x"
        using free_hits_upd [OF i(1), of "bp_free p" as x] Cons i(2) by (simp add: cover_def class_ranges_def)
    qed
    moreover have "good ?q" using assms(2) by (simp add: good_def region_ok_def given_once_def)
    ultimately show ?thesis using Cons assms(3,4) by (simp add: alloc_spec_def pool_allocate.simps)
  qed
qed

lemma add_heap_spec:
  assumes "\<And>p i. good p \<Longrightarrow> i < 1024 \<Longrightarrow> chunk_spec m (16 * Suc i) p (chunk_alloc k m (16 * Suc i) NODE_NUM p)"
    and "good p"
  shows "case add_heap k m mem n p of Done q \<Rightarrow> good q \<and> pays p q (0, 0) | Fault \<Rightarrow> memory_out m | No_fuel \<Rightarrow> True"
proof -
  have "alloc_spec m 32 p (pool_allocate k m HEAP_NODE_SIZE p)"
    using allocate_spec [OF assms, of HEAP_NODE_SIZE] by (simp add: pool_sizes round_up_def)
  then show ?thesis
    by (cases "pool_allocate k m HEAP_NODE_SIZE p")
      (auto simp: alloc_spec_def add_heap.simps pays_def cover_def heap_ranges_def good_def region_ok_def given_once_def algebra_simps
        split: option.splits)
qed

text \<open>The two ways without asking the system: as many nodes as there is room for.\<close>

lemma good_advance:
  "good p \<Longrightarrow> t \<le> bp_end p - bp_start p \<Longrightarrow> 16 dvd t \<Longrightarrow> good (p\<lparr>bp_start := bp_start p + t\<rparr>)"
  unfolding good_def region_ok_def given_once_def by (auto simp: dvd_diff_nat diff_diff_left [symmetric] simp del: diff_diff_left)

lemma chunk_direct_run:
  assumes "n \<le> bp_end p - bp_start p" "0 < n"
  obtains num where "0 < num" "num \<le> NODE_NUM" "n * num \<le> bp_end p - bp_start p"
    "chunk_alloc (Suc k) m n NODE_NUM p = Done (Some (bp_start p), num, p\<lparr>bp_start := bp_start p + n * num\<rparr>)"
    "n * NODE_NUM \<le> bp_end p - bp_start p \<Longrightarrow> num = NODE_NUM"
proof -
  let ?l = "bp_end p - bp_start p"
  let ?num = "if n * NODE_NUM \<le> ?l then NODE_NUM else ?l div n"
  have "0 < ?num" using assms by (simp add: NODE_NUM_def div_greater_zero_iff)
  moreover have "?num \<le> NODE_NUM" using less_mult_imp_div_less [of ?l NODE_NUM n] by (auto simp: mult.commute not_le)
  moreover have "n * ?num \<le> ?l" by simp
  moreover have "chunk_alloc (Suc k) m n NODE_NUM p = Done (Some (bp_start p), ?num, p\<lparr>bp_start := bp_start p + n * ?num\<rparr>)"
    using assms by (simp add: chunk_alloc.simps(2) Let_def mult.commute)
  ultimately show thesis by (rule that) simp
qed

lemma chunk_direct:
  assumes "good p" "n \<le> bp_end p - bp_start p" "n = 16 * Suc i"
  shows "chunk_spec m n p (chunk_alloc (Suc k) m n NODE_NUM p)"
proof -
  let ?l = "bp_end p - bp_start p"
  have "0 < n" using assms(3) by simp
  from assms(2) this obtain num where num: "0 < num" "n * num \<le> ?l"
    and run: "chunk_alloc (Suc k) m n NODE_NUM p = Done (Some (bp_start p), num, p\<lparr>bp_start := bp_start p + n * num\<rparr>)"
    by (rule chunk_direct_run)
  let ?q = "p\<lparr>bp_start := bp_start p + n * num\<rparr>"
  have left: "bp_end p - (bp_start p + n * num) = ?l - n * num" by simp
  have "cover ?q x + in_range (bp_start p, n * num) x = cover p x" for x
    using in_range_cut [OF num(2), of "bp_start p" x] unfolding cover_def by (simp only: left pool.simps) simp
  then have "pays p ?q (bp_start p, n * num)" unfolding pays_def by simp
  moreover have "16 dvd n * num" using assms(3) by simp
  then have "good ?q" using good_advance [OF assms(1) num(2)] by blast
  ultimately show ?thesis using num(1) unfolding run chunk_spec_def by simp
qed

lemma chunk_alloc_system:
  assumes "\<not> n * num \<le> bp_end p - bp_start p" "\<not> n \<le> bp_end p - bp_start p" "put_rest p = Some q" "m (bp_given q) (n * num * 2) = Some a"
  shows "chunk_alloc (Suc k) m n num p =
    (case add_heap k m a (n * num * 2) (q\<lparr>bp_start := a, bp_end := a + n * num * 2, bp_given := (a, n * num * 2) # bp_given q\<rparr>) of
       Done p \<Rightarrow> chunk_alloc k m n num p | Fault \<Rightarrow> Fault | No_fuel \<Rightarrow> No_fuel)"
  using assms by (simp add: chunk_alloc.simps(2) Let_def)

lemma chunk_alloc_spec:
  assumes "fresh_malloc m" "good p" "i < 1024"
  shows "chunk_spec m (16 * Suc i) p (chunk_alloc k m (16 * Suc i) NODE_NUM p)"
  using assms(2,3)
proof (induction k arbitrary: p i)
  case 0
  then show ?case by (simp add: chunk_spec_def)
next
  case (Suc k)
  let ?n = "16 * Suc i"
  let ?l = "bp_end p - bp_start p"
  show ?case
  proof (cases "?n \<le> ?l")
    case True
    then show ?thesis using chunk_direct [OF Suc.prems(1)] by blast
  next
    case False
    then have no: "\<not> ?n * NODE_NUM \<le> ?l" by (simp add: NODE_NUM_def)
    have small: "?l < ?n" "?n \<le> MAX_CHUNK_SIZE" using False Suc.prems(2) by (simp_all add: pool_sizes)
    obtain f where f: "put_rest p = Some (p\<lparr>bp_free := f\<rparr>)"
      "\<And>x. free_hits f x = free_hits (bp_free p) x + in_range (bp_start p, ?l) x"
      using put_rest_ok [of p ?n] Suc.prems(1) small by (auto simp: good_def)
    let ?p = "p\<lparr>bp_free := f\<rparr>"
    show ?thesis
    proof (cases "m (bp_given p) (?n * NODE_NUM * 2)")
      case none: None
      show ?thesis
      proof (cases "take_larger (?n + ALIGNMENT) (?p\<lparr>bp_start := 0\<rparr>)")
        case None
        then show ?thesis using no False f(1) none by (auto simp: chunk_alloc.simps(2) chunk_spec_def Let_def memory_out_def)
      next
        case (Some q)
        have "?n + ALIGNMENT = 16 * Suc (Suc i)" by (simp add: ALIGNMENT_def)
        from take_larger_ok [OF Some this] obtain g a j where q: "q = p\<lparr>bp_free := g, bp_start := a, bp_end := a + 16 * Suc j\<rparr>"
          "\<And>x. free_hits g x + in_range (a, 16 * Suc j) x = free_hits f x" by auto
        have "good q" using Suc.prems(1) by (simp add: q(1) good_def region_ok_def given_once_def)
        then have "chunk_spec m ?n q (chunk_alloc k m ?n NODE_NUM q)" using Suc.IH Suc.prems(2) by blast
        moreover have "pays p q (0, 0)" unfolding pays_def
        proof
          fix x
          show "cover q x + in_range (0, 0) x + hits (bp_given p) x \<le> cover p x + hits (bp_given q) x"
            using q(2) [of x] f(2) [of x] by (simp add: q(1) cover_def)
        qed
        ultimately have "chunk_spec m ?n p (chunk_alloc k m ?n NODE_NUM q)"
          by (auto simp: chunk_spec_def intro: pays_trans split: outcome.splits option.splits prod.splits)
        moreover have "chunk_alloc (Suc k) m ?n NODE_NUM p = chunk_alloc k m ?n NODE_NUM q"
          using no False f(1) none Some by (simp add: chunk_alloc.simps(2) Let_def)
        ultimately show ?thesis by simp
      qed
    next
      case (Some a)
      let ?t = "?n * NODE_NUM * 2"
      let ?q = "p\<lparr>bp_free := f, bp_start := a, bp_end := a + ?t, bp_given := (a, ?t) # bp_given p\<rparr>"
      have gq: "good ?q" using given_once_more [OF assms(1) Some] Suc.prems(1) by (simp add: good_def region_ok_def given_once_def)
      have pq: "pays p ?q (0, 0)" unfolding pays_def
        using f(2) by (auto simp: cover_def)
      have run: "chunk_alloc (Suc k) m ?n NODE_NUM p = (case add_heap k m a ?t ?q of
          Done p \<Rightarrow> chunk_alloc k m ?n NODE_NUM p | Fault \<Rightarrow> Fault | No_fuel \<Rightarrow> No_fuel)"
        using chunk_alloc_system [OF no False f(1), of m a k] Some by simp
      show ?thesis
      proof (cases "add_heap k m a ?t ?q")
        case (Done q)
        have q: "good q" "pays ?q q (0, 0)"
          using add_heap_spec [OF Suc.IH gq, where mem = a and n = ?t] Done by simp_all
        have "chunk_spec m ?n q (chunk_alloc k m ?n NODE_NUM q)" using Suc.IH [OF q(1)] Suc.prems(2) by blast
        then have "chunk_spec m ?n p (chunk_alloc k m ?n NODE_NUM q)"
          using pays_trans [OF pays_trans [OF pq q(2)]] by (auto simp: chunk_spec_def split: outcome.splits option.splits prod.splits)
        then show ?thesis using run Done by simp
      next
        case Fault
        then show ?thesis using add_heap_spec [OF Suc.IH gq, where mem = a and n = ?t] run by (simp add: chunk_spec_def)
      next
        case No_fuel
        then show ?thesis using run by (simp add: chunk_spec_def)
      qed
    qed
  qed
qed

section \<open>Enough fuel\<close>

text \<open>
  The recursion is never deeper than three: a block of the system has room for the nodes that were
  asked for, except for the smallest class when the list's own node takes all of it.
\<close>

lemma direct_ends:
  "n \<le> bp_end p - bp_start p \<Longrightarrow> 0 < n \<Longrightarrow> chunk_alloc (Suc k) m n NODE_NUM p \<noteq> No_fuel"
  by (rule chunk_direct_run [of n p k m]) simp_all

lemma add_heap_listed:
  assumes "bp_free p 1 \<noteq> []"
  shows "\<exists>f hs. add_heap k m mem n p = Done (p\<lparr>bp_free := f, bp_heap := hs\<rparr>)"
  using assms by (cases "bp_free p 1") (auto simp: add_heap.simps pool_allocate.simps pool_sizes)

lemma add_heap_carves:
  assumes "bp_free p 1 = []" "512 \<le> bp_end p - bp_start p"
  shows "add_heap (Suc k) m mem n p = Done (p\<lparr>bp_start := bp_start p + 512,
    bp_free := (bp_free p)(1 := map (\<lambda>j. bp_start p + j * 32) [1..<16]), bp_heap := (bp_start p, mem, n) # bp_heap p\<rparr>)"
proof -
  have "32 \<le> bp_end p - bp_start p" "(0::nat) < 32" using assms(2) by simp_all
  then obtain num where num: "32 * NODE_NUM \<le> bp_end p - bp_start p \<Longrightarrow> num = NODE_NUM"
    and run: "chunk_alloc (Suc k) m 32 NODE_NUM p = Done (Some (bp_start p), num, p\<lparr>bp_start := bp_start p + 32 * num\<rparr>)"
    by (rule chunk_direct_run [where k = k and m = m]) blast
  have "num = 16" using num assms(2) by (simp add: NODE_NUM_def)
  with run show ?thesis using assms(1)
    by (auto simp: add_heap.simps pool_allocate.simps refill.simps pool_sizes round_up_def)
qed

lemma chunk_step_ends:
  assumes "i < 1024" "region_ok p"
    and grow: "\<And>q a. region_ok q \<Longrightarrow> bp_end q - bp_start q = 512 * Suc i \<Longrightarrow> (bp_free p 1 \<noteq> [] \<Longrightarrow> bp_free q 1 \<noteq> []) \<Longrightarrow>
      \<exists>q'. add_heap (Suc k) m a (512 * Suc i) q = Done q' \<and> chunk_alloc (Suc k) m (16 * Suc i) NODE_NUM q' \<noteq> No_fuel"
  shows "chunk_alloc (Suc (Suc k)) m (16 * Suc i) NODE_NUM p \<noteq> No_fuel"
proof (cases "16 * Suc i \<le> bp_end p - bp_start p")
  case True
  then show ?thesis by (rule direct_ends) simp
next
  case False
  let ?n = "16 * Suc i"
  let ?l = "bp_end p - bp_start p"
  have no: "\<not> ?n * NODE_NUM \<le> ?l" using False by (simp add: NODE_NUM_def)
  have small: "?l < ?n" "?n \<le> MAX_CHUNK_SIZE" using False assms(1) by (simp_all add: pool_sizes)
  obtain f where f: "put_rest p = Some (p\<lparr>bp_free := f\<rparr>)" "\<forall>i. bp_free p i \<noteq> [] \<longrightarrow> f i \<noteq> []"
    using put_rest_ok [OF assms(2) small] by blast
  have t: "?n * NODE_NUM * 2 = 512 * Suc i" by (simp add: NODE_NUM_def)
  show ?thesis
  proof (cases "m (bp_given p) (?n * NODE_NUM * 2)")
    case none: None
    show ?thesis
    proof (cases "take_larger (?n + ALIGNMENT) (p\<lparr>bp_free := f, bp_start := 0\<rparr>)")
      case None
      then show ?thesis using no False f(1) none by (simp add: chunk_alloc.simps(2) Let_def)
    next
      case (Some q)
      have "?n + ALIGNMENT = 16 * Suc (Suc i)" by (simp add: ALIGNMENT_def)
      from take_larger_ok [OF Some this] obtain g a j where q: "q = p\<lparr>bp_free := g, bp_start := a, bp_end := a + 16 * Suc j\<rparr>" "Suc i \<le> j"
        by auto
      have "chunk_alloc (Suc k) m ?n NODE_NUM q \<noteq> No_fuel" by (rule direct_ends) (use q in simp_all)
      then show ?thesis using no False f(1) none Some by (simp add: chunk_alloc.simps(2) [of "Suc k"] Let_def)
    qed
  next
    case (Some a)
    let ?q = "p\<lparr>bp_free := f, bp_start := a, bp_end := a + 512 * Suc i, bp_given := (a, 512 * Suc i) # bp_given p\<rparr>"
    have "\<exists>q'. add_heap (Suc k) m a (512 * Suc i) ?q = Done q' \<and> chunk_alloc (Suc k) m ?n NODE_NUM q' \<noteq> No_fuel"
      by (rule grow) (use f(2) in \<open>simp_all add: region_ok_def\<close>)
    then show ?thesis using chunk_alloc_system [OF no False f(1), of m a "Suc k"] Some unfolding t by auto
  qed
qed

lemma listed_direct:
  assumes "bp_free q 1 \<noteq> []" "bp_end q - bp_start q = 512 * Suc i"
  shows "\<exists>q'. add_heap k m a (512 * Suc i) q = Done q' \<and> chunk_alloc (Suc l) m (16 * Suc i) NODE_NUM q' \<noteq> No_fuel"
proof -
  obtain f hs where add: "add_heap k m a (512 * Suc i) q = Done (q\<lparr>bp_free := f, bp_heap := hs\<rparr>)"
    using add_heap_listed [OF assms(1)] by blast
  have "chunk_alloc (Suc l) m (16 * Suc i) NODE_NUM (q\<lparr>bp_free := f, bp_heap := hs\<rparr>) \<noteq> No_fuel"
    by (rule direct_ends) (use assms(2) in simp_all)
  with add show ?thesis by blast
qed

lemma listed_ends:
  assumes "i < 1024" "region_ok p" "bp_free p 1 \<noteq> []"
  shows "chunk_alloc (Suc (Suc k)) m (16 * Suc i) NODE_NUM p \<noteq> No_fuel"
  by (rule chunk_step_ends [OF assms(1,2)]) (use assms(3) listed_direct in blast)

lemma three_is_enough:
  assumes "i < 1024" "region_ok p"
  shows "chunk_alloc (Suc (Suc (Suc k))) m (16 * Suc i) NODE_NUM p \<noteq> No_fuel"
proof (rule chunk_step_ends [OF assms])
  fix q :: pool and a
  assume q: "region_ok q" "bp_end q - bp_start q = 512 * Suc i"
  show "\<exists>q'. add_heap (Suc (Suc k)) m a (512 * Suc i) q = Done q' \<and> chunk_alloc (Suc (Suc k)) m (16 * Suc i) NODE_NUM q' \<noteq> No_fuel"
  proof (cases "bp_free q 1 = []")
    case False
    then show ?thesis using listed_direct q(2) by blast
  next
    case True
    let ?q = "q\<lparr>bp_start := bp_start q + 512, bp_free := (bp_free q)(1 := map (\<lambda>j. bp_start q + j * 32) [1..<16]),
      bp_heap := (bp_start q, a, 512 * Suc i) # bp_heap q\<rparr>"
    have add: "add_heap (Suc (Suc k)) m a (512 * Suc i) q = Done ?q" by (rule add_heap_carves [OF True]) (use q(2) in simp)
    have left: "bp_end ?q - bp_start ?q = 512 * i" using q(2) by simp
    have "chunk_alloc (Suc (Suc k)) m (16 * Suc i) NODE_NUM ?q \<noteq> No_fuel"
    proof (cases i)
      case 0
      have "region_ok ?q" using q left by (simp add: region_ok_def del: upt_Suc)
      then show ?thesis by (rule listed_ends [OF assms(1)]) simp
    next
      case (Suc j)
      show ?thesis by (rule direct_ends) (use left Suc in simp_all)
    qed
    with add show ?thesis by blast
  qed
qed

text \<open>The fuel of the pool.\<close>

definition POOL_FUEL :: nat where "POOL_FUEL = 3"

definition bp_allocate :: "sys_malloc \<Rightarrow> nat \<Rightarrow> pool \<Rightarrow> (nat option \<times> pool) outcome" where
  "bp_allocate m n p = pool_allocate POOL_FUEL m n p"

lemma bp_allocate_ends:
  assumes "region_ok p"
  shows "bp_allocate m n p \<noteq> No_fuel"
proof (cases "0 < n \<and> n \<le> MAX_CHUNK_SIZE")
  case True
  note i = class_index [of n]
  have "chunk_alloc 3 m (16 * Suc ((n - 1) div ALIGNMENT)) NODE_NUM p \<noteq> No_fuel"
    using three_is_enough [OF i(1) assms, of 0 m] True by (simp add: numeral_3_eq_3)
  then show ?thesis using True i(2)
    by (auto simp: bp_allocate_def POOL_FUEL_def pool_allocate.simps refill.simps split: list.splits outcome.splits option.splits)
qed (auto simp: bp_allocate_def pool_allocate.simps split: option.splits)

section \<open>Giving back\<close>

text \<open>\<open>free\<close> of the system: an address that is not the beginning of a range it has given has no result.\<close>

fun sys_free :: "nat \<Rightarrow> range list \<Rightarrow> range list option" where
  "sys_free a [] = None"
| "sys_free a ((b, n) # rs) = (if a = b then Some rs else (case sys_free a rs of None \<Rightarrow> None | Some ts \<Rightarrow> Some ((b, n) # ts)))"

definition bp_deallocate :: "nat \<Rightarrow> nat \<Rightarrow> pool \<Rightarrow> pool outcome" where
  "bp_deallocate a n p =
     (if a = 0 \<or> n = 0 then Fault
      else if n \<le> MAX_CHUNK_SIZE
      then Done (p\<lparr>bp_free := (bp_free p)((n - 1) div ALIGNMENT := a # bp_free p ((n - 1) div ALIGNMENT))\<rparr>)
      else (case sys_free a (bp_given p) of None \<Rightarrow> Fault | Some g \<Rightarrow> Done (p\<lparr>bp_given := g\<rparr>)))"

fun free_all :: "nat list \<Rightarrow> range list \<Rightarrow> range list option" where
  "free_all [] g = Some g"
| "free_all (a # as) g = (case sys_free a g of None \<Rightarrow> None | Some g \<Rightarrow> free_all as g)"

text \<open>\<open>release\<close>, which the destructor calls: the lists of the pool are left as they are.\<close>

definition bp_release :: "sys_malloc \<Rightarrow> pool \<Rightarrow> pool outcome" where
  "bp_release m p = (let n = length (bp_heap p) * 8 in
     (case m (bp_given p) n of
       None \<Rightarrow> Done p
     | Some c \<Rightarrow> (case free_all (rev (map (\<lambda>h. fst (snd h)) (bp_heap p))) ((c, n) # bp_given p) of
           None \<Rightarrow> Fault
         | Some g \<Rightarrow> (case sys_free c g of None \<Rightarrow> Fault | Some g \<Rightarrow> Done (p\<lparr>bp_given := g\<rparr>)))))"

definition heap_num :: "pool \<Rightarrow> nat" where
  "heap_num p = length (bp_heap p)"

section \<open>The smart pool\<close>

record smart_pool =
  sp_pool :: pool
  sp_chunks :: "nat \<Rightarrow> nat option"

text \<open>
  \<open>insert\<close> of a hash map keeps an entry that is there; \<open>ins_ok\<close> says that it has the memory for a
  node. \<open>free\<close> looks the size up and leaves the entry.
\<close>

definition smart_malloc :: "bool \<Rightarrow> sys_malloc \<Rightarrow> nat \<Rightarrow> smart_pool \<Rightarrow> (nat option \<times> smart_pool) outcome" where
  "smart_malloc ins_ok m n s = (case bp_allocate m n (sp_pool s) of
      Done (ptr, p) \<Rightarrow>
        (let key = (case ptr of None \<Rightarrow> 0 | Some a \<Rightarrow> a) in
         if ins_ok then Done (ptr, s\<lparr>sp_pool := p, sp_chunks := (if sp_chunks s key = None then (sp_chunks s)(key \<mapsto> n) else sp_chunks s)\<rparr>)
         else (case bp_deallocate key n p of
             Done p \<Rightarrow> Done (None, s\<lparr>sp_pool := p\<rparr>) | Fault \<Rightarrow> Fault | No_fuel \<Rightarrow> No_fuel))
    | Fault \<Rightarrow> Fault
    | No_fuel \<Rightarrow> No_fuel)"

definition smart_free :: "nat \<Rightarrow> smart_pool \<Rightarrow> smart_pool outcome" where
  "smart_free a s = (case sp_chunks s a of
      None \<Rightarrow> Fault
    | Some n \<Rightarrow> (case bp_deallocate a n (sp_pool s) of
        Done p \<Rightarrow> Done (s\<lparr>sp_pool := p\<rparr>) | Fault \<Rightarrow> Fault | No_fuel \<Rightarrow> No_fuel))"

section \<open>The pool of a thread\<close>

definition new_smart_pool :: smart_pool where
  "new_smart_pool = \<lparr>sp_pool = new_pool, sp_chunks = Map.empty\<rparr>"

text \<open>
  \<open>get_cur_tls_pool\<close>: making the key, the pool the thread has, memory for a new one and storing it
  may fail; then there is an exception, which the static functions turn into a null pointer.
\<close>

definition get_cur_tls_pool :: "bool \<Rightarrow> bool \<Rightarrow> bool \<Rightarrow> smart_pool option \<Rightarrow> smart_pool option" where
  "get_cur_tls_pool key_ok new_ok set_ok cur =
     (if \<not> key_ok then None
      else (case cur of
          Some s \<Rightarrow> Some s
        | None \<Rightarrow> if \<not> new_ok then None else if \<not> set_ok then None else Some new_smart_pool))"

definition tls_malloc :: "smart_pool option \<Rightarrow> bool \<Rightarrow> sys_malloc \<Rightarrow> nat \<Rightarrow> (nat option \<times> smart_pool option) outcome" where
  "tls_malloc pool ins_ok m n = (case pool of
      None \<Rightarrow> Done (None, None)
    | Some s \<Rightarrow> (case smart_malloc ins_ok m n s of
        Done (ptr, s) \<Rightarrow> Done (ptr, Some s) | Fault \<Rightarrow> Fault | No_fuel \<Rightarrow> No_fuel))"

definition tls_free :: "smart_pool option \<Rightarrow> nat \<Rightarrow> smart_pool option outcome" where
  "tls_free pool a = (case pool of
      None \<Rightarrow> Done None
    | Some s \<Rightarrow> (case smart_free a s of Done s \<Rightarrow> Done (Some s) | Fault \<Rightarrow> Fault | No_fuel \<Rightarrow> No_fuel))"

definition tls_allocate :: "smart_pool option \<Rightarrow> sys_malloc \<Rightarrow> nat \<Rightarrow> (nat option \<times> smart_pool option) outcome" where
  "tls_allocate pool m n = (case pool of
      None \<Rightarrow> Done (None, None)
    | Some s \<Rightarrow> (case bp_allocate m n (sp_pool s) of
        Done (ptr, p) \<Rightarrow> Done (ptr, Some (s\<lparr>sp_pool := p\<rparr>)) | Fault \<Rightarrow> Fault | No_fuel \<Rightarrow> No_fuel))"

definition tls_deallocate :: "smart_pool option \<Rightarrow> nat \<Rightarrow> nat \<Rightarrow> smart_pool option outcome" where
  "tls_deallocate pool a n = (case pool of
      None \<Rightarrow> Done None
    | Some s \<Rightarrow> (case bp_deallocate a n (sp_pool s) of Done p \<Rightarrow> Done (Some (s\<lparr>sp_pool := p\<rparr>)) | Fault \<Rightarrow> Fault | No_fuel \<Rightarrow> No_fuel))"

section \<open>Blocks are apart\<close>

text \<open>Runs of the pool with blocks of its classes: the blocks that are in use, each with its size.\<close>

inductive pool_run :: "sys_malloc \<Rightarrow> range list \<Rightarrow> pool \<Rightarrow> bool" for m where
  pool_new: "pool_run m [] new_pool"
| pool_take: "pool_run m live p \<Longrightarrow> 0 < n \<Longrightarrow> n \<le> MAX_CHUNK_SIZE \<Longrightarrow> bp_allocate m n p = Done (Some a, q) \<Longrightarrow> pool_run m ((a, n) # live) q"
| pool_back: "pool_run m live p \<Longrightarrow> (a, n) \<in> set live \<Longrightarrow> bp_deallocate a n p = Done q \<Longrightarrow> pool_run m (remove1 (a, n) live) q"

definition block_ranges :: "range list \<Rightarrow> range list" where
  "block_ranges live = map (\<lambda>b. (fst b, round_up (snd b))) live"

lemma hits_remove1: "b \<in> set live \<Longrightarrow> hits (block_ranges (remove1 b live)) x + in_range (fst b, round_up (snd b)) x = hits (block_ranges live) x"
  by (induction live) (auto simp: block_ranges_def)

definition pool_inv :: "range list \<Rightarrow> pool \<Rightarrow> bool" where
  "pool_inv live p \<longleftrightarrow> good p \<and> (\<forall>x. hits (block_ranges live) x + cover p x \<le> hits (bp_given p) x) \<and>
     (\<forall>(a, n) \<in> set live. 0 < n \<and> n \<le> MAX_CHUNK_SIZE)"

lemma bp_allocate_spec:
  assumes "fresh_malloc m" "good p" "0 < n" "n \<le> MAX_CHUNK_SIZE"
  shows "alloc_spec m (round_up n) p (bp_allocate m n p)"
  unfolding bp_allocate_def by (rule allocate_spec [OF chunk_alloc_spec [OF assms(1)] assms(2-4)])

lemma pool_run_inv:
  assumes "fresh_malloc m" "pool_run m live p"
  shows "pool_inv live p"
  using assms(2)
proof (induction rule: pool_run.induct)
  case pool_new
  then show ?case
    by (simp add: pool_inv_def good_def region_ok_def given_once_def new_pool_def cover_def block_ranges_def heap_ranges_def
        free_hits_def class_ranges_def)
next
  case (pool_take live p n a q)
  have "good q" "pays p q (a, round_up n)"
    using bp_allocate_spec [OF assms(1) _ pool_take(2,3), of p] pool_take by (simp_all add: pool_inv_def alloc_spec_def)
  moreover have "hits (block_ranges ((a, n) # live)) x + cover q x \<le> hits (bp_given q) x" for x
  proof -
    have "hits (block_ranges live) x + cover p x \<le> hits (bp_given p) x" using pool_take(5) by (simp add: pool_inv_def)
    moreover have "cover q x + in_range (a, round_up n) x + hits (bp_given p) x \<le> cover p x + hits (bp_given q) x"
      using \<open>pays p q (a, round_up n)\<close> by (simp add: pays_def)
    ultimately show ?thesis by (simp add: block_ranges_def)
  qed
  ultimately show ?case using pool_take by (simp add: pool_inv_def)
next
  case (pool_back live p a n q)
  have n: "0 < n" "n \<le> MAX_CHUNK_SIZE" using pool_back by (auto simp: pool_inv_def)
  note i = class_index [OF n]
  have q: "q = p\<lparr>bp_free := (bp_free p)((n - 1) div ALIGNMENT := a # bp_free p ((n - 1) div ALIGNMENT))\<rparr>"
    using pool_back(3) n by (simp add: bp_deallocate_def split: if_splits)
  have "cover q x = cover p x + in_range (a, round_up n) x" for x
    using free_hits_upd [OF i(1), of "bp_free p" "a # bp_free p ((n - 1) div ALIGNMENT)" x] i(2) by (simp add: q cover_def class_ranges_def)
  moreover have "hits (block_ranges (remove1 (a, n) live)) x + in_range (a, round_up n) x = hits (block_ranges live) x" for x
    using hits_remove1 [OF pool_back(2)] by simp
  ultimately have "hits (block_ranges (remove1 (a, n) live)) x + cover q x = hits (block_ranges live) x + cover p x" for x
    by (metis add.assoc add.commute)
  moreover have "good q" using pool_back(4) by (simp add: q pool_inv_def good_def region_ok_def given_once_def)
  moreover have "set (remove1 (a, n) live) \<subseteq> set live" by (rule set_remove1_subset)
  ultimately show ?case using pool_back(4) by (auto simp: pool_inv_def q)
qed

text \<open>
  C10: memory is given away once: no byte is in two blocks that are in use, or in one of them and in
  what the pool still has to give.
\<close>

theorem pool_blocks_apart:
  assumes "fresh_malloc m" "pool_run m live p"
  shows "hits (block_ranges live) x + cover p x \<le> 1"
proof -
  have "hits (block_ranges live) x + cover p x \<le> hits (bp_given p) x" "hits (bp_given p) x \<le> 1"
    using pool_run_inv [OF assms] by (simp_all add: pool_inv_def good_def given_once_def)
  then show ?thesis by (rule le_trans)
qed

lemma allocates_run:
  assumes "fresh_malloc m" "pool_run m live p" "0 < n" "n \<le> MAX_CHUNK_SIZE"
  shows "memory_out m \<or> (\<exists>a q. bp_allocate m n p = Done (Some a, q) \<and> pool_run m ((a, n) # live) q)"
proof -
  have g: "good p" using pool_run_inv [OF assms(1,2)] by (simp add: pool_inv_def)
  then have "bp_allocate m n p \<noteq> No_fuel" using bp_allocate_ends by (simp add: good_def)
  then show ?thesis using bp_allocate_spec [OF assms(1) g assms(3,4)] pool_take [OF assms(2,3,4)]
    by (auto simp: alloc_spec_def split: outcome.splits option.splits)
qed


section \<open>A system with a moving end\<close>

definition given_end :: "range list \<Rightarrow> nat" where
  "given_end rs = foldr (\<lambda>(a, n). max (a + n)) rs 0"

definition bump :: sys_malloc where
  "bump rs n = Some (Suc (given_end rs))"

lemma given_end_simps [simp]: "given_end [] = 0" "given_end ((a, n) # rs) = max (a + n) (given_end rs)"
  by (simp_all add: given_end_def)

lemma behind_end: "given_end rs \<le> x \<Longrightarrow> hits rs x = 0"
  by (induction rs) (auto simp: in_range_def)

lemma bump_fresh: "fresh_malloc bump"
  by (auto simp: fresh_malloc_def bump_def intro!: behind_end)

lemma bump_enough: "\<not> memory_out bump"
  by (simp add: memory_out_def bump_def)


theorem pool_blocks_apart_witness:
  "\<exists>a q. pool_run bump [(a, 100)] q \<and> (\<forall>x. hits (block_ranges [(a, 100)]) x + cover q x \<le> 1)"
proof -
  obtain a q where run: "pool_run bump [(a, 100)] q"
    using allocates_run [OF bump_fresh pool_new [of bump], of 100] bump_enough by (auto simp: pool_sizes)
  then show ?thesis using pool_blocks_apart [OF bump_fresh run] by blast
qed

section \<open>What goes wrong\<close>

text \<open>Freeing a block of the smart pool a second time is not noticed: the next two requests share it.\<close>

theorem freed_twice_shared:
  assumes "sp_chunks s a = Some n" "0 < a" "0 < n" "n \<le> MAX_CHUNK_SIZE"
  shows "\<exists>s1 s2 s3 s4. smart_free a s = Done s1 \<and> smart_free a s1 = Done s2 \<and>
    smart_malloc True m n s2 = Done (Some a, s3) \<and> smart_malloc True m n s3 = Done (Some a, s4)"
  using assms by (simp add: smart_free_def smart_malloc_def bp_deallocate_def bp_allocate_def pool_allocate.simps)

theorem freed_twice_shared_witness:
  "\<exists>s1 s2 s3 s4. smart_free 1001 \<lparr>sp_pool = new_pool, sp_chunks = [1001 \<mapsto> 40]\<rparr> = Done s1 \<and> smart_free 1001 s1 = Done s2 \<and>
    smart_malloc True bump 40 s2 = Done (Some 1001, s3) \<and> smart_malloc True bump 40 s3 = Done (Some 1001, s4)"
  by (rule freed_twice_shared) (simp_all add: pool_sizes)

text \<open>
  The first block of the second class: the list of that class is filled for the node of the list
  of heaps, and then filled again. Fifteen nodes of 32 bytes are in no list any more.
\<close>

lemmas pool_run_simps = bp_allocate_def POOL_FUEL_def numeral_3_eq_3 pool_allocate.simps refill.simps chunk_alloc.simps add_heap.simps
  put_rest_def round_up_def pool_sizes Let_def

lemma second_class_leaks:
  assumes "m [] 1024 = Some a"
  shows "\<exists>q. bp_allocate m 32 new_pool = Done (Some (a + 512), q) \<and> bp_heap q = [(a, a, 1024)] \<and> bp_start q = bp_end q \<and>
    bp_free q 1 = map (\<lambda>j. a + 512 + j * 32) [1..<16] \<and> (\<forall>i. i \<noteq> 1 \<longrightarrow> bp_free q i = [])"
  using assms by (simp add: pool_run_simps new_pool_def)

text \<open>Without memory from the system the pool writes through the null pointer.\<close>

lemma take_larger_none: "(\<forall>i. bp_free p i = []) \<Longrightarrow> take_larger n p = None"
  by (induction n p rule: take_larger.induct) (simp add: take_larger.simps)

lemma no_memory_faults:
  assumes "m [] 512 = None"
  shows "bp_allocate m 16 new_pool = Fault"
  using assms by (simp add: pool_run_simps new_pool_def take_larger_none)

text \<open>
  \<open>release\<close> leaves the list of heaps as it is, so that the destructor, which calls it again, gives
  the same memory back a second time.
\<close>

lemma release_twice_faults:
  assumes "bp_heap p = [(a, mem, n)]" "bp_given p = [(mem, n)]" "m [(mem, n)] 8 = Some c" "m [] 8 = Some d" "c \<noteq> mem" "d \<noteq> mem"
  shows "\<exists>q. bp_release m p = Done q \<and> bp_release m q = Fault"
  using assms by (simp add: bp_release_def)

end
