(* ===== verification/Ssl_Ctx.thy ===== *)
theory Ssl_Ctx
  imports Flow_Report
begin

text \<open>
  The TLS context of a worker, \<open>core/ssl_ctx.h\<close>, \<open>core/ssl_ctx.cpp\<close>, and its set-up from the
  settings, \<open>core/global.cpp\<close>. OpenSSL is not in the repository: the context is the record of what
  the code asked it for, and the outcomes of the calls that can fail are a list.
\<close>

section \<open>The context\<close>

datatype ssl_option = SSL_OP_MICROSOFT_SESS_ID_BUG | SSL_OP_NETSCAPE_CHALLENGE_BUG | SSL_OP_SSLREF2_REUSE_CERT_TYPE_BUG
  | SSL_OP_MICROSOFT_BIG_SSLV3_BUFFER | SSL_OP_MSIE_SSLV2_RSA_PADDING | SSL_OP_SSLEAY_080_CLIENT_DH_BUG | SSL_OP_TLS_D5_BUG
  | SSL_OP_TLS_BLOCK_PADDING_BUG | SSL_OP_DONT_INSERT_EMPTY_FRAGMENTS | SSL_OP_SINGLE_DH_USE | SSL_OP_ALL | SSL_OP_NO_COMPRESSION
  | SSL_OP_NO_SSLv2 | SSL_OP_NO_SSLv3 | SSL_OP_NO_TLSv1 | SSL_OP_NO_TLSv1_1 | SSL_OP_NO_TLSv1_2 | SSL_OP_SINGLE_ECDH_USE

text \<open>
  \<open>cx_dh\<close> is the file of the parameters, \<open>Some []\<close> for those in the code. \<open>cx_passwd\<close> is the text
  the password callback gives, \<open>cx_ca\<close> the file of the accepted authorities.
\<close>

record ssl_ctx =
  cx_options :: "ssl_option set"
  cx_release_buffers :: bool
  cx_read_ahead :: bool
  cx_passwd :: "bytes option"
  cx_cert :: "bytes option"
  cx_key :: "bytes option"
  cx_ciphers :: "bytes option"
  cx_verify_peer :: bool
  cx_depth :: int
  cx_ca :: "bytes option"
  cx_crl :: "bytes option"
  cx_rsa_callback :: bool
  cx_dh :: "bytes option"
  cx_curve :: "bytes option"

definition set_options :: "ssl_option list \<Rightarrow> ssl_ctx \<Rightarrow> ssl_ctx" where
  "set_options os cx = cx\<lparr>cx_options := cx_options cx \<union> set os\<rparr>"

definition blank_ctx :: ssl_ctx where
  "blank_ctx = \<lparr>cx_options = {}, cx_release_buffers = False, cx_read_ahead = False, cx_passwd = None, cx_cert = None, cx_key = None,
     cx_ciphers = None, cx_verify_peer = False, cx_depth = 0, cx_ca = None, cx_crl = None, cx_rsa_callback = False, cx_dh = None, cx_curve = None\<rparr>"

text \<open>The constructor; it throws when there is no context.\<close>

definition new_ssl_ctx :: "bool \<Rightarrow> ssl_ctx option" where
  "new_ssl_ctx ctx_new = (if \<not> ctx_new then None else Some ((set_options
     [SSL_OP_MICROSOFT_SESS_ID_BUG, SSL_OP_NETSCAPE_CHALLENGE_BUG, SSL_OP_SSLREF2_REUSE_CERT_TYPE_BUG,
      SSL_OP_MICROSOFT_BIG_SSLV3_BUFFER, SSL_OP_MSIE_SSLV2_RSA_PADDING, SSL_OP_SSLEAY_080_CLIENT_DH_BUG, SSL_OP_TLS_D5_BUG,
      SSL_OP_TLS_BLOCK_PADDING_BUG, SSL_OP_DONT_INSERT_EMPTY_FRAGMENTS, SSL_OP_SINGLE_DH_USE, SSL_OP_ALL, SSL_OP_NO_COMPRESSION]
     blank_ctx)\<lparr>cx_release_buffers := True, cx_read_ahead := True, cx_passwd := None\<rparr>))"

section \<open>Operations\<close>

definition unless_bit :: "32 word \<Rightarrow> 32 word \<Rightarrow> ssl_option \<Rightarrow> ssl_ctx \<Rightarrow> ssl_ctx" where
  "unless_bit p m opt cx = (if and p m = 0 then set_options [opt] cx else cx)"

definition set_protocol :: "32 word \<Rightarrow> ssl_ctx \<Rightarrow> ssl_ctx" where
  "set_protocol p cx = unless_bit p SSL_TLSv1_2 SSL_OP_NO_TLSv1_2 (unless_bit p SSL_TLSv1_1 SSL_OP_NO_TLSv1_1
     (unless_bit p SSL_TLSv1 SSL_OP_NO_TLSv1 (unless_bit p SSL_SSLv3 SSL_OP_NO_SSLv3 (unless_bit p SSL_SSLv2 SSL_OP_NO_SSLv2 cx))))"

text \<open>
  \<open>set_certificate\<close>: the chain first, then the key, from its file or, with a password, in four
  calls: a source, its file, reading it, using it.
\<close>

definition set_certificate :: "bytes \<Rightarrow> bytes \<Rightarrow> bytes option \<Rightarrow> bool list \<Rightarrow> ssl_ctx \<Rightarrow> bool \<times> ssl_ctx \<times> bool list" where
  "set_certificate certfile keyfile keypass oks cx = (case attempts 1 oks of
      (False, r) \<Rightarrow> (False, cx, r)
    | (True, r) \<Rightarrow> (let cx = cx\<lparr>cx_cert := Some certfile\<rparr> in
        (case attempts (if keypass = None then 1 else 4) r of
            (False, r) \<Rightarrow> (False, cx, r)
          | (True, r) \<Rightarrow> (True, cx\<lparr>cx_key := Some keyfile\<rparr>, r))))"

definition set_client_certificate :: "bytes \<Rightarrow> int \<Rightarrow> bool list \<Rightarrow> ssl_ctx \<Rightarrow> bool \<times> ssl_ctx \<times> bool list" where
  "set_client_certificate certfile depth oks cx = (let cx = cx\<lparr>cx_verify_peer := True, cx_depth := depth\<rparr> in
     (case attempts 2 oks of
        (False, r) \<Rightarrow> (False, cx, r)
      | (True, r) \<Rightarrow> (True, cx\<lparr>cx_ca := Some certfile\<rparr>, r)))"

definition set_crl :: "bytes \<Rightarrow> bool list \<Rightarrow> ssl_ctx \<Rightarrow> bool \<times> ssl_ctx \<times> bool list" where
  "set_crl crl oks cx = (case attempts 3 oks of
      (False, r) \<Rightarrow> (False, cx, r)
    | (True, r) \<Rightarrow> (True, cx\<lparr>cx_crl := Some crl\<rparr>, r))"

definition set_dhparam :: "bytes option \<Rightarrow> bool list \<Rightarrow> ssl_ctx \<Rightarrow> bool \<times> ssl_ctx \<times> bool list" where
  "set_dhparam file oks cx = (case attempts 2 oks of
      (False, r) \<Rightarrow> (False, cx, r)
    | (True, r) \<Rightarrow> (True, cx\<lparr>cx_dh := Some (case file of None \<Rightarrow> [] | Some f \<Rightarrow> f)\<rparr>, r))"

definition set_ecdh_curve :: "bytes \<Rightarrow> bool list \<Rightarrow> ssl_ctx \<Rightarrow> bool \<times> ssl_ctx \<times> bool list" where
  "set_ecdh_curve name oks cx = (case attempts 2 oks of
      (False, r) \<Rightarrow> (False, cx, r)
    | (True, r) \<Rightarrow> (True, set_options [SSL_OP_SINGLE_ECDH_USE] (cx\<lparr>cx_curve := Some name\<rparr>), r))"

definition set_passwd_cb :: "bytes \<Rightarrow> ssl_ctx \<Rightarrow> ssl_ctx" where
  "set_passwd_cb passwd cx = cx\<lparr>cx_passwd := Some passwd\<rparr>"

text \<open>
  The callback writes the password into the buffer without its end. The size is compared as an
  unsigned number, a negative one is large.
\<close>

definition passwd_cb_fun :: "bytes \<Rightarrow> int \<Rightarrow> bytes \<Rightarrow> nat \<times> bytes" where
  "passwd_cb_fun buf sz passwd = (let len = length passwd; len = (if nat (sz mod 2 ^ 64) < len then nat (sz mod 2 ^ 64) else len)
     in (len, take len passwd @ drop len buf))"

text \<open>The verdict on a certificate of the client's chain is passed over.\<close>

definition ssl_verify_callback :: "bool \<Rightarrow> bool" where
  "ssl_verify_callback ok = True"

section \<open>The set-up from the settings\<close>

type_synonym ctx_step = "bool list \<Rightarrow> ssl_ctx \<Rightarrow> bool \<times> ssl_ctx \<times> bool list"

definition on_ctx :: "(ssl_ctx \<Rightarrow> ssl_ctx) \<Rightarrow> ctx_step" where
  "on_ctx f oks cx = (True, f cx, oks)"

text \<open>A refused list of ciphers is logged only.\<close>

definition use_ciphers :: "bytes \<Rightarrow> ctx_step" where
  "use_ciphers ciphers oks cx = (case attempts 1 oks of
      (False, r) \<Rightarrow> (True, cx, r)
    | (True, r) \<Rightarrow> (True, cx\<lparr>cx_ciphers := Some ciphers\<rparr>, r))"

definition if_given :: "bytes \<Rightarrow> ctx_step \<Rightarrow> ctx_step" where
  "if_given str st oks cx = (if str = [] then (True, cx, oks) else st oks cx)"

fun ctx_steps :: "ctx_step list \<Rightarrow> ctx_step" where
  "ctx_steps [] oks cx = (True, cx, oks)"
| "ctx_steps (st # sts) oks cx = (case st oks cx of
      (False, cx, r) \<Rightarrow> (False, cx, r)
    | (True, cx, r) \<Rightarrow> ctx_steps sts r cx)"

definition ctx_setup :: "ssl_info \<Rightarrow> ctx_step" where
  "ctx_setup ssl = ctx_steps
       [on_ctx (set_passwd_cb (si_keypass ssl)),
        on_ctx (set_protocol (si_protocols ssl)),
        set_certificate (cstr (si_cert ssl)) (cstr (si_key ssl)) None,
        if_given (si_ciphers ssl) (use_ciphers (cstr (si_ciphers ssl))),
        (if si_verify ssl \<noteq> 0 then ctx_steps
          [set_client_certificate (cstr (si_ca ssl)) (si_depth ssl),
           if_given (si_crl ssl) (set_crl (cstr (si_crl ssl)))] else on_ctx id),
        on_ctx (\<lambda>cx. cx\<lparr>cx_rsa_callback := True\<rparr>),
        set_dhparam (if si_dhparam ssl = [] then None else Some (cstr (si_dhparam ssl))),
        if_given (si_ecdh_curve ssl) (set_ecdh_curve (cstr (si_ecdh_curve ssl)))]"

definition init_ssl_ctx :: "ssl_info \<Rightarrow> ctx_step" where
  "init_ssl_ctx ssl oks cx = (if si_enable ssl = 0 then (True, cx, oks) else ctx_setup ssl oks cx)"

section \<open>What a worker's context allows\<close>

text \<open>
  Rules in the style of a Hoare logic: whatever calls fail, a predicate holds of the context
  after a step that returned true.
\<close>

definition ctx_after :: "ctx_step \<Rightarrow> ssl_ctx \<Rightarrow> (ssl_ctx \<Rightarrow> bool) \<Rightarrow> bool" where
  "ctx_after st cx Q \<longleftrightarrow> (\<forall>oks cx' r. st oks cx = (True, cx', r) \<longrightarrow> Q cx')"

lemma after_steps_Nil: "Q cx \<Longrightarrow> ctx_after (ctx_steps []) cx Q"
  by (simp add: ctx_after_def)

lemma after_steps_Cons:
  "ctx_after st cx (\<lambda>cx'. ctx_after (ctx_steps sts) cx' Q) \<Longrightarrow> ctx_after (ctx_steps (st # sts)) cx Q"
proof (unfold ctx_after_def, intro allI impI)
  fix oks cx'' r'
  assume h: "\<forall>oks cx' r. st oks cx = (True, cx', r) \<longrightarrow> (\<forall>oks cx'' r. ctx_steps sts oks cx' = (True, cx'', r) \<longrightarrow> Q cx'')"
    and run: "ctx_steps (st # sts) oks cx = (True, cx'', r')"
  obtain ok cx' r where st: "st oks cx = (ok, cx', r)" by (cases "st oks cx") auto
  with run have "ok" "ctx_steps sts r cx' = (True, cx'', r')" by (cases ok; simp)+
  moreover from st \<open>ok\<close> have "st oks cx = (True, cx', r)" by simp
  ultimately show "Q cx''" using h by blast
qed

lemma after_on_ctx: "Q (f cx) \<Longrightarrow> ctx_after (on_ctx f) cx Q"
  by (simp add: ctx_after_def on_ctx_def)

lemma after_if_given:
  "(str = [] \<Longrightarrow> Q cx) \<Longrightarrow> (str \<noteq> [] \<Longrightarrow> ctx_after st cx Q) \<Longrightarrow> ctx_after (if_given str st) cx Q"
  by (auto simp: ctx_after_def if_given_def)

lemma after_if:
  "(b \<Longrightarrow> ctx_after st cx Q) \<Longrightarrow> (\<not> b \<Longrightarrow> ctx_after st' cx Q) \<Longrightarrow> ctx_after (if b then st else st') cx Q"
  by simp

lemma after_certificate:
  "Q (cx\<lparr>cx_cert := Some c, cx_key := Some k\<rparr>) \<Longrightarrow> ctx_after (set_certificate c k p) cx Q"
  by (auto simp: ctx_after_def set_certificate_def Let_def split: prod.splits bool.splits)

lemma after_client_certificate:
  "Q (cx\<lparr>cx_verify_peer := True, cx_depth := d, cx_ca := Some c\<rparr>) \<Longrightarrow> ctx_after (set_client_certificate c d) cx Q"
  by (auto simp: ctx_after_def set_client_certificate_def Let_def split: prod.splits bool.splits)

lemma after_crl: "Q (cx\<lparr>cx_crl := Some c\<rparr>) \<Longrightarrow> ctx_after (set_crl c) cx Q"
  by (auto simp: ctx_after_def set_crl_def split: prod.splits bool.splits)

lemma after_dhparam: "Q (cx\<lparr>cx_dh := Some (case f of None \<Rightarrow> [] | Some f \<Rightarrow> f)\<rparr>) \<Longrightarrow> ctx_after (set_dhparam f) cx Q"
  by (auto simp: ctx_after_def set_dhparam_def split: prod.splits bool.splits)

lemma after_curve: "Q (set_options [SSL_OP_SINGLE_ECDH_USE] (cx\<lparr>cx_curve := Some c\<rparr>)) \<Longrightarrow> ctx_after (set_ecdh_curve c) cx Q"
  by (auto simp: ctx_after_def set_ecdh_curve_def split: prod.splits bool.splits)

lemma after_ciphers: "Q cx \<Longrightarrow> Q (cx\<lparr>cx_ciphers := Some c\<rparr>) \<Longrightarrow> ctx_after (use_ciphers c) cx Q"
  by (auto simp: ctx_after_def use_ciphers_def split: prod.splits bool.splits)

lemmas after_rules = after_certificate after_client_certificate after_crl after_dhparam after_curve after_ciphers
  after_if_given after_if after_on_ctx after_steps_Nil after_steps_Cons

definition no_protocol :: "(32 word \<times> ssl_option) list" where
  "no_protocol = [(SSL_SSLv2, SSL_OP_NO_SSLv2), (SSL_SSLv3, SSL_OP_NO_SSLv3), (SSL_TLSv1, SSL_OP_NO_TLSv1),
     (SSL_TLSv1_1, SSL_OP_NO_TLSv1_1), (SSL_TLSv1_2, SSL_OP_NO_TLSv1_2)]"

definition protocols_as_set :: "32 word \<Rightarrow> ssl_ctx \<Rightarrow> bool" where
  "protocols_as_set p cx \<longleftrightarrow> list_all (\<lambda>(m, opt). opt \<in> cx_options cx \<longleftrightarrow> and p m = 0) no_protocol"

definition ctx_as_configured :: "ssl_info \<Rightarrow> ssl_ctx \<Rightarrow> bool" where
  "ctx_as_configured ssl cx \<longleftrightarrow> protocols_as_set (si_protocols ssl) cx \<and> cx_cert cx = Some (cstr (si_cert ssl))
     \<and> cx_key cx = Some (cstr (si_key ssl)) \<and> cx_passwd cx = Some (si_keypass ssl) \<and> cx_rsa_callback cx
     \<and> (cx_verify_peer cx \<longleftrightarrow> si_verify ssl \<noteq> 0)
     \<and> (si_verify ssl \<noteq> 0 \<longrightarrow> cx_ca cx = Some (cstr (si_ca ssl)) \<and> cx_depth cx = si_depth ssl)
     \<and> cx_dh cx \<noteq> None \<and> (cx_curve cx \<noteq> None \<longleftrightarrow> si_ecdh_curve ssl \<noteq> [])"

lemma protocols_updates [simp]:
  "protocols_as_set p (cx\<lparr>cx_passwd := a\<rparr>) = protocols_as_set p cx"
  "protocols_as_set p (cx\<lparr>cx_cert := a\<rparr>) = protocols_as_set p cx"
  "protocols_as_set p (cx\<lparr>cx_key := a\<rparr>) = protocols_as_set p cx"
  "protocols_as_set p (cx\<lparr>cx_ciphers := a\<rparr>) = protocols_as_set p cx"
  "protocols_as_set p (cx\<lparr>cx_verify_peer := b\<rparr>) = protocols_as_set p cx"
  "protocols_as_set p (cx\<lparr>cx_depth := d\<rparr>) = protocols_as_set p cx"
  "protocols_as_set p (cx\<lparr>cx_ca := a\<rparr>) = protocols_as_set p cx"
  "protocols_as_set p (cx\<lparr>cx_crl := a\<rparr>) = protocols_as_set p cx"
  "protocols_as_set p (cx\<lparr>cx_rsa_callback := b\<rparr>) = protocols_as_set p cx"
  "protocols_as_set p (cx\<lparr>cx_dh := a\<rparr>) = protocols_as_set p cx"
  "protocols_as_set p (cx\<lparr>cx_curve := a\<rparr>) = protocols_as_set p cx"
  "protocols_as_set p (set_options [SSL_OP_SINGLE_ECDH_USE] cx) = protocols_as_set p cx"
  by (simp_all add: protocols_as_set_def no_protocol_def set_options_def)

lemma protocols_set:
  "cx_options cx \<inter> snd ` set no_protocol = {} \<Longrightarrow> protocols_as_set p (set_protocol p cx)"
  by (auto simp: protocols_as_set_def set_protocol_def unless_bit_def set_options_def no_protocol_def)

lemma set_options_fields [simp]:
  "cx_passwd (set_options os cx) = cx_passwd cx" "cx_verify_peer (set_options os cx) = cx_verify_peer cx"
  "cx_curve (set_options os cx) = cx_curve cx" "cx_cert (set_options os cx) = cx_cert cx" "cx_key (set_options os cx) = cx_key cx"
  "cx_rsa_callback (set_options os cx) = cx_rsa_callback cx" "cx_ca (set_options os cx) = cx_ca cx"
  "cx_depth (set_options os cx) = cx_depth cx" "cx_dh (set_options os cx) = cx_dh cx"
  by (simp_all add: set_options_def)

lemma set_protocol_fields [simp]:
  "cx_passwd (set_protocol p cx) = cx_passwd cx" "cx_verify_peer (set_protocol p cx) = cx_verify_peer cx"
  "cx_curve (set_protocol p cx) = cx_curve cx"
  by (simp_all add: set_protocol_def unless_bit_def)

definition fresh_ctx :: "ssl_ctx \<Rightarrow> bool" where
  "fresh_ctx cx \<longleftrightarrow> new_ssl_ctx True = Some cx"


definition tls_settings :: ssl_info where
  "tls_settings = blank_ssl\<lparr>si_enable := 1, si_port := 443, si_protocols := or SSL_TLSv1_1 SSL_TLSv1_2, si_verify := 1, si_depth := 2,
     si_ciphers := ''HIGH'', si_cert := ''c.pem'', si_key := ''k.pem'', si_ca := ''ca.pem''\<rparr>"


text \<open>The password callback stays inside the buffer it is given.\<close>

lemma passwd_in_buffer:
  assumes "0 \<le> sz" "sz < 2 ^ 31" "int (length buf) = sz"
  shows "length (snd (passwd_cb_fun buf sz passwd)) = length buf \<and> fst (passwd_cb_fun buf sz passwd) \<le> length buf"
proof -
  have "sz mod 2 ^ 64 = sz" using assms by (intro mod_pos_pos_trivial) auto
  then show ?thesis using assms by (auto simp: passwd_cb_fun_def Let_def)
qed

text \<open>
  Whatever the library finds wrong with the certificates of a client, the callback lets the
  handshake go on: with \<open>ssl_verify\<close> set no client is refused.
\<close>

lemma no_client_refused: "list_all ssl_verify_callback verdicts"
  by (simp add: ssl_verify_callback_def list_all_iff)

end
