(* ===== verification/Server.thy ===== *)
theory Server
  imports Acceptor Connector_Inv Ssl_Ctx
begin

text \<open>
  The server that holds the parts together, \<open>core/server.h\<close> and \<open>core/server.cpp\<close>, and the life of
  a worker, the other half of \<open>core/worker.cpp\<close>: its thread, event base and pipe. The resolver of
  host names is a parameter, the outcomes of calls that can fail are a list. The thread's own
  settings (signal mask, processor) only log and are left out.
\<close>

section \<open>A worker's life\<close>

record worker_life =
  wl_cpu :: nat
  wl_base :: bool
  wl_pipe :: bool
  wl_notify :: bool
  wl_timer :: bool
  wl_thread :: bool
  wl_ctx :: ssl_ctx

definition idle_life :: "nat \<Rightarrow> ssl_ctx \<Rightarrow> worker_life" where
  "idle_life cpu cx = \<lparr>wl_cpu = cpu, wl_base = False, wl_pipe = False, wl_notify = False, wl_timer = False, wl_thread = False, wl_ctx = cx\<rparr>"

text \<open>The label \<open>fail\<close> of \<open>start\<close>, with three of the four bits of its mask; the pipe is always there.\<close>

definition start_fail :: "bool \<Rightarrow> bool \<Rightarrow> bool \<Rightarrow> worker_life \<Rightarrow> worker_life" where
  "start_fail m8 m4 m2 w =
     (let w = (if m8 then w\<lparr>wl_timer := False\<rparr> else w);
          w = (if m4 then w\<lparr>wl_notify := False\<rparr> else w);
          w = (if m2 then w\<lparr>wl_base := False\<rparr> else w)
      in w\<lparr>wl_pipe := False\<rparr>)"

text \<open>
  \<open>start\<close>: the pipe, its reading end not blocking, the event base, the two calls for the pipe's
  event, the two for the timer's, the thread.
\<close>

definition worker_start :: "bool list \<Rightarrow> worker_life \<Rightarrow> bool \<times> worker_life \<times> bool list" where
  "worker_start oks w = (if wl_base w then (True, w, oks)
     else (case attempts 1 oks of (False, r) \<Rightarrow> (False, w, r) | (True, r) \<Rightarrow> let w = w\<lparr>wl_pipe := True\<rparr> in
       (case attempts 2 r of (False, r) \<Rightarrow> (False, start_fail False False False w, r) | (True, r) \<Rightarrow> let w = w\<lparr>wl_base := True\<rparr> in
       (case attempts 2 r of (False, r) \<Rightarrow> (False, start_fail False False True w, r) | (True, r) \<Rightarrow> let w = w\<lparr>wl_notify := True\<rparr> in
       (case attempts 2 r of (False, r) \<Rightarrow> (False, start_fail False True True w, r) | (True, r) \<Rightarrow> let w = w\<lparr>wl_timer := True\<rparr> in
       (case attempts 1 r of (False, r) \<Rightarrow> (False, start_fail True True True w, r)
         | (True, r) \<Rightarrow> (True, w\<lparr>wl_thread := True\<rparr>, r)))))))"

text \<open>\<open>stop\<close>: the message to the thread, whose result is not looked at, then waiting for its end. The timer's event goes with the event base.\<close>

definition worker_stop :: "bool list \<Rightarrow> worker_life \<Rightarrow> bool \<times> worker_life \<times> bool list" where
  "worker_stop oks w = (if \<not> wl_base w then (True, w, oks)
     else (case attempts 1 oks of (_, r) \<Rightarrow> (case attempts 1 r of
         (False, r) \<Rightarrow> (False, w, r)
       | (True, r) \<Rightarrow> (True, w\<lparr>wl_thread := False, wl_notify := False, wl_timer := False, wl_base := False, wl_pipe := False\<rparr>, r))))"

text \<open>The constructor: the TLS context is made and set up, then the worker is started; a failure is an exception.\<close>

definition make_worker :: "ssl_info \<Rightarrow> nat \<Rightarrow> bool list \<Rightarrow> worker_life option \<times> bool list" where
  "make_worker ssl cpu oks = (case attempts 1 oks of (ctx_new, r) \<Rightarrow> (case new_ssl_ctx ctx_new of
      None \<Rightarrow> (None, r)
    | Some cx \<Rightarrow> (case init_ssl_ctx ssl r cx of
          (False, _, r) \<Rightarrow> (None, r)
        | (True, cx, r) \<Rightarrow> (case worker_start r (idle_life cpu cx) of (ok, w, r) \<Rightarrow> (if ok then Some w else None, r)))))"

section \<open>The server\<close>

record server =
  sv_conf :: config
  sv_base :: bool
  sv_workers :: "worker_life list"
  sv_last :: int
  sv_acceptors :: "acceptor list"
  sv_connector :: connector
  sv_codgram :: codgram
  sv_flow :: flow_grab
  sv_fd :: nat
  sv_oks :: "bool list"

text \<open>
  \<open>se_resolve\<close> is \<open>getaddrinfo\<close> for the server's address family: a host, or none for all addresses,
  and a port give a first address and further ones. \<open>se_cores\<close> is the number of processors.
\<close>

record server_env =
  se_cores :: int
  se_resolve :: "bytes option \<Rightarrow> int \<Rightarrow> (bytes \<times> bytes list) option"

definition sockaddr_family :: "bytes \<Rightarrow> family" where
  "sockaddr_family a = (if na_family a = AF_INET_VAL then AF_INET else if na_family a = AF_INET6_VAL then AF_INET6 else AF_OTHER)"

definition start_connector :: "server_env \<Rightarrow> server \<Rightarrow> (bool \<times> server) option" where
  "start_connector env s = (case se_resolve env (Some (cf_p2p_addr (sv_conf s))) (cf_p2p_port (sv_conf s)) of
      None \<Rightarrow> Some (False, s)
    | Some (a, _) \<Rightarrow> (case connector_open (sockaddr_family a) (sv_connector s) of
          None \<Rightarrow> None
        | Some (st, c) \<Rightarrow> Some (st \<noteq> failed, s\<lparr>sv_connector := c\<rparr>)))"

definition stop_connector :: "server \<Rightarrow> server" where
  "stop_connector s = s\<lparr>sv_connector := connector_close (sv_connector s)\<rparr>"

definition start_codgram :: "server_env \<Rightarrow> server \<Rightarrow> bool \<times> server" where
  "start_codgram env s = (case se_resolve env (Some (cf_disp_addr (sv_conf s))) (cf_disp_port (sv_conf s)) of
      None \<Rightarrow> (False, s)
    | Some (a, _) \<Rightarrow> (case codgram_open a (cf_interval_report (sv_conf s)) (sv_oks s) (sv_codgram s) of
          (ok, cg, r) \<Rightarrow> (ok, s\<lparr>sv_codgram := cg, sv_oks := r\<rparr>)))"

definition stop_codgram :: "server \<Rightarrow> server" where
  "stop_codgram s = s\<lparr>sv_codgram := codgram_close (sv_codgram s)\<rparr>"

text \<open>One worker for every processor but the first, at least one; those that cannot be made are left out.\<close>

definition worker_count :: "int \<Rightarrow> nat" where
  "worker_count cores = (let n = (if cores > 0 then cores - 1 else cores) in if n \<le> 0 then 1 else nat n)"

fun make_workers :: "ssl_info \<Rightarrow> nat \<Rightarrow> nat \<Rightarrow> bool list \<Rightarrow> worker_life list \<times> bool list" where
  "make_workers ssl i 0 oks = ([], oks)"
| "make_workers ssl i (Suc n) oks = (case make_worker ssl i oks of
      (w, r) \<Rightarrow> (case make_workers ssl (Suc i) n r of (ws, r) \<Rightarrow> ((case w of None \<Rightarrow> ws | Some w \<Rightarrow> w # ws), r)))"

definition start_workers :: "server_env \<Rightarrow> server \<Rightarrow> bool \<times> server" where
  "start_workers env s = (case make_workers (cf_ssl (sv_conf s)) 1 (worker_count (se_cores env)) (sv_oks s) of
      (ws, r) \<Rightarrow> let ws = sv_workers s @ ws in (ws \<noteq> [], s\<lparr>sv_workers := ws, sv_oks := r\<rparr>))"

fun delete_workers :: "bool list \<Rightarrow> worker_life list \<Rightarrow> bool list" where
  "delete_workers oks [] = oks"
| "delete_workers oks (w # ws) = (case worker_stop oks w of (_, _, r) \<Rightarrow> delete_workers r ws)"

definition stop_workers :: "server \<Rightarrow> server" where
  "stop_workers s = s\<lparr>sv_oks := delete_workers (sv_oks s) (sv_workers s), sv_workers := []\<rparr>"

text \<open>
  One listening socket for an address and port: the first of the addresses found on which it
  can be opened.
\<close>

fun first_acceptor :: "bool \<Rightarrow> bytes list \<Rightarrow> server \<Rightarrow> bool \<times> server" where
  "first_acceptor is_ssl_port [] s = (False, s)"
| "first_acceptor is_ssl_port (a # as) s = (case make_acceptor (sv_fd s) a is_ssl_port (sv_oks s) of
      (Some ac, r) \<Rightarrow> (True, s\<lparr>sv_acceptors := sv_acceptors s @ [ac], sv_fd := Suc (sv_fd s), sv_oks := r\<rparr>)
    | (None, r) \<Rightarrow> first_acceptor is_ssl_port as (s\<lparr>sv_oks := r\<rparr>))"

definition start_per_acceptor :: "server_env \<Rightarrow> bytes option \<Rightarrow> int \<Rightarrow> bool \<Rightarrow> server \<Rightarrow> bool \<times> server" where
  "start_per_acceptor env address port is_ssl_port s = (case se_resolve env address port of
      None \<Rightarrow> (False, s)
    | Some (a, as) \<Rightarrow> first_acceptor is_ssl_port (a # as) s)"

definition start_address :: "server_env \<Rightarrow> bytes \<Rightarrow> server \<Rightarrow> server" where
  "start_address env tok s =
     (let address = (if tok = ''*'' then None else Some tok);
          s = (if cf_port (sv_conf s) \<noteq> 0 then snd (start_per_acceptor env address (cf_port (sv_conf s)) False s) else s)
      in if si_port (cf_ssl (sv_conf s)) \<noteq> 0 then snd (start_per_acceptor env address (si_port (cf_ssl (sv_conf s))) True s) else s)"

text \<open>\<open>start_acceptors\<close> cuts the setting into tokens where it stands: what is left of it has NULs in it.\<close>

definition is_separator :: "char \<Rightarrow> bool" where
  "is_separator c \<longleftrightarrow> c = CHR '';'' \<or> c = CHR '',''"

definition start_acceptors :: "server_env \<Rightarrow> server \<Rightarrow> bool \<times> server" where
  "start_acceptors env s = (case strtok is_separator (cf_address (sv_conf s)) of
      (toks, buf) \<Rightarrow> let s = fold (start_address env) toks (s\<lparr>sv_conf := (sv_conf s)\<lparr>cf_address := buf\<rparr>\<rparr>) in (sv_acceptors s \<noteq> [], s))"

definition stop_acceptors :: "server \<Rightarrow> server" where
  "stop_acceptors s = s\<lparr>sv_acceptors := []\<rparr>"

definition enable_accept :: "bool \<Rightarrow> server \<Rightarrow> server" where
  "enable_accept is_accept s = s\<lparr>sv_acceptors := map (acceptor_enable is_accept) (sv_acceptors s)\<rparr>"

text \<open>\<open>start_flow_grab\<close> gives no device and a filter on the two ports.\<close>

definition flow_filter :: "config \<Rightarrow> bytes" where
  "flow_filter c = ''tcp src port '' @ dec_int (cf_port c) @ '' or '' @ dec_int (si_port (cf_ssl c))"

definition start_flow_grab :: "server \<Rightarrow> (bool \<times> server) option" where
  "start_flow_grab s = (case flow_start False True (sv_oks s) (sv_flow s) of
      None \<Rightarrow> None | Some (ok, fg, r) \<Rightarrow> Some (ok, s\<lparr>sv_flow := fg, sv_oks := r\<rparr>))"

definition limited :: "config \<Rightarrow> bool" where
  "limited c \<longleftrightarrow> cf_limit_flow c > 0 \<or> cf_limit_rate c > 0"

definition stop_flow_grab :: "server \<Rightarrow> server" where
  "stop_flow_grab s = (if limited (sv_conf s) then s\<lparr>sv_flow := flow_stop (sv_flow s)\<rparr> else s)"

section \<open>Starting and ending\<close>

text \<open>The label \<open>fail\<close> of \<open>init\<close>.\<close>

definition init_fail :: "bool \<Rightarrow> bool \<Rightarrow> bool \<Rightarrow> bool \<Rightarrow> server \<Rightarrow> server" where
  "init_fail m10 m8 m4 m2 s =
     (let s = (if m10 then stop_codgram s else s);
          s = (if m8 then stop_acceptors s else s);
          s = (if m4 then stop_workers s else s);
          s = (if m2 then stop_connector s else s)
      in s\<lparr>sv_base := False\<rparr>)"

definition init_flow :: "bool \<Rightarrow> bool \<Rightarrow> server \<Rightarrow> (bool \<times> server) option" where
  "init_flow m10 m2 s = (if limited (sv_conf s)
     then (case start_flow_grab s of
         None \<Rightarrow> None
       | Some (ok, s) \<Rightarrow> Some (if ok then (True, s) else (False, init_fail m10 True True m2 s)))
     else Some (True, s))"

definition init_codgram :: "server_env \<Rightarrow> bool \<Rightarrow> server \<Rightarrow> (bool \<times> server) option" where
  "init_codgram env m2 s = (if cf_disp_enable (sv_conf s) \<noteq> 0
     then (case start_codgram env s of
         (False, s) \<Rightarrow> Some (False, init_fail False True True m2 s)
       | (True, s) \<Rightarrow> init_flow True m2 s)
     else init_flow False m2 s)"

definition init_threads :: "server_env \<Rightarrow> bool \<Rightarrow> server \<Rightarrow> (bool \<times> server) option" where
  "init_threads env m2 s = (case start_workers env s of
      (False, s) \<Rightarrow> Some (False, init_fail False False False m2 s)
    | (True, s) \<Rightarrow> (case start_acceptors env s of
          (False, s) \<Rightarrow> Some (False, init_fail False False True m2 s)
        | (True, s) \<Rightarrow> init_codgram env m2 s))"

definition server_init :: "server_env \<Rightarrow> server \<Rightarrow> (bool \<times> server) option" where
  "server_init env s = (case attempts 1 (sv_oks s) of
      (False, r) \<Rightarrow> Some (False, s\<lparr>sv_oks := r\<rparr>)
    | (True, r) \<Rightarrow> let s = s\<lparr>sv_oks := r, sv_base := True\<rparr> in
        if cf_p2p_enable (sv_conf s) \<noteq> 0
        then (case start_connector env s of
            None \<Rightarrow> None
          | Some (False, s) \<Rightarrow> Some (False, init_fail False False False False s)
          | Some (True, s) \<Rightarrow> init_threads env True s)
        else init_threads env False s)"

text \<open>The end of \<open>run\<close>, after the event loop: everything is stopped, whether it was started or not.\<close>

definition server_end :: "server \<Rightarrow> server" where
  "server_end s = (stop_flow_grab (stop_codgram (stop_workers (stop_acceptors (stop_connector s)))))\<lparr>sv_base := False\<rparr>"

section \<open>All or nothing\<close>

text \<open>A worker that cannot be started has given back what it had, one that was started has everything.\<close>

definition life_down :: "worker_life \<Rightarrow> bool" where
  "life_down w \<longleftrightarrow> \<not> wl_base w \<and> \<not> wl_pipe w \<and> \<not> wl_notify w \<and> \<not> wl_timer w \<and> \<not> wl_thread w"

definition life_up :: "worker_life \<Rightarrow> bool" where
  "life_up w \<longleftrightarrow> wl_base w \<and> wl_pipe w \<and> wl_notify w \<and> wl_timer w \<and> wl_thread w"

theorem worker_start_all_or_nothing:
  assumes "life_down w" "worker_start oks w = (ok, w', r)"
  shows "if ok then life_up w' else life_down w'"
  using assms
  by (auto simp: worker_start_def start_fail_def life_down_def life_up_def Let_def split: prod.splits bool.splits)

theorem worker_start_all_or_nothing_witness:
  "\<exists>w r. worker_start [True, True, True, True, True, True, False] (idle_life 1 blank_ctx) = (False, w, r) \<and> life_down w"
proof -
  have down: "life_down (idle_life 1 blank_ctx)" by (simp add: life_down_def idle_life_def)
  obtain w r where run: "worker_start [True, True, True, True, True, True, False] (idle_life 1 blank_ctx) = (False, w, r)"
    by (simp add: worker_start_def idle_life_def numeral_2_eq_2 Let_def)
  with worker_start_all_or_nothing [OF down run] show ?thesis by auto
qed

text \<open>A connector that is down, and one that closing brings down.\<close>

definition ctor_down :: "connector \<Rightarrow> bool" where
  "ctor_down c \<longleftrightarrow> closed c \<and> \<not> ct_nt c \<and> \<not> ct_pipe_open c"

definition ctor_closable :: "connector \<Rightarrow> bool" where
  "ctor_closable c \<longleftrightarrow> closed c \<or> (\<exists>s. live_on s c)"

lemma ctor_close_down: "ctor_closable c \<Longrightarrow> ctor_down (connector_close c)"
  using closed_close_sock(1) [of c]
  by (simp add: ctor_closable_def ctor_down_def connector_close_def close_pipe_def closed_def)

lemma open_pipe_closed:
  assumes "open_pipe c = (ok, c')" "closed c" "\<not> ct_nt c" "\<not> ct_pipe_open c"
  shows "closed c'" "\<not> ok \<Longrightarrow> ctor_down c'"
  using assms
  by (auto simp: open_pipe_def call_def closed_def ctor_down_def Let_def split: list.splits if_splits)

lemma connector_open_closable:
  assumes "ctor_down c"
  shows "\<exists>st c'. connector_open af c = Some (st, c') \<and> ctor_closable c' \<and> (st = failed \<longrightarrow> ctor_down c')"
proof -
  obtain ok d where p: "open_pipe c = (ok, d)" by (cases "open_pipe c")
  have d: "closed d" "\<not> ok \<Longrightarrow> ctor_down d"
    using open_pipe_closed [OF p] assms by (simp_all add: ctor_down_def)
  obtain c' where c': "open_sock d = Some c'" "opened d c'" using opened_sock [OF d(1)] by blast
  from c'(2) have l: "ctor_closable c'" "ct_state c' \<noteq> failed"
    by (auto simp: opened_def ctor_closable_def closed_def live_on_def)
  show ?thesis using assms p c' l d by (auto simp: connector_open_def ctor_closable_def ctor_down_def)
qed

text \<open>The server with nothing running, and what a step of \<open>init\<close> leaves for the next.\<close>

definition server_down :: "server \<Rightarrow> bool" where
  "server_down s \<longleftrightarrow> \<not> sv_base s \<and> sv_workers s = [] \<and> sv_acceptors s = [] \<and> ctor_down (sv_connector s) \<and>
     \<not> cg_open (sv_codgram s) \<and> \<not> fg_open (sv_flow s)"

definition server_up :: "server \<Rightarrow> bool" where
  "server_up s \<longleftrightarrow> sv_base s \<and> sv_workers s \<noteq> [] \<and> sv_acceptors s \<noteq> [] \<and> ctor_closable (sv_connector s) \<and>
     (cf_disp_enable (sv_conf s) \<noteq> 0 \<longrightarrow> cg_open (sv_codgram s)) \<and> (limited (sv_conf s) \<longrightarrow> fg_open (sv_flow s))"

definition ctor_ok :: "bool \<Rightarrow> server \<Rightarrow> bool" where
  "ctor_ok m2 s \<longleftrightarrow> (if m2 then ctor_closable (sv_connector s) else ctor_down (sv_connector s))"

definition all_or_nothing :: "(bool \<times> server) option \<Rightarrow> bool" where
  "all_or_nothing r \<longleftrightarrow> (case r of None \<Rightarrow> False | Some (ok, s) \<Rightarrow> (if ok then server_up s else server_down s))"

lemma all_or_nothing_simps [simp]:
  "all_or_nothing (Some (True, s)) = server_up s" "all_or_nothing (Some (False, s)) = server_down s"
  by (simp_all add: all_or_nothing_def)

lemma all_or_nothingD:
  assumes "all_or_nothing r"
  shows "\<exists>ok s. r = Some (ok, s) \<and> (if ok then server_up s else server_down s)"
proof (cases r)
  case None
  then show ?thesis using assms by (simp add: all_or_nothing_def)
next
  case (Some x)
  then show ?thesis using assms unfolding all_or_nothing_def by (cases x) (simp del: split_paired_Ex)
qed

lemma codgram_close_down [simp]: "\<not> cg_open (codgram_close cg)"
  by (simp add: codgram_close_def)

lemma init_fail_down:
  assumes "ctor_ok m2 s" "\<not> fg_open (sv_flow s)" "m10 \<or> \<not> cg_open (sv_codgram s)"
    and "m8 \<or> sv_acceptors s = []" "m4 \<or> sv_workers s = []"
  shows "server_down (init_fail m10 m8 m4 m2 s)"
  using assms
  by (auto simp: init_fail_def server_down_def ctor_ok_def stop_codgram_def stop_acceptors_def stop_workers_def stop_connector_def
      ctor_close_down Let_def)

text \<open>What starting workers and acceptors leaves as it is.\<close>

definition same_parts :: "server \<Rightarrow> server \<Rightarrow> bool" where
  "same_parts s t \<longleftrightarrow> sv_base t = sv_base s \<and> sv_connector t = sv_connector s \<and> sv_codgram t = sv_codgram s \<and>
     sv_flow t = sv_flow s \<and> cf_disp_enable (sv_conf t) = cf_disp_enable (sv_conf s) \<and> limited (sv_conf t) = limited (sv_conf s) \<and>
     cf_port (sv_conf t) = cf_port (sv_conf s) \<and> si_port (cf_ssl (sv_conf t)) = si_port (cf_ssl (sv_conf s))"

lemma same_parts_trans [trans]: "same_parts s t \<Longrightarrow> same_parts t u \<Longrightarrow> same_parts s u"
  by (simp add: same_parts_def)

lemma same_parts_refl [simp]: "same_parts s s"
  by (simp add: same_parts_def)

lemma first_acceptor_same: "same_parts s (snd (first_acceptor p as s)) \<and> sv_workers (snd (first_acceptor p as s)) = sv_workers s"
proof (induction p as s rule: first_acceptor.induct)
  case (2 p a as s)
  then show ?case by (auto simp: same_parts_def split: prod.splits option.splits)
qed simp

lemma start_per_acceptor_same:
  "same_parts s (snd (start_per_acceptor env a p b s)) \<and> sv_workers (snd (start_per_acceptor env a p b s)) = sv_workers s"
  by (auto simp: start_per_acceptor_def first_acceptor_same simp del: first_acceptor.simps(2) split: option.splits)

lemma start_per_acceptor_keeps:
  assumes "same_parts s t \<and> sv_workers t = sv_workers s"
  shows "same_parts s (snd (start_per_acceptor env a p b t)) \<and> sv_workers (snd (start_per_acceptor env a p b t)) = sv_workers s"
  using assms start_per_acceptor_same [of t env a p b] same_parts_trans by auto

lemma start_address_same: "same_parts s (start_address env tok s) \<and> sv_workers (start_address env tok s) = sv_workers s"
  unfolding start_address_def Let_def by (simp add: start_per_acceptor_keeps)

lemma start_addresses_same:
  "same_parts s (fold (start_address env) toks s) \<and> sv_workers (fold (start_address env) toks s) = sv_workers s"
proof (induction toks arbitrary: s)
  case (Cons tok toks)
  then show ?case using start_address_same [of s env tok] same_parts_trans by fastforce
qed simp

lemma start_acceptors_same:
  assumes "start_acceptors env s = (ok, t)"
  shows "same_parts s t \<and> sv_workers t = sv_workers s \<and> ok = (sv_acceptors t \<noteq> [])"
proof -
  obtain toks buf where tb: "strtok is_separator (cf_address (sv_conf s)) = (toks, buf)" by (cases "strtok is_separator (cf_address (sv_conf s))")
  let ?s = "s\<lparr>sv_conf := (sv_conf s)\<lparr>cf_address := buf\<rparr>\<rparr>"
  have t: "t = fold (start_address env) toks ?s" "ok = (sv_acceptors t \<noteq> [])"
    using assms tb by (auto simp: start_acceptors_def Let_def)
  have "same_parts s ?s" by (simp add: same_parts_def limited_def)
  then show ?thesis using start_addresses_same [of ?s env toks] t same_parts_trans by auto
qed

lemma start_workers_same:
  assumes "start_workers env s = (ok, t)"
  shows "same_parts s t \<and> sv_acceptors t = sv_acceptors s \<and> ok = (sv_workers t \<noteq> [])"
  using assms by (auto simp: start_workers_def same_parts_def Let_def split: prod.splits)

text \<open>The steps of \<open>init\<close>, the last one first.\<close>

lemma init_flow_all_or_nothing:
  assumes "ctor_ok m2 s" "\<not> fg_open (sv_flow s)" "sv_base s" "sv_workers s \<noteq> []" "sv_acceptors s \<noteq> []"
    and "m10 = (cf_disp_enable (sv_conf s) \<noteq> 0)" "cg_open (sv_codgram s) = m10"
  shows "all_or_nothing (init_flow m10 m2 s)"
proof (cases "limited (sv_conf s)")
  case True
  obtain ok fg r where f: "flow_start False True (sv_oks s) (sv_flow s) = Some (ok, fg, r)" "fg_open fg = ok"
    using assms(2) by (fastforce simp: flow_start_def split: prod.splits bool.splits)
  then show ?thesis using assms True
    by (auto simp: init_flow_def start_flow_grab_def server_up_def ctor_ok_def ctor_down_def ctor_closable_def intro!: init_fail_down split: if_splits)
next
  case False
  then show ?thesis using assms by (auto simp: init_flow_def server_up_def ctor_ok_def ctor_down_def ctor_closable_def split: if_splits)
qed

lemma start_codgram_result:
  assumes "start_codgram env s = (ok, t)" "\<not> cg_open (sv_codgram s)"
  shows "cg_open (sv_codgram t) = ok \<and> sv_base t = sv_base s \<and> sv_workers t = sv_workers s \<and> sv_acceptors t = sv_acceptors s \<and>
    sv_connector t = sv_connector s \<and> sv_flow t = sv_flow s \<and> sv_conf t = sv_conf s"
proof (cases "se_resolve env (Some (cf_disp_addr (sv_conf s))) (cf_disp_port (sv_conf s))")
  case (Some ai)
  obtain k cg r where g: "codgram_open (fst ai) (cf_interval_report (sv_conf s)) (sv_oks s) (sv_codgram s) = (k, cg, r)"
    by (metis surj_pair)
  then have "cg_open cg = k" using assms(2) by (auto simp: codgram_open_def split: prod.splits bool.splits if_splits)
  then show ?thesis using assms Some g by (cases ai) (auto simp: start_codgram_def)
qed (use assms in \<open>auto simp: start_codgram_def\<close>)

lemma init_codgram_all_or_nothing:
  assumes "ctor_ok m2 s" "\<not> fg_open (sv_flow s)" "sv_base s" "sv_workers s \<noteq> []" "sv_acceptors s \<noteq> []" "\<not> cg_open (sv_codgram s)"
  shows "all_or_nothing (init_codgram env m2 s)"
proof (cases "cf_disp_enable (sv_conf s) = 0")
  case False
  obtain ok t where t: "start_codgram env s = (ok, t)" by (cases "start_codgram env s")
  note r = start_codgram_result [OF t assms(6)]
  show ?thesis
  proof (cases ok)
    case True
    then show ?thesis using assms r t False by (auto simp: init_codgram_def ctor_ok_def intro!: init_flow_all_or_nothing)
  next
    case no: False
    then show ?thesis using assms r t False by (auto simp: init_codgram_def ctor_ok_def intro!: init_fail_down)
  qed
qed (use assms in \<open>auto simp: init_codgram_def intro!: init_flow_all_or_nothing\<close>)

lemma init_threads_all_or_nothing:
  assumes "ctor_ok m2 s" "\<not> fg_open (sv_flow s)" "sv_base s" "sv_workers s = []" "sv_acceptors s = []" "\<not> cg_open (sv_codgram s)"
  shows "all_or_nothing (init_threads env m2 s)"
proof -
  obtain ok t where w: "start_workers env s = (ok, t)" by (cases "start_workers env s")
  obtain ok2 u where a: "start_acceptors env t = (ok2, u)" by (cases "start_acceptors env t")
  note ws = start_workers_same [OF w] and as = start_acceptors_same [OF a]
  have t: "ctor_ok m2 t" "\<not> fg_open (sv_flow t)" "sv_base t" "sv_acceptors t = []" "\<not> cg_open (sv_codgram t)" "ok = (sv_workers t \<noteq> [])"
    using ws assms by (auto simp: same_parts_def ctor_ok_def)
  have u: "ctor_ok m2 u" "\<not> fg_open (sv_flow u)" "sv_base u" "\<not> cg_open (sv_codgram u)" "sv_workers u = sv_workers t" "ok2 = (sv_acceptors u \<noteq> [])"
    using as t by (auto simp: same_parts_def ctor_ok_def)
  show ?thesis
    using w a t u by (cases ok; cases ok2) (auto simp: init_threads_def intro!: init_codgram_all_or_nothing init_fail_down)
qed

lemma start_connector_result:
  assumes "ctor_down (sv_connector s)"
  shows "\<exists>ok c. start_connector env s = Some (ok, s\<lparr>sv_connector := c\<rparr>) \<and> (if ok then ctor_closable c else ctor_down c)"
proof (cases "se_resolve env (Some (cf_p2p_addr (sv_conf s))) (cf_p2p_port (sv_conf s))")
  case None
  then have "start_connector env s = Some (False, s\<lparr>sv_connector := sv_connector s\<rparr>)" by (simp add: start_connector_def)
  with assms show ?thesis by (metis (full_types))
next
  case (Some ai)
  obtain st c' where c': "connector_open (sockaddr_family (fst ai)) (sv_connector s) = Some (st, c')" "ctor_closable c'" "st = failed \<longrightarrow> ctor_down c'"
    using connector_open_closable [OF assms] by blast
  have "start_connector env s = Some (st \<noteq> failed, s\<lparr>sv_connector := c'\<rparr>)"
    using Some c'(1) by (cases ai) (simp add: start_connector_def)
  then show ?thesis using c'(2,3) by (metis (full_types))
qed

lemma server_init_cases:
  assumes "server_down s"
  shows "\<exists>ok t. server_init env s = Some (ok, t) \<and> (if ok then server_up t else server_down t)"
proof -
  obtain b r where b: "attempts 1 (sv_oks s) = (b, r)" by (cases "attempts 1 (sv_oks s)")
  let ?s = "s\<lparr>sv_oks := r, sv_base := True\<rparr>"
  have d: "ctor_down (sv_connector ?s)" using assms by (simp add: server_down_def)
  obtain ok c where c: "start_connector env ?s = Some (ok, ?s\<lparr>sv_connector := c\<rparr>)" "if ok then ctor_closable c else ctor_down c"
    using start_connector_result [OF d] by blast
  let ?t = "?s\<lparr>sv_connector := c\<rparr>"
  have t: "\<not> fg_open (sv_flow ?t)" "sv_base ?t" "sv_workers ?t = []" "sv_acceptors ?t = []" "\<not> cg_open (sv_codgram ?t)" "ctor_ok ok ?t"
    using assms c(2) by (simp_all add: server_down_def ctor_ok_def split: if_splits)
  have "all_or_nothing (server_init env s)"
  proof (cases b)
    case True
    have "all_or_nothing (init_threads env False ?s)"
      using assms by (intro init_threads_all_or_nothing) (auto simp: server_down_def ctor_ok_def)
    moreover have "all_or_nothing (init_threads env True ?t)" if ok
      using that t by (intro init_threads_all_or_nothing) auto
    moreover have "server_down (init_fail False False False False ?t)" if "\<not> ok"
      using that t by (intro init_fail_down) auto
    ultimately show ?thesis using True b c(1) by (cases ok) (simp_all add: server_init_def Let_def)
  next
    case False
    then show ?thesis using assms b by (simp add: server_init_def server_down_def)
  qed
  then show ?thesis by (rule all_or_nothingD)
qed


text \<open>
  \<open>run\<close> gives everything back, with the limits as they are at the end: a flow grab that was started
  keeps its handle when both limits have been set to zero by then.
\<close>

theorem server_end_releases:
  assumes "ctor_closable (sv_connector s)" "fg_open (sv_flow s) \<longrightarrow> limited (sv_conf s)"
  shows "server_down (server_end s)"
  using assms
  by (auto simp: server_end_def server_down_def stop_flow_grab_def flow_stop_def stop_codgram_def stop_workers_def stop_acceptors_def
      stop_connector_def ctor_close_down limited_def)

text \<open>The processors: with a single one there is one worker, otherwise one is left to the main thread.\<close>

lemma worker_count_positive: "0 < worker_count n"
  by (simp add: worker_count_def Let_def)

lemma limits_gone_leave_capture:
  "fg_open (sv_flow s) \<Longrightarrow> \<not> limited (sv_conf s) \<Longrightarrow> fg_open (sv_flow (server_end s))"
  by (simp add: server_end_def stop_flow_grab_def stop_codgram_def stop_workers_def stop_acceptors_def stop_connector_def limited_def)

text \<open>Of the settings, \<open>init\<close> changes the text of the addresses, which keeps its length.\<close>

definition same_settings :: "server \<Rightarrow> server \<Rightarrow> bool" where
  "same_settings s t \<longleftrightarrow> (\<exists>a. sv_conf t = (sv_conf s)\<lparr>cf_address := a\<rparr> \<and> length a = length (cf_address (sv_conf s)))"

lemma same_settings_same: "sv_conf t = sv_conf s \<Longrightarrow> same_settings s t"
  unfolding same_settings_def by (rule exI [of _ "cf_address (sv_conf s)"]) simp

lemma same_settings_refl [simp]: "same_settings s s"
  by (rule same_settings_same) simp

lemma same_settings_after: "sv_conf t = sv_conf s \<Longrightarrow> same_settings s u = same_settings t u"
  by (simp add: same_settings_def)

lemma init_fail_conf [simp]: "sv_conf (init_fail m10 m8 m4 m2 s) = sv_conf s"
  by (simp add: init_fail_def stop_codgram_def stop_acceptors_def stop_workers_def stop_connector_def Let_def)

lemma strtok_length: "length (snd (strtok delim s)) = length s"
proof (induction delim s rule: strtok.induct)
  case (1 delim s)
  let ?t = "dropWhile delim s"
  let ?r = "dropWhile (\<lambda>c. \<not> delim c) ?t"
  have s: "length s = length (takeWhile delim s) + length (takeWhile (\<lambda>c. \<not> delim c) ?t) + length ?r"
    by (metis add.assoc length_append takeWhile_dropWhile_id)
  show ?case
  proof (cases ?r)
    case Nil
    then show ?thesis using s by (subst strtok.simps) (simp add: Let_def del: dropWhile_eq_Nil_conv)
  next
    case (Cons c r')
    then have t: "?t \<noteq> []" by (metis dropWhile.simps(1) list.distinct(1))
    have "length (snd (strtok delim r')) = length r'" using 1 t Cons by blast
    then show ?thesis using s t Cons by (cases "strtok delim r'") (subst strtok.simps, simp add: Let_def del: dropWhile_eq_Nil_conv)
  qed
qed

lemma first_acceptor_conf: "sv_conf (snd (first_acceptor p as s)) = sv_conf s"
proof (induction p as s rule: first_acceptor.induct)
  case (2 p a as s)
  then show ?case by (auto split: prod.splits option.splits)
qed simp

lemma start_per_acceptor_conf [simp]: "sv_conf (snd (start_per_acceptor env a p b s)) = sv_conf s"
  by (auto simp: start_per_acceptor_def first_acceptor_conf simp del: first_acceptor.simps(2) split: option.splits)

lemma start_addresses_conf: "sv_conf (fold (start_address env) toks s) = sv_conf s"
  by (induction toks arbitrary: s) (simp_all add: start_address_def Let_def)

lemma start_acceptors_settings: "start_acceptors env s = (ok, t) \<Longrightarrow> same_settings s t"
  using strtok_length [of is_separator "cf_address (sv_conf s)"]
  by (auto simp: start_acceptors_def start_addresses_conf same_settings_def Let_def split: prod.splits)

lemma start_workers_conf: "start_workers env s = (ok, t) \<Longrightarrow> sv_conf t = sv_conf s"
  by (auto simp: start_workers_def Let_def split: prod.splits)

lemma init_flow_conf: "init_flow m10 m2 s = Some (ok, t) \<Longrightarrow> sv_conf t = sv_conf s"
  by (auto simp: init_flow_def start_flow_grab_def split: if_splits option.splits prod.splits)

lemma start_codgram_conf: "start_codgram env s = (ok, t) \<Longrightarrow> sv_conf t = sv_conf s"
  by (auto simp: start_codgram_def split: option.splits prod.splits)

lemma init_codgram_conf: "init_codgram env m2 s = Some (ok, t) \<Longrightarrow> sv_conf t = sv_conf s"
  using start_codgram_conf [of env s "fst (start_codgram env s)" "snd (start_codgram env s)"]
  by (cases "start_codgram env s"; cases "fst (start_codgram env s)")
    (auto simp: init_codgram_def dest: init_flow_conf split: if_splits)

lemma init_threads_settings:
  assumes "init_threads env m2 s = Some (ok, t)"
  shows "same_settings s t"
proof -
  obtain ok1 u where w: "start_workers env s = (ok1, u)" by (cases "start_workers env s")
  obtain ok2 v where a: "start_acceptors env u = (ok2, v)" by (cases "start_acceptors env u")
  have uv: "sv_conf u = sv_conf s" "same_settings u v" by (rule start_workers_conf [OF w], rule start_acceptors_settings [OF a])
  have "sv_conf t = sv_conf u \<or> sv_conf t = sv_conf v"
    using assms w a by (auto simp: init_threads_def dest: init_codgram_conf split: bool.splits)
  then show ?thesis
  proof
    assume "sv_conf t = sv_conf v"
    with uv show ?thesis by (simp add: same_settings_def)
  qed (rule same_settings_same, simp add: uv(1))
qed

lemma start_connector_conf: "start_connector env s = Some (ok, t) \<Longrightarrow> sv_conf t = sv_conf s"
  by (auto simp: start_connector_def split: option.splits prod.splits)

lemma server_init_settings:
  assumes "server_init env s = Some (ok, t)"
  shows "same_settings s t"
proof -
  obtain b r where b: "attempts 1 (sv_oks s) = (b, r)" by (cases "attempts 1 (sv_oks s)")
  let ?s = "s\<lparr>sv_oks := r, sv_base := True\<rparr>"
  consider "sv_conf t = sv_conf s" | u m2 where "sv_conf u = sv_conf s" "init_threads env m2 u = Some (ok, t)"
  proof (cases "b \<and> cf_p2p_enable (sv_conf s) \<noteq> 0")
    case True
    then obtain k u where u: "start_connector env ?s = Some (k, u)"
      using assms b by (cases "start_connector env ?s") (auto simp: server_init_def Let_def)
    have "sv_conf u = sv_conf s" using start_connector_conf [OF u] by simp
    then show ?thesis using that assms b u True by (cases k) (auto simp: server_init_def Let_def)
  next
    case False
    then show ?thesis using that(1) that(2) [of ?s False] assms b by (cases b) (auto simp: server_init_def Let_def)
  qed
  then show ?thesis
  proof cases
    case 1
    then show ?thesis by (rule same_settings_same)
  next
    case 2
    then show ?thesis using init_threads_settings [OF 2(2)] same_settings_after [OF 2(1)] by simp
  qed
qed

section \<open>What is listened on\<close>

text \<open>
  What \<open>address\<close> and the two ports ask for: for every part of the setting, and each port that is not
  zero, the first address the resolver finds that is of a family a socket is made for.
\<close>

definition inet_addr :: "bytes \<Rightarrow> bool" where
  "inet_addr a \<longleftrightarrow> na_family a = AF_INET_VAL \<or> na_family a = AF_INET6_VAL"

definition wanted_socket :: "server_env \<Rightarrow> bytes option \<Rightarrow> int \<Rightarrow> bool \<Rightarrow> (bytes \<times> bool) list" where
  "wanted_socket env address port is_ssl_port =
     (if port = 0 then []
      else (case se_resolve env address port of
          None \<Rightarrow> []
        | Some (a, as) \<Rightarrow> (case find inet_addr (a # as) of None \<Rightarrow> [] | Some x \<Rightarrow> [(x, is_ssl_port)])))"

definition wanted_sockets :: "server_env \<Rightarrow> config \<Rightarrow> bytes \<Rightarrow> (bytes \<times> bool) list" where
  "wanted_sockets env c tok =
     (let address = (if tok = ''*'' then None else Some tok)
      in wanted_socket env address (cf_port c) False @ wanted_socket env address (si_port (cf_ssl c)) True)"

definition listening :: "server \<Rightarrow> (bytes \<times> bool) list" where
  "listening s = map (\<lambda>ac. (ac_addr ac, ac_ssl ac)) (sv_acceptors s)"

lemma make_acceptor_all_ok:
  "make_acceptor fd a p [] =
     (if inet_addr a then Some \<lparr>ac_accept = True, ac_ssl = p, ac_sock = Some fd, ac_event = True, ac_addr = a\<rparr> else None, [])"
  by (simp add: make_acceptor_def acceptor_open_def new_acceptor_def inet_addr_def)

lemma first_acceptor_listening:
  assumes "sv_oks s = []"
  shows "listening (snd (first_acceptor p as s)) = listening s @ (case find inet_addr as of None \<Rightarrow> [] | Some x \<Rightarrow> [(x, p)])
    \<and> sv_oks (snd (first_acceptor p as s)) = []"
  using assms
proof (induction as arbitrary: s)
  case (Cons a as)
  show ?case
  proof (cases "inet_addr a")
    case True
    then show ?thesis using Cons.prems by (simp add: make_acceptor_all_ok listening_def)
  next
    case False
    then show ?thesis using Cons by (simp add: make_acceptor_all_ok) (simp add: listening_def)
  qed
qed simp

lemma start_per_acceptor_listening:
  assumes "sv_oks s = []" "port \<noteq> 0"
  shows "listening (snd (start_per_acceptor env a port p s)) = listening s @ wanted_socket env a port p
    \<and> sv_oks (snd (start_per_acceptor env a port p s)) = []"
  using assms first_acceptor_listening [OF assms(1)]
  by (auto simp: start_per_acceptor_def wanted_socket_def simp del: first_acceptor.simps find.simps split: option.splits)

lemma wanted_no_port [simp]: "wanted_socket env a 0 p = []"
  by (simp add: wanted_socket_def)

lemma start_address_listening:
  assumes "sv_oks s = []"
  shows "listening (start_address env tok s) = listening s @ wanted_sockets env (sv_conf s) tok \<and> sv_oks (start_address env tok s) = []"
proof -
  let ?a = "if tok = ''*'' then None else Some tok"
  let ?s = "if cf_port (sv_conf s) \<noteq> 0 then snd (start_per_acceptor env ?a (cf_port (sv_conf s)) False s) else s"
  have same: "same_parts s ?s" using start_per_acceptor_same by simp
  have one: "listening ?s = listening s @ wanted_socket env ?a (cf_port (sv_conf s)) False \<and> sv_oks ?s = []"
    using assms start_per_acceptor_listening [OF assms] by (cases "cf_port (sv_conf s) = 0") simp_all
  have two: "start_address env tok s = (if si_port (cf_ssl (sv_conf s)) \<noteq> 0 then snd (start_per_acceptor env ?a (si_port (cf_ssl (sv_conf s))) True ?s) else ?s)"
    using same by (simp only: start_address_def Let_def same_parts_def)
  show ?thesis unfolding two using one start_per_acceptor_listening [where s = ?s and p = True and env = env and a = ?a]
    by (cases "si_port (cf_ssl (sv_conf s)) = 0") (simp_all add: wanted_sockets_def Let_def)
qed

lemma wanted_same: "same_parts s t \<Longrightarrow> wanted_sockets env (sv_conf t) tok = wanted_sockets env (sv_conf s) tok"
  by (simp add: wanted_sockets_def same_parts_def)

lemma start_addresses_listening:
  assumes "sv_oks s = []"
  shows "listening (fold (start_address env) toks s) = listening s @ concat (map (wanted_sockets env (sv_conf s)) toks)"
  using assms
proof (induction toks arbitrary: s)
  case (Cons tok toks)
  have "same_parts s (start_address env tok s)" using start_address_same by blast
  then have "wanted_sockets env (sv_conf (start_address env tok s)) = wanted_sockets env (sv_conf s)" using wanted_same by blast
  then show ?case using Cons start_address_listening [OF Cons.prems, of env tok] by simp
qed simp


section \<open>Examples\<close>

definition idle_server :: "config \<Rightarrow> server" where
  "idle_server c = \<lparr>sv_conf = c, sv_base = False, sv_workers = [], sv_last = - 1, sv_acceptors = [], sv_connector = new_connector,
     sv_codgram = new_codgram 0, sv_flow = new_flow_grab, sv_fd = 3, sv_oks = []\<rparr>"

lemma idle_server_down: "server_down (idle_server c)"
  by (simp add: server_down_def idle_server_def ctor_down_def closed_def new_connector_def new_codgram_def new_flow_grab_def)


definition busy_server :: server where
  "busy_server = (idle_server (blank_config\<lparr>cf_limit_flow := 100\<rparr>))
     \<lparr>sv_base := True, sv_workers := [idle_life 1 blank_ctx], sv_acceptors := [new_acceptor True], sv_connector := first_open,
      sv_codgram := (new_codgram 0)\<lparr>cg_open := True\<rparr>, sv_flow := \<lparr>fg_bytes = 5, fg_open = True, fg_event = True\<rparr>\<rparr>"

theorem server_end_releases_witness:
  "server_down (server_end busy_server)"
proof (rule server_end_releases)
  show "ctor_closable (sv_connector busy_server)"
    by (simp add: busy_server_def idle_server_def ctor_closable_def live_on_def first_open_def new_connector_def)
  show "fg_open (sv_flow busy_server) \<longrightarrow> limited (sv_conf busy_server)"
    by (simp add: busy_server_def idle_server_def limited_def)
qed

text \<open>Two addresses and one port for clear text, one of them unknown to the resolver.\<close>

definition one_name :: "bytes option \<Rightarrow> int \<Rightarrow> (bytes \<times> bytes list) option" where
  "one_name host port = (if host = Some ''a'' then Some ([CHR 0x0A, NUL, CHR 0x50], []) else None)"

definition two_addresses :: config where
  "two_addresses = blank_config\<lparr>cf_address := ''b;a'', cf_port := 80\<rparr>"

lemma two_tokens: "strtok is_separator ''b;a'' = ([''b'', ''a''], ''b'' @ NUL # ''a'')"
  by (subst strtok.simps, subst strtok.simps) (simp add: is_separator_def Let_def)


end
