(* ===== verification/Io_Ext.thy ===== *)
theory Io_Ext
  imports Prelude
begin

text \<open>
  Reading and writing a whole number of bytes, \<open>ipc/io_ext.h\<close> and \<open>ipc/io_ext.cpp\<close>. What the
  system calls return is a list of outcomes; when it is used up the next call fails. The
  result has what the function returns, the number it leaves in \<open>*tran\<close> and the bytes that
  went over. The program does not use \<open>readvn\<close>.
\<close>

section \<open>Reading\<close>

datatype rd = Rd bytes | Rd_eof | Rd_error

record io_result =
  io_ok :: bool
  io_tran :: "int option"
  io_bytes :: bytes

text \<open>One read of at most \<open>left\<close> bytes; what was not taken stays for the next one.\<close>

fun readn_loop :: "nat \<Rightarrow> nat \<Rightarrow> bytes \<Rightarrow> rd list \<Rightarrow> io_result \<times> rd list" where
  "readn_loop cnt left got rds =
     (if left = 0 then (\<lparr>io_ok = True, io_tran = Some (int cnt), io_bytes = got\<rparr>, rds)
      else (case rds of
          Rd bs # rest \<Rightarrow>
            (if bs = [] then (\<lparr>io_ok = False, io_tran = Some (int (cnt - left)), io_bytes = got\<rparr>, rest)
             else if length bs \<le> left then readn_loop cnt (left - length bs) (got @ bs) rest
             else (\<lparr>io_ok = True, io_tran = Some (int cnt), io_bytes = got @ take left bs\<rparr>, Rd (drop left bs) # rest))
        | Rd_eof # rest \<Rightarrow> (\<lparr>io_ok = False, io_tran = Some (int (cnt - left)), io_bytes = got\<rparr>, rest)
        | _ \<Rightarrow> (if left \<noteq> cnt then \<lparr>io_ok = False, io_tran = Some (int (cnt - left)), io_bytes = got\<rparr>
                else \<lparr>io_ok = False, io_tran = Some (-1), io_bytes = got\<rparr>, tl rds)))"

declare readn_loop.simps [simp del]

definition readn :: "nat \<Rightarrow> rd list \<Rightarrow> io_result \<times> rd list" where
  "readn cnt rds = readn_loop cnt cnt [] rds"

fun rd_stream :: "rd list \<Rightarrow> bytes" where
  "rd_stream (Rd bs # rest) = bs @ rd_stream rest"
| "rd_stream _ = []"

lemma readn_loop_sound:
  assumes "readn_loop cnt left got rds = (r, rest)" "length got + left = cnt"
  shows "io_ok r \<Longrightarrow> io_bytes r = got @ take left (rd_stream rds) \<and> length (io_bytes r) = cnt \<and> rd_stream rds = take left (rd_stream rds) @ rd_stream rest"
    and "io_tran r = Some (-1) \<or> io_tran r = Some (int (length (io_bytes r)))"
  using assms
proof (induction cnt left got rds rule: readn_loop.induct)
  case (1 cnt left got rds)
  {
    case 1
    note prems = this
    show ?case
    proof (cases "left = 0")
      case True
      then show ?thesis using prems by (auto simp: readn_loop.simps)
    next
      case False
      show ?thesis
      proof (cases rds)
        case Nil
        then show ?thesis using prems False by (auto simp: readn_loop.simps split: if_splits)
      next
        case (Cons d rest')
        show ?thesis
        proof (cases d)
          case (Rd bs)
          show ?thesis
          proof (cases "bs \<noteq> [] \<and> length bs \<le> left")
            case True
            then have "readn_loop cnt (left - length bs) (got @ bs) rest' = (r, rest)"
              using prems(2) False Cons Rd by (subst (asm) readn_loop.simps) simp
            from "1.IH"(1) [OF False Cons Rd _ _ prems(1) this] True prems(3) show ?thesis
              using Cons Rd by auto
          next
            case no: False
            then show ?thesis using prems False Cons Rd by (auto simp: readn_loop.simps split: if_splits)
          qed
        qed (use prems False Cons in \<open>auto simp: readn_loop.simps split: if_splits\<close>)
      qed
    qed
  next
    case 2
    note prems = this
    show ?case
    proof (cases "left = 0 \<or> rds = []")
      case True
      then show ?thesis using prems by (auto simp: readn_loop.simps split: if_splits)
    next
      case False
      then obtain d rest' where Cons: "rds = d # rest'" by (cases rds) auto
      show ?thesis
      proof (cases d)
        case (Rd bs)
        show ?thesis
        proof (cases "bs \<noteq> [] \<and> length bs \<le> left")
          case True
          then have "readn_loop cnt (left - length bs) (got @ bs) rest' = (r, rest)"
            using prems(1) False Cons Rd by (subst (asm) readn_loop.simps) simp
          from "1.IH"(2) [OF _ Cons Rd _ _ this] True False prems(2) show ?thesis by auto
        next
          case no: False
          then show ?thesis using prems False Cons Rd by (auto simp: readn_loop.simps split: if_splits)
        qed
      qed (use prems False Cons in \<open>auto simp: readn_loop.simps split: if_splits\<close>)
    qed
  }
qed

text \<open>When \<open>readn\<close> returns true it has read exactly the next \<open>cnt\<close> bytes, whatever sizes the reads had.\<close>

lemma readn_exact:
  assumes "readn cnt rds = (r, rest)" "io_ok r"
  shows "length (io_bytes r) = cnt" "rd_stream rds = io_bytes r @ rd_stream rest"
  using readn_loop_sound(1) [of cnt cnt "[]" rds r rest] assms by (auto simp: readn_def)

section \<open>Writing\<close>

text \<open>The system takes at most the given number of bytes, or the call fails.\<close>

datatype wr = Wr nat | Wr_error

text \<open>
  \<open>writen\<close>: its last \<open>else\<close> has no braces, so that \<open>return false\<close> is the last statement of the
  loop: after the first write the function returns, and \<open>*tran\<close> is left alone unless the write
  failed or took nothing. The loop is never entered twice.
\<close>

definition writen :: "bytes \<Rightarrow> wr list \<Rightarrow> io_result \<times> wr list" where
  "writen buf ws = (if buf = [] then (\<lparr>io_ok = True, io_tran = Some 0, io_bytes = []\<rparr>, ws)
     else (case ws of
         Wr n # rest \<Rightarrow> (if n = 0 then \<lparr>io_ok = False, io_tran = Some 0, io_bytes = []\<rparr>
                         else \<lparr>io_ok = False, io_tran = None, io_bytes = take n buf\<rparr>, rest)
       | _ \<Rightarrow> (\<lparr>io_ok = False, io_tran = Some (-1), io_bytes = []\<rparr>, tl ws)))"

text \<open>
  \<open>writen\<close> never succeeds on anything but nothing, and where the write took something the
  number of bytes written is not stored: callers read an uninitialised variable.
\<close>

theorem writen_never_succeeds:
  assumes "writen buf ws = (r, rest)"
  shows "(io_ok r \<longleftrightarrow> buf = []) \<and> (buf \<noteq> [] \<and> io_bytes r \<noteq> [] \<longrightarrow> io_tran r = None)"
  using assms by (auto simp: writen_def split: if_splits list.splits wr.splits)

theorem writen_never_succeeds_witness:
  "\<not> io_ok (fst (writen ''log'' [Wr 3])) \<and> io_bytes (fst (writen ''log'' [Wr 3])) = ''log'' \<and> io_tran (fst (writen ''log'' [Wr 3])) = None"
  using writen_never_succeeds [of "''log''" "[Wr 3]"] by (auto simp: writen_def)

definition IOV_MAX :: nat where "IOV_MAX = 1024"

text \<open>\<open>get_iov_tran_index\<close>: the vector the next byte is in, and how much of it is gone.\<close>

fun iov_index_loop :: "bytes list \<Rightarrow> nat \<Rightarrow> nat \<Rightarrow> nat \<Rightarrow> nat \<times> nat" where
  "iov_index_loop [] tr cnt i = (i, 0)"
| "iov_index_loop (v # vs) tr cnt i =
     (if tr < cnt + length v then (i, length v - (cnt + length v - tr))
      else iov_index_loop vs tr (cnt + length v) (i + 1))"

definition get_iov_tran_index :: "bytes list \<Rightarrow> nat \<Rightarrow> nat \<times> nat" where
  "get_iov_tran_index iov tr = iov_index_loop iov tr 0 0"

text \<open>
  The loop of \<open>writevn\<close>: the vectors \<open>vs\<close>, copied from \<open>iov\<close>, from the index \<open>i\<close> on. No result
  when the assertion on the index fails.
\<close>

fun writevn_loop :: "bytes list \<Rightarrow> bytes list \<Rightarrow> nat \<Rightarrow> bytes \<Rightarrow> wr list \<Rightarrow> (io_result \<times> wr list) option" where
  "writevn_loop iov vs i out (Wr n # ws) =
     (let d = take n (concat (drop i vs)); out' = out @ d; all_cnt = length (concat iov) in
      if d = [] then Some (\<lparr>io_ok = (length out = all_cnt), io_tran = Some (int (length out)), io_bytes = out\<rparr>, ws)
      else if length out' = all_cnt then Some (\<lparr>io_ok = True, io_tran = Some (int all_cnt), io_bytes = out'\<rparr>, ws)
      else (case get_iov_tran_index iov (length out') of (j, one_tran) \<Rightarrow>
        if j < length iov then writevn_loop iov (vs[j := drop one_tran (iov ! j)]) j out' ws else None))"
| "writevn_loop iov vs i out ws = Some (\<lparr>io_ok = False, io_tran = Some (-1), io_bytes = out\<rparr>, tl ws)"

definition writevn :: "bytes list \<Rightarrow> wr list \<Rightarrow> (io_result \<times> wr list) option" where
  "writevn iov ws = (if IOV_MAX < length iov then Some (\<lparr>io_ok = False, io_tran = Some (-1), io_bytes = []\<rparr>, ws)
     else writevn_loop iov iov 0 [] ws)"

lemma iov_index_sound:
  assumes "cnt \<le> tr" "tr < cnt + length (concat vs)"
  shows "case iov_index_loop vs tr cnt i of (j, t) \<Rightarrow> \<exists>k. j = i + k \<and> k < length vs \<and> t < length (vs ! k)
     \<and> tr = cnt + length (concat (take k vs)) + t"
  using assms
proof (induction vs arbitrary: cnt i)
  case (Cons v vs)
  show ?case
  proof (cases "tr < cnt + length v")
    case True
    then show ?thesis using Cons.prems by (auto intro!: exI [of _ 0])
  next
    case False
    then have "case iov_index_loop vs tr (cnt + length v) (i + 1) of (j, t) \<Rightarrow> \<exists>k. j = i + 1 + k \<and> k < length vs \<and> t < length (vs ! k)
      \<and> tr = cnt + length v + length (concat (take k vs)) + t"
      using Cons.prems by (intro Cons.IH) simp_all
    then obtain j t k where "iov_index_loop vs tr (cnt + length v) (i + 1) = (j, t)" "j = i + 1 + k" "k < length vs"
      "t < length (vs ! k)" "tr = cnt + length v + length (concat (take k vs)) + t" by (auto split: prod.splits)
    with False show ?thesis by (auto intro!: exI [of _ "Suc k"])
  qed
qed simp

lemma get_iov_tran_index_sound:
  assumes "tr < length (concat iov)" "get_iov_tran_index iov tr = (j, t)"
  shows "j < length iov" "drop tr (concat iov) = drop t (iov ! j) @ concat (drop (Suc j) iov)"
    and "length (concat (take j iov)) \<le> tr" "tr < length (concat (take (Suc j) iov))"
proof -
  have j: "j < length iov" "t < length (iov ! j)" "tr = length (concat (take j iov)) + t"
    using iov_index_sound [of 0 tr iov 0] assms by (auto simp: get_iov_tran_index_def)
  have "concat iov = concat (take j iov) @ iov ! j @ concat (drop (Suc j) iov)"
    by (metis j(1) concat.simps(2) concat_append id_take_nth_drop)
  then show "drop tr (concat iov) = drop t (iov ! j) @ concat (drop (Suc j) iov)"
    using j(2,3) by (simp add: drop_append)
  show "j < length iov" by (rule j(1))
  show "length (concat (take j iov)) \<le> tr" using j(3) by simp
  show "tr < length (concat (take (Suc j) iov))" using j by (simp add: take_Suc_conv_app_nth)
qed

lemma drop_list_update_same: "j < length vs \<Longrightarrow> drop j (vs[j := x]) = x # drop (Suc j) vs"
  by (simp add: Cons_nth_drop_Suc [symmetric])

lemma take_snoc_prefix:
  assumes "out = take (length out) xs" "ys = drop (length out) xs"
  shows "out @ take n ys = take (length (out @ take n ys)) xs"
  using assms by (metis append_eq_conv_conj append_take_drop_id length_take take_add take_all_iff min.absorb2 nle_le length_append take_take)

lemma concat_take_mono: "i \<le> j \<Longrightarrow> length (concat (take i vs)) \<le> length (concat (take j vs))"
  by (metis concat_append le_add1 length_append take_add le_iff_add)

lemma writevn_loop_sound:
  assumes "length vs = length iov" "concat (drop i vs) = drop (length out) (concat iov)" "out = take (length out) (concat iov)"
    and "\<forall>k > i. k < length vs \<longrightarrow> vs ! k = iov ! k" "length (concat (take i iov)) \<le> length out"
  shows "\<exists>r rest. writevn_loop iov vs i out ws = Some (r, rest) \<and> io_bytes r = take (length (io_bytes r)) (concat iov)
     \<and> (io_ok r \<longrightarrow> io_bytes r = concat iov) \<and> (io_tran r = Some (-1) \<or> io_tran r = Some (int (length (io_bytes r))))"
  using assms
proof (induction iov vs i out ws rule: writevn_loop.induct)
  case (1 iov vs i out n ws)
  obtain d where d: "take n (concat (drop i vs)) = d" by simp
  let ?out = "out @ d"
  have out': "?out = take (length ?out) (concat iov)" using 1(3,4) by (metis d take_snoc_prefix)
  consider "d = []" | "d \<noteq> []" "length ?out = length (concat iov)" | "d \<noteq> []" "length ?out \<noteq> length (concat iov)" by blast
  then show ?case
  proof cases
    case 1
    moreover have "length out = length (concat iov) \<Longrightarrow> out = concat iov" using \<open>out = take (length out) (concat iov)\<close> by simp
    ultimately show ?thesis using \<open>out = take (length out) (concat iov)\<close> by (simp add: Let_def d)
  next
    case 2
    then have "?out = concat iov" using out' by simp
    with 2 show ?thesis by (simp add: Let_def d)
  next
    case 3
    have less: "length ?out < length (concat iov)" using 3(2) arg_cong [OF out', of length] by simp
    obtain j t where jt: "get_iov_tran_index iov (length ?out) = (j, t)" by fastforce
    note j = get_iov_tran_index_sound [OF less jt]
    let ?vs = "vs[j := drop t (iov ! j)]"
    have ij: "i \<le> j"
    proof (rule ccontr)
      assume "\<not> i \<le> j"
      then have "length (concat (take (Suc j) iov)) \<le> length (concat (take i iov))" by (intro concat_take_mono) simp
      with j(4) 1(6) show False by simp
    qed
    have rest: "concat (drop j ?vs) = drop (length ?out) (concat iov)"
    proof -
      have "drop (Suc j) vs = drop (Suc j) iov" using 1(2,5) ij by (intro nth_equalityI) auto
      then show ?thesis using j(1,2) 1(2) by (simp add: drop_list_update_same)
    qed
    have len: "length ?vs = length iov" and same: "\<forall>k > j. k < length ?vs \<longrightarrow> ?vs ! k = iov ! k" using 1(2,5) ij by simp_all
    have "\<exists>r rest. writevn_loop iov ?vs j ?out ws = Some (r, rest) \<and> io_bytes r = take (length (io_bytes r)) (concat iov)
     \<and> (io_ok r \<longrightarrow> io_bytes r = concat iov) \<and> (io_tran r = Some (-1) \<or> io_tran r = Some (int (length (io_bytes r))))"
      by (rule 1(1) [OF d [symmetric] refl refl 3 jt [symmetric] j(1) len rest out' same j(3)])
    then show ?thesis using 3 jt j(1) by (simp add: Let_def d)
  qed
qed auto

text \<open>
  Whatever sizes the writes have, and whichever fail, what \<open>writevn\<close> has written is the
  beginning of the vectors' contents in order; it is all of it when the result is true, and
  the number reported is that of the bytes written unless a call failed.
\<close>

theorem writevn_in_order:
  assumes "length iov \<le> IOV_MAX"
  shows "\<exists>r rest. writevn iov ws = Some (r, rest) \<and> io_bytes r = take (length (io_bytes r)) (concat iov)
     \<and> (io_ok r \<longrightarrow> io_bytes r = concat iov) \<and> (io_tran r = Some (-1) \<or> io_tran r = Some (int (length (io_bytes r))))"
  using writevn_loop_sound [of iov iov 0 "[]" ws] assms by (simp add: writevn_def)

theorem writevn_in_order_witness:
  "\<exists>r rest. writevn [''ab'', [], ''cde''] [Wr 1, Wr 2, Wr 9] = Some (r, rest) \<and> io_ok r \<and> io_bytes r = ''abcde''"
proof -
  have ok: "\<exists>r rest. writevn [''ab'', [], ''cde''] [Wr 1, Wr 2, Wr 9] = Some (r, rest) \<and> io_ok r"
    by (simp add: writevn_def IOV_MAX_def Let_def get_iov_tran_index_def)
  show ?thesis using writevn_in_order [of "[''ab'', [], ''cde'']" "[Wr 1, Wr 2, Wr 9]"] ok by (auto simp: IOV_MAX_def)
qed

end
