(* ===== verification/Fifo.thy ===== *)
theory Fifo
  imports Io_Ext CLib Worker_Pipe
begin

text \<open>
  Named pipes and the one each thread writes its log lines to, \<open>ipc/fifo_io.cpp\<close>,
  \<open>ipc/fifo_tls.cpp\<close> and \<open>log/log_send.cpp\<close>. The state has the directories and named pipes of
  the file system, the open descriptors and the thread's pipe. The outcomes of calls that can
  fail (allocation, system calls) are a list, true when it is used up.
\<close>

section \<open>The state\<close>

record fifo =
  ff_fd :: "nat option"
  ff_name :: "bytes option"

record ipc =
  ic_dirs :: "bytes set"
  ic_fifos :: "bytes set"
  ic_open :: "nat set"
  ic_fd :: nat
  ic_tls :: "fifo option"
  ic_oks :: "bool list"
  ic_wr :: "wr list"

definition next_ok :: "ipc \<Rightarrow> bool \<times> ipc" where
  "next_ok s = (case ic_oks s of [] \<Rightarrow> (True, s) | b # bs \<Rightarrow> (b, s\<lparr>ic_oks := bs\<rparr>))"

section \<open>Making, opening and closing\<close>

text \<open>The label \<open>fail\<close> of \<open>fifo_make\<close>: what was made is removed again.\<close>

definition make_fail :: "bool \<Rightarrow> bytes \<Rightarrow> bool \<Rightarrow> bytes \<Rightarrow> ipc \<Rightarrow> ipc" where
  "make_fail made_fifo path made_dir dir s =
     (let s = (if made_fifo then s\<lparr>ic_fifos := ic_fifos s - {path}\<rparr> else s)
      in if made_dir then s\<lparr>ic_dirs := ic_dirs s - {dir}\<rparr> else s)"

text \<open>From \<open>mkfifo\<close> on; a path that exists already is no failure.\<close>

definition make_node :: "bytes \<Rightarrow> bool \<Rightarrow> bytes \<Rightarrow> ipc \<Rightarrow> fifo option \<times> ipc" where
  "make_node path made_dir dir s =
     (let exists = path \<in> ic_fifos s in
      case (if exists then (True, s) else next_ok s) of
        (False, s) \<Rightarrow> (None, make_fail False path made_dir dir s)
      | (True, s) \<Rightarrow> (let s = s\<lparr>ic_fifos := insert path (ic_fifos s)\<rparr> in
          case next_ok s of
            (False, s) \<Rightarrow> (None, make_fail (\<not> exists) path made_dir dir s)
          | (True, s) \<Rightarrow> (case next_ok s of
                (False, s) \<Rightarrow> (None, make_fail (\<not> exists) path made_dir dir s)
              | (True, s) \<Rightarrow> (Some \<lparr>ff_fd = None, ff_name = Some path\<rparr>, s))))"

definition fifo_make :: "bytes \<Rightarrow> ipc \<Rightarrow> fifo option \<times> ipc" where
  "fifo_make path s = (case strrchr path (CHR ''/'') of
      None \<Rightarrow> make_node path False [] s
    | Some p \<Rightarrow> (let dir = take (p + 1) path in
        case next_ok s of
          (False, s) \<Rightarrow> (None, s)
        | (True, s) \<Rightarrow>
            if dir \<in> ic_dirs s then make_node path False dir s
            else (case next_ok s of
                (False, s) \<Rightarrow> (None, s)
              | (True, s) \<Rightarrow> make_node path True dir (s\<lparr>ic_dirs := insert dir (ic_dirs s)\<rparr>))))"

definition fifo_close :: "fifo \<Rightarrow> ipc \<Rightarrow> ipc" where
  "fifo_close f s =
     (let s = (case ff_name f of None \<Rightarrow> s | Some n \<Rightarrow> s\<lparr>ic_fifos := ic_fifos s - {n}\<rparr>)
      in case ff_fd f of None \<Rightarrow> s | Some fd \<Rightarrow> s\<lparr>ic_open := ic_open s - {fd}\<rparr>)"

text \<open>
  \<open>fifo_open\<close>: the object is made with its pipe, made without a name, or the one given; the
  first two are freed when the pipe cannot be opened.
\<close>

definition sys_open :: "ipc \<Rightarrow> nat option \<times> ipc" where
  "sys_open s = (case next_ok s of (False, s) \<Rightarrow> (None, s)
     | (True, s) \<Rightarrow> (Some (ic_fd s), s\<lparr>ic_open := insert (ic_fd s) (ic_open s), ic_fd := Suc (ic_fd s)\<rparr>))"

definition fifo_object :: "fifo option \<Rightarrow> bool \<Rightarrow> bytes \<Rightarrow> ipc \<Rightarrow> fifo option \<times> ipc" where
  "fifo_object f creat path s = (if creat then fifo_make path s
     else (case f of Some g \<Rightarrow> (Some g, s)
       | None \<Rightarrow> (case next_ok s of (False, s) \<Rightarrow> (None, s) | (True, s) \<Rightarrow> (Some \<lparr>ff_fd = None, ff_name = None\<rparr>, s))))"

definition fifo_open :: "fifo option \<Rightarrow> bool \<Rightarrow> bytes \<Rightarrow> ipc \<Rightarrow> bool \<times> fifo option \<times> ipc" where
  "fifo_open f creat path s = (case fifo_object f creat path s of
      (None, s) \<Rightarrow> (False, f, s)
    | (Some g, s) \<Rightarrow> (case sys_open s of
          (None, s) \<Rightarrow> (False, f, if creat \<or> f = None then fifo_close g s else s)
        | (Some fd, s) \<Rightarrow> (True, Some (g\<lparr>ff_fd := Some fd\<rparr>), s)))"

text \<open>Two messages in the form of a length of eight bytes and the data.\<close>

definition send_vectors :: "bytes list \<Rightarrow> ipc \<Rightarrow> (bool \<times> ipc) option" where
  "send_vectors iov s = (case writevn iov (ic_wr s) of None \<Rightarrow> None | Some (r, ws) \<Rightarrow> Some (io_ok r, s\<lparr>ic_wr := ws\<rparr>))"

definition msg_vectors :: "bytes \<Rightarrow> bytes list" where
  "msg_vectors data = [le_bytes 8 (length data), data]"

definition fifo_write_msg :: "bytes \<Rightarrow> ipc \<Rightarrow> (bool \<times> ipc) option" where
  "fifo_write_msg data s = send_vectors (msg_vectors data) s"

text \<open>\<open>fifo_read_msg\<close>: the length, memory for the data, the data.\<close>

definition fifo_read_msg :: "bool \<Rightarrow> rd list \<Rightarrow> bytes option \<times> rd list" where
  "fifo_read_msg alloc rds = (case readn 8 rds of (r, rds) \<Rightarrow>
     if \<not> io_ok r then (None, rds)
     else if \<not> alloc then (None, rds)
     else (case readn (le_val (io_bytes r)) rds of (d, rds) \<Rightarrow>
       if \<not> io_ok d then (None, rds) else (Some (io_bytes d), rds)))"

section \<open>The pipe of a thread\<close>

text \<open>
  \<open>tls_fifo_create\<close>: the server's pipe is opened, made blocking with two calls, the directory is
  there or made, then the thread's own pipe is made, announced, opened for writing (which waits
  for the server) and remembered. \<open>srv\<close> and \<open>own\<close> are the two paths.
\<close>

definition create_failed :: "fifo option \<Rightarrow> fifo \<Rightarrow> ipc \<Rightarrow> fifo option \<times> ipc" where
  "create_failed fio f s = (None, fifo_close f (case fio of None \<Rightarrow> s | Some g \<Rightarrow> fifo_close g s))"

fun all_ok :: "nat \<Rightarrow> ipc \<Rightarrow> bool \<times> ipc" where
  "all_ok 0 s = (True, s)"
| "all_ok (Suc n) s = (case next_ok s of (False, s) \<Rightarrow> (False, s) | (True, s) \<Rightarrow> all_ok n s)"

definition announce :: "fifo \<Rightarrow> fifo \<Rightarrow> bytes \<Rightarrow> ipc \<Rightarrow> (fifo option \<times> ipc) option" where
  "announce fio f own s = (case fifo_write_msg (own @ [NUL]) s of
      None \<Rightarrow> None
    | Some (False, s) \<Rightarrow> Some (create_failed (Some fio) f s)
    | Some (True, s) \<Rightarrow> (case fifo_open (Some fio) False own s of
          (False, _, s) \<Rightarrow> Some (create_failed (Some fio) f s)
        | (True, None, s) \<Rightarrow> None
        | (True, Some g, s) \<Rightarrow> (case next_ok s of
              (False, s) \<Rightarrow> Some (create_failed (Some g) f s)
            | (True, s) \<Rightarrow> Some (Some g, fifo_close f (s\<lparr>ic_tls := Some g\<rparr>)))))"

definition tls_fifo_create :: "bytes \<Rightarrow> bytes \<Rightarrow> ipc \<Rightarrow> (fifo option \<times> ipc) option" where
  "tls_fifo_create srv own s = (case fifo_open None False srv s of
      (True, Some f, s) \<Rightarrow> (case all_ok 3 s of
          (False, s) \<Rightarrow> Some (create_failed None f s)
        | (True, s) \<Rightarrow> (case fifo_make own s of
              (None, s) \<Rightarrow> Some (create_failed None f s)
            | (Some fio, s) \<Rightarrow> announce fio f own s))
    | (_, _, s) \<Rightarrow> Some (None, s))"

definition tls_fifo_destroy :: "fifo \<Rightarrow> ipc \<Rightarrow> ipc" where
  "tls_fifo_destroy f s = (fifo_close f s)\<lparr>ic_tls := None\<rparr>"

definition tls_fifo_get :: "bytes \<Rightarrow> bytes \<Rightarrow> ipc \<Rightarrow> (fifo option \<times> ipc) option" where
  "tls_fifo_get srv own s = (case ic_tls s of Some f \<Rightarrow> Some (Some f, s) | None \<Rightarrow> tls_fifo_create srv own s)"

text \<open>\<open>broken\<close> says that the error of a failed write is that nobody reads the pipe.\<close>

definition tls_fifo_writevn :: "bytes \<Rightarrow> bytes \<Rightarrow> bool \<Rightarrow> bytes list \<Rightarrow> ipc \<Rightarrow> (bool \<times> ipc) option" where
  "tls_fifo_writevn srv own broken iov s = (case tls_fifo_get srv own s of
      None \<Rightarrow> None
    | Some (None, s) \<Rightarrow> Some (False, s)
    | Some (Some f, s) \<Rightarrow> (case send_vectors iov s of
          None \<Rightarrow> None
        | Some (ok, s) \<Rightarrow> Some (ok, if \<not> ok \<and> broken then tls_fifo_destroy f s else s)))"

definition tls_fifo_write_msg :: "bytes \<Rightarrow> bytes \<Rightarrow> bool \<Rightarrow> bytes \<Rightarrow> ipc \<Rightarrow> (bool \<times> ipc) option" where
  "tls_fifo_write_msg srv own broken buf s = tls_fifo_writevn srv own broken (msg_vectors buf) s"

text \<open>
  The formatted text is written with the length \<open>vsnprintf\<close> returns, which is that of the whole
  text: longer than the buffer the write reads behind its end.
\<close>

definition MAX_BUF_SIZE :: nat where "MAX_BUF_SIZE = 65536"

definition formatted :: "bytes \<Rightarrow> bytes option" where
  "formatted text = (if length text < MAX_BUF_SIZE then Some text
     else if length text = MAX_BUF_SIZE then Some (take (MAX_BUF_SIZE - 1) text @ [NUL]) else None)"

definition tls_fifo_fwrite_msg :: "bytes \<Rightarrow> bytes \<Rightarrow> bool \<Rightarrow> bytes \<Rightarrow> ipc \<Rightarrow> (bool \<times> ipc) option" where
  "tls_fifo_fwrite_msg srv own broken text s = (case formatted text of
     None \<Rightarrow> None | Some buf \<Rightarrow> tls_fifo_write_msg srv own broken buf s)"

text \<open>\<open>tls_fifo_init\<close> with the limit on the length of the path.\<close>

definition PATH_MAX :: nat where "PATH_MAX = 4096"

definition tls_fifo_init :: "bool \<Rightarrow> bytes \<Rightarrow> bytes option" where
  "tls_fifo_init key_ok srv_fifo_path = (if \<not> key_ok then None
     else if PATH_MAX \<le> length srv_fifo_path then None else Some srv_fifo_path)"

text \<open>
  \<open>log_send\<close>: the length, the header, the text. The header's type is declared in a file that is
  not in the repository: its bytes are a parameter.
\<close>

definition log_vectors :: "bytes \<Rightarrow> bytes \<Rightarrow> bytes list" where
  "log_vectors hdr buf = [le_bytes 8 (length hdr + length buf), hdr, buf]"

definition log_send :: "bytes \<Rightarrow> bytes \<Rightarrow> bool \<Rightarrow> bytes \<Rightarrow> bytes \<Rightarrow> ipc \<Rightarrow> (bool \<times> ipc) option" where
  "log_send srv own broken hdr text s = (if text = [] then Some (False, s)
     else (case formatted text of
         None \<Rightarrow> None
       | Some buf \<Rightarrow> tls_fifo_writevn srv own broken (log_vectors hdr buf) s))"

section \<open>Nothing is left behind\<close>

definition same_files :: "ipc \<Rightarrow> ipc \<Rightarrow> bool" where
  "same_files s t \<longleftrightarrow> ic_dirs s = ic_dirs t \<and> ic_fifos s = ic_fifos t \<and> ic_open s = ic_open t \<and> ic_fd s = ic_fd t \<and> ic_tls s = ic_tls t"

lemma next_ok_same: "next_ok s = (b, t) \<Longrightarrow> same_files s t"
  by (auto simp: next_ok_def same_files_def split: list.splits)

text \<open>
  When a named pipe cannot be made the file system is as before: a directory and a pipe that
  were made on the way are removed.
\<close>

theorem fifo_make_all_or_nothing:
  assumes "fifo_make path s = (r, t)"
  shows "ic_open t = ic_open s \<and> ic_tls t = ic_tls s \<and> (case r of
      None \<Rightarrow> ic_dirs t = ic_dirs s \<and> ic_fifos t = ic_fifos s
    | Some f \<Rightarrow> ff_name f = Some path \<and> ff_fd f = None \<and> ic_fifos t = insert path (ic_fifos s) \<and> ic_dirs s \<subseteq> ic_dirs t)"
  using assms
  by (auto simp: fifo_make_def make_node_def make_fail_def Let_def same_files_def
      split: option.splits prod.splits bool.splits if_splits dest!: next_ok_same)

definition fifo_start :: ipc where
  "fifo_start = \<lparr>ic_dirs = {}, ic_fifos = {}, ic_open = {0, 1, 2}, ic_fd = 3, ic_tls = None, ic_oks = [], ic_wr = [Wr 8, Wr 4, Wr 100]\<rparr>"

theorem fifo_make_all_or_nothing_witness:
  "\<exists>t. fifo_make ''/tmp/fifo/7'' (fifo_start\<lparr>ic_oks := [True, True, True, False]\<rparr>) = (None, t) \<and> ic_dirs t = {} \<and> ic_fifos t = {}"
proof -
  have dir: "strrchr ''/tmp/fifo/7'' (CHR ''/'') = Some 9" by code_simp
  have "fst (fifo_make ''/tmp/fifo/7'' (fifo_start\<lparr>ic_oks := [True, True, True, False]\<rparr>)) = None"
    by (simp add: fifo_make_def dir make_node_def next_ok_def fifo_start_def Let_def)
  then obtain t where "fifo_make ''/tmp/fifo/7'' (fifo_start\<lparr>ic_oks := [True, True, True, False]\<rparr>) = (None, t)"
    by (metis prod.collapse)
  with fifo_make_all_or_nothing [OF this] show ?thesis by (simp add: fifo_start_def)
qed

lemma send_vectors_same:
  assumes "length iov \<le> IOV_MAX"
  obtains ok t where "send_vectors iov s = Some (ok, t)" "same_files s t"
proof -
  obtain r ws where "writevn iov (ic_wr s) = Some (r, ws)"
    using writevn_loop_sound [of iov iov 0 "[]" "ic_wr s"] assms by (auto simp: writevn_def)
  then show ?thesis using that by (simp add: send_vectors_def same_files_def)
qed

lemma all_ok_same: "all_ok n s = (b, t) \<Longrightarrow> same_files s t"
  by (induction n s rule: all_ok.induct) (force simp: same_files_def split: prod.splits bool.splits dest: next_ok_same)+

lemma fifo_make_files:
  assumes "fifo_make path s = (r, t)"
  shows "ic_open t = ic_open s" "ic_tls t = ic_tls s" "ic_fd t = ic_fd s"
    and "r = None \<Longrightarrow> ic_fifos t = ic_fifos s"
    and "r = Some f \<Longrightarrow> f = \<lparr>ff_fd = None, ff_name = Some path\<rparr> \<and> ic_fifos t = insert path (ic_fifos s)"
  using assms
  by (auto simp: fifo_make_def make_node_def make_fail_def Let_def same_files_def
      split: option.splits prod.splits bool.splits if_splits dest!: next_ok_same)

lemma fifo_open_given:
  assumes "fifo_open (Some g) False path s = (ok, r, t)"
  shows "ic_fifos t = ic_fifos s" "ic_tls t = ic_tls s"
    and "\<not> ok \<Longrightarrow> ic_open t = ic_open s \<and> ic_fd t = ic_fd s"
    and "ok \<Longrightarrow> r = Some (g\<lparr>ff_fd := Some (ic_fd s)\<rparr>) \<and> ic_open t = insert (ic_fd s) (ic_open s) \<and> ic_fd t = Suc (ic_fd s)"
  using assms
  by (auto simp: fifo_open_def fifo_object_def sys_open_def same_files_def split: option.splits prod.splits bool.splits dest!: next_ok_same)

lemma fifo_open_new:
  assumes "fifo_open None False path s = (ok, r, t)"
  shows "ic_fifos t = ic_fifos s" "ic_tls t = ic_tls s"
    and "\<not> ok \<Longrightarrow> r = None \<and> ic_open t = ic_open s \<and> ic_fd t = ic_fd s"
    and "ok \<Longrightarrow> r = Some \<lparr>ff_fd = Some (ic_fd s), ff_name = None\<rparr> \<and> ic_open t = insert (ic_fd s) (ic_open s) \<and> ic_fd t = Suc (ic_fd s)"
  using assms
  by (auto simp: fifo_open_def fifo_object_def sys_open_def fifo_close_def Let_def same_files_def
      split: option.splits prod.splits bool.splits dest!: next_ok_same)

text \<open>The state while a thread's pipe is made: the server's pipe \<open>n\<close> is open beside those of before.\<close>

definition opened_srv :: "ipc \<Rightarrow> nat \<Rightarrow> ipc \<Rightarrow> bool" where
  "opened_srv s n t \<longleftrightarrow> ic_open t = insert n (ic_open s) \<and> ic_tls t = ic_tls s \<and> ic_fd t = Suc n"

definition created_or_not :: "bytes \<Rightarrow> ipc \<Rightarrow> fifo option \<times> ipc \<Rightarrow> bool" where
  "created_or_not own s res \<longleftrightarrow> (case res of
      (None, t) \<Rightarrow> ic_open t = ic_open s \<and> ic_tls t = ic_tls s \<and> ic_fifos t - {own} = ic_fifos s - {own}
    | (Some f, t) \<Rightarrow> \<exists>fd. fd \<notin> ic_open s \<and> ic_open t = insert fd (ic_open s) \<and> ic_tls t = Some f
        \<and> f = \<lparr>ff_fd = Some fd, ff_name = Some own\<rparr> \<and> ic_fifos t = insert own (ic_fifos s))"

lemma announce_created:
  assumes srv: "opened_srv s n t" and n: "n \<notin> ic_open s" "Suc n \<notin> ic_open s" and fifos: "ic_fifos t = insert own (ic_fifos s)"
  obtains res where "announce \<lparr>ff_fd = None, ff_name = Some own\<rparr> \<lparr>ff_fd = Some n, ff_name = None\<rparr> own t = Some res" "created_or_not own s res"
proof -
  let ?fio = "\<lparr>ff_fd = None, ff_name = Some own\<rparr>"
  let ?f = "\<lparr>ff_fd = Some n, ff_name = None\<rparr>"
  obtain ok t1 where w: "fifo_write_msg (own @ [NUL]) t = Some (ok, t1)" "same_files t t1"
    using send_vectors_same [of "msg_vectors (own @ [NUL])" t] by (auto simp: fifo_write_msg_def msg_vectors_def IOV_MAX_def)
  have t1: "opened_srv s n t1" "ic_fifos t1 = insert own (ic_fifos s)" using w(2) srv fifos by (simp_all add: same_files_def opened_srv_def)
  have fail: "created_or_not own s (create_failed (Some ?fio) ?f u)" if "opened_srv s n u" "ic_fifos u = insert own (ic_fifos s)" for u
    using that n by (auto simp: create_failed_def created_or_not_def fifo_close_def opened_srv_def)
  show ?thesis
  proof (cases ok)
    case False
    then show ?thesis using that w(1) fail [OF t1] by (simp add: announce_def)
  next
    case True
    obtain ok2 r t2 where o: "fifo_open (Some ?fio) False own t1 = (ok2, r, t2)" by (metis prod_cases3)
    note f2 = fifo_open_given [OF o]
    show ?thesis
    proof (cases ok2)
      case False
      then have "opened_srv s n t2" "ic_fifos t2 = insert own (ic_fifos s)" using f2 t1 by (simp_all add: opened_srv_def)
      with that w(1) True o False fail [of t2] show ?thesis by (simp add: announce_def)
    next
      case ok2: True
      let ?g = "\<lparr>ff_fd = Some (Suc n), ff_name = Some own\<rparr>"
      have r: "r = Some ?g" "ic_open t2 = insert (Suc n) (insert n (ic_open s))" "ic_fifos t2 = insert own (ic_fifos s)" "ic_tls t2 = ic_tls s"
        using f2 ok2 t1 by (simp_all add: opened_srv_def)
      obtain ok3 t3 where k: "next_ok t2 = (ok3, t3)" by fastforce
      note same = next_ok_same [OF k, unfolded same_files_def]
      show ?thesis
      proof (cases ok3)
        case True
        have "created_or_not own s (Some ?g, fifo_close ?f (t3\<lparr>ic_tls := Some ?g\<rparr>))"
          using r same n by (auto simp: created_or_not_def fifo_close_def)
        with that w(1) \<open>ok\<close> o ok2 r(1) k True show ?thesis by (simp add: announce_def)
      next
        case False
        have "created_or_not own s (create_failed (Some ?g) ?f t3)"
          using r same n by (auto simp: created_or_not_def create_failed_def fifo_close_def)
        with that w(1) \<open>ok\<close> o ok2 r(1) k False show ?thesis by (simp add: announce_def)
      qed
    qed
  qed
qed



text \<open>
  A log line longer than the buffer is not cut: the write is given the length of the whole
  text and reads behind the buffer.
\<close>

theorem long_log_line_overruns:
  assumes "MAX_BUF_SIZE < length text"
  shows "log_send srv own broken hdr text s = None"
proof -
  have "text \<noteq> []" using assms by (auto simp: MAX_BUF_SIZE_def)
  then show ?thesis using assms by (simp add: log_send_def formatted_def)
qed

theorem long_log_line_overruns_witness: "log_send [] [] False [] (replicate 70000 (CHR ''x'')) fifo_start = None"
  by (rule long_log_line_overruns) (simp add: MAX_BUF_SIZE_def)

end
