(* ===== verification/Log_File.thy ===== *)
theory Log_File
  imports Fifo
begin

text \<open>
  The file the log server writes, \<open>log/log_file.cpp\<close>, \<open>log/log_type.h\<close> and \<open>log/log_type.cpp\<close>. The
  state has the contents of the file; the date and the number of the thread are given as text.
  \<open>log/log_file.c\<close> is an older form of the same file that includes a header which is not there.
\<close>

section \<open>Levels\<close>

definition LOG_LEVEL_TRACE :: int where "LOG_LEVEL_TRACE = 0"
definition LOG_LEVEL_DEBUG :: int where "LOG_LEVEL_DEBUG = 1"
definition LOG_LEVEL_INFO :: int where "LOG_LEVEL_INFO = 2"
definition LOG_LEVEL_WARN :: int where "LOG_LEVEL_WARN = 3"
definition LOG_LEVEL_ERROR :: int where "LOG_LEVEL_ERROR = 4"
definition LOG_LEVEL_FATAL :: int where "LOG_LEVEL_FATAL = 5"

definition log_level_text :: "(bytes \<times> int) list" where
  "log_level_text = [(''TRACE'', LOG_LEVEL_TRACE), (''DEBUG'', LOG_LEVEL_DEBUG), (''INFO'', LOG_LEVEL_INFO),
     (''WARN'', LOG_LEVEL_WARN), (''ERROR'', LOG_LEVEL_ERROR), (''FATAL'', LOG_LEVEL_FATAL)]"

lemmas log_levels = LOG_LEVEL_TRACE_def LOG_LEVEL_DEBUG_def LOG_LEVEL_INFO_def LOG_LEVEL_WARN_def LOG_LEVEL_ERROR_def LOG_LEVEL_FATAL_def

section \<open>The file\<close>

text \<open>\<open>lf_open\<close> says that the descriptor is not \<open>-1\<close>, \<open>lf_data\<close> is what is in the file.\<close>

record logfile =
  lf_open :: bool
  lf_name :: bytes
  lf_rbsize :: nat
  lf_data :: bytes

definition DEFAULT_RBSIZE :: nat where "DEFAULT_RBSIZE = 1024 * 1024"

text \<open>Memory for the object, opening, memory for the name: each may fail.\<close>

definition log_open :: "bytes \<Rightarrow> bytes \<Rightarrow> bool \<Rightarrow> bool \<Rightarrow> bool \<Rightarrow> logfile option" where
  "log_open contents name alloc opened alloc_name = (if \<not> alloc then None else if \<not> opened then None else if \<not> alloc_name then None
     else Some \<lparr>lf_open = True, lf_name = name, lf_rbsize = DEFAULT_RBSIZE, lf_data = contents\<rparr>)"

definition log_set_rbsize :: "nat \<Rightarrow> logfile \<Rightarrow> logfile" where
  "log_set_rbsize n lf = lf\<lparr>lf_rbsize := n\<rparr>"

definition log_close :: "logfile \<Rightarrow> logfile" where
  "log_close lf = lf\<lparr>lf_open := False\<rparr>"

text \<open>
  \<open>reopen\<close>: a file that has grown beyond its limit is opened again and emptied. The call on the
  descriptor fails when an earlier opening has failed.
\<close>

definition reopen :: "bool \<Rightarrow> logfile \<Rightarrow> bool \<times> logfile" where
  "reopen ok lf = (if \<not> lf_open lf then (False, lf)
     else if lf_rbsize lf < length (lf_data lf) then (if ok then (True, lf\<lparr>lf_data := []\<rparr>) else (False, lf\<lparr>lf_open := False\<rparr>))
     else (True, lf))"

definition append_data :: "bytes \<Rightarrow> logfile \<Rightarrow> logfile" where
  "append_data d lf = lf\<lparr>lf_data := lf_data lf @ d\<rparr>"

text \<open>\<open>log_write\<close> and \<open>log_printf\<close> without a level; the number returned is missing where it is not set.\<close>

definition log_write_raw :: "bytes \<Rightarrow> bool \<Rightarrow> wr list \<Rightarrow> logfile \<Rightarrow> int option \<times> logfile" where
  "log_write_raw buf ok ws lf = (case reopen ok lf of
      (False, lf) \<Rightarrow> (Some (-1), lf)
    | (True, lf) \<Rightarrow> (case writen buf ws of (r, _) \<Rightarrow> (io_tran r, append_data (io_bytes r) lf)))"

definition log_printf_raw :: "bytes \<Rightarrow> bool \<Rightarrow> wr list \<Rightarrow> logfile \<Rightarrow> (int option \<times> logfile) option" where
  "log_printf_raw text ok ws lf = (case reopen ok lf of
      (False, lf) \<Rightarrow> Some (Some (-1), lf)
    | (True, lf) \<Rightarrow> if text = [] then Some (Some 0, lf)
        else (case formatted text of None \<Rightarrow> None
          | Some buf \<Rightarrow> (case writen buf ws of (r, _) \<Rightarrow> Some (io_tran r, append_data (io_bytes r) lf))))"

text \<open>No result when the assertion in \<open>writevn\<close> fails.\<close>

definition log_writev :: "bytes list \<Rightarrow> bool \<Rightarrow> wr list \<Rightarrow> logfile \<Rightarrow> (int option \<times> logfile) option" where
  "log_writev iov ok ws lf = (case reopen ok lf of
      (False, lf) \<Rightarrow> Some (Some (-1), lf)
    | (True, lf) \<Rightarrow> (case writevn iov ws of None \<Rightarrow> None
        | Some (r, _) \<Rightarrow> Some (io_tran r, append_data (io_bytes r) lf)))"

text \<open>
  The line: date, milliseconds with three digits, thread, level, text. No result when the level
  is none, on which the assertion stops the process.
\<close>

definition milli_text :: "nat \<Rightarrow> bytes" where
  "milli_text usec = dec_nat (usec div 1000) @ CHR ''.'' # map (\<lambda>d. digit_char ((usec div d) mod 10)) [100, 10, 1]"

definition log_head :: "bytes \<Rightarrow> nat \<Rightarrow> bytes \<Rightarrow> bytes \<Rightarrow> bytes" where
  "log_head stamp usec tid level = stamp @ '','' @ milli_text usec @ '' ['' @ tid @ ''] '' @ level @ '' -> ''"

definition log_write :: "bytes \<Rightarrow> nat \<Rightarrow> bytes \<Rightarrow> int \<Rightarrow> bytes \<Rightarrow> bool \<Rightarrow> wr list \<Rightarrow> logfile \<Rightarrow> (int option \<times> logfile) option" where
  "log_write stamp usec tid level text ok ws lf =
     (if level < LOG_LEVEL_TRACE \<or> LOG_LEVEL_FATAL < level then None
      else log_writev [log_head stamp usec tid (fst (log_level_text ! nat level)), text, [LF]] ok ws lf)"

section \<open>What the file holds\<close>

lemma writevn_sound:
  assumes "length iov \<le> IOV_MAX"
  obtains r rest where "writevn iov ws = Some (r, rest)" "io_bytes r = take (length (io_bytes r)) (concat iov)"
    "io_ok r \<Longrightarrow> io_bytes r = concat iov" "io_tran r = Some (-1) \<or> io_tran r = Some (int (length (io_bytes r)))"
  using writevn_loop_sound [of iov iov 0 "[]" ws] assms by (auto simp: writevn_def)

lemma log_writev_data:
  assumes "length iov \<le> IOV_MAX" "log_writev iov ok ws lf = Some (tran, lf')"
  shows "\<exists>k. lf_data lf' = lf_data lf \<or> lf_data lf' = (if lf_rbsize lf < length (lf_data lf) then [] else lf_data lf) @ take k (concat iov)"
    and "lf_rbsize lf' = lf_rbsize lf"
proof -
  obtain r rest where w: "writevn iov ws = Some (r, rest)" "io_bytes r = take (length (io_bytes r)) (concat iov)"
    by (rule writevn_sound [OF assms(1), of ws])
  show "\<exists>k. lf_data lf' = lf_data lf \<or> lf_data lf' = (if lf_rbsize lf < length (lf_data lf) then [] else lf_data lf) @ take k (concat iov)"
    using assms(2) w by (intro exI [of _ "length (io_bytes r)"]) (auto simp: log_writev_def reopen_def append_data_def split: if_splits)
  show "lf_rbsize lf' = lf_rbsize lf"
    using assms(2) w(1) by (auto simp: log_writev_def reopen_def append_data_def split: if_splits)
qed

text \<open>A request to write one line: its parts, the outcome of opening again, those of the writes.\<close>

record log_request =
  lr_stamp :: bytes
  lr_usec :: nat
  lr_tid :: bytes
  lr_level :: int
  lr_text :: bytes
  lr_ok :: bool
  lr_wr :: "wr list"

definition log_request_run :: "log_request \<Rightarrow> logfile \<Rightarrow> (int option \<times> logfile) option" where
  "log_request_run q lf = log_write (lr_stamp q) (lr_usec q) (lr_tid q) (lr_level q) (lr_text q) (lr_ok q) (lr_wr q) lf"

definition log_line :: "log_request \<Rightarrow> bytes" where
  "log_line q = log_head (lr_stamp q) (lr_usec q) (lr_tid q) (fst (log_level_text ! nat (lr_level q))) @ lr_text q @ [LF]"

fun log_requests :: "log_request list \<Rightarrow> logfile \<Rightarrow> logfile option" where
  "log_requests [] lf = Some lf"
| "log_requests (q # qs) lf = (case log_request_run q lf of None \<Rightarrow> None | Some (_, lf) \<Rightarrow> log_requests qs lf)"

lemma log_request_data:
  assumes "log_request_run q lf = Some (tran, lf')"
  shows "\<exists>k. lf_data lf' = lf_data lf \<or> lf_data lf' = (if lf_rbsize lf < length (lf_data lf) then [] else lf_data lf) @ take k (log_line q)"
    and "lf_rbsize lf' = lf_rbsize lf"
proof -
  let ?iov = "[log_head (lr_stamp q) (lr_usec q) (lr_tid q) (fst (log_level_text ! nat (lr_level q))), lr_text q, [LF]]"
  have line: "log_line q = concat ?iov" by (simp add: log_line_def)
  have run: "log_writev ?iov (lr_ok q) (lr_wr q) lf = Some (tran, lf')"
    using assms by (simp add: log_request_run_def log_write_def split: if_splits)
  note d = log_writev_data [OF _ run]
  show "\<exists>k. lf_data lf' = lf_data lf \<or> lf_data lf' = (if lf_rbsize lf < length (lf_data lf) then [] else lf_data lf) @ take k (log_line q)"
    unfolding line by (rule d(1)) (simp add: IOV_MAX_def)
  show "lf_rbsize lf' = lf_rbsize lf" by (rule d(2)) (simp add: IOV_MAX_def)
qed

text \<open>
  C23: the log file stays bounded: however many lines are written, and whichever calls fail, it is
  never longer than the limit and one line.
\<close>

theorem log_file_bounded:
  assumes "log_requests qs lf = Some lf'" "length (lf_data lf) \<le> lf_rbsize lf + m" "\<forall>q \<in> set qs. length (log_line q) \<le> m"
  shows "length (lf_data lf') \<le> lf_rbsize lf + m"
  using assms
proof (induction qs arbitrary: lf)
  case (Cons q qs)
  obtain tran l1 where run: "log_request_run q lf = Some (tran, l1)" "log_requests qs l1 = Some lf'"
    using Cons.prems(1) by (auto split: option.splits)
  obtain k where k: "lf_data l1 = lf_data lf \<or> lf_data l1 = (if lf_rbsize lf < length (lf_data lf) then [] else lf_data lf) @ take k (log_line q)"
    using log_request_data(1) [OF run(1)] by blast
  have "length (log_line q) \<le> m" using Cons.prems(3) by simp
  then have "length (lf_data l1) \<le> lf_rbsize lf + m" using k Cons.prems(2) by (auto split: if_splits)
  with Cons.IH [OF run(2)] log_request_data(2) [OF run(1)] Cons.prems(3) show ?case by simp
qed simp

text \<open>
  A line is written whole when every write takes what is left of it: the file has its old
  contents, or nothing if it was too long, and the line behind them.
\<close>

lemma log_line_written:
  assumes "lf_open lf" "LOG_LEVEL_TRACE \<le> lr_level q" "lr_level q \<le> LOG_LEVEL_FATAL" "lr_ok q" "lr_wr q = [Wr n]" "length (log_line q) \<le> n"
  shows "log_request_run q lf = Some (Some (int (length (log_line q))),
     lf\<lparr>lf_data := (if lf_rbsize lf < length (lf_data lf) then [] else lf_data lf) @ log_line q\<rparr>)"
proof -
  let ?iov = "[log_head (lr_stamp q) (lr_usec q) (lr_tid q) (fst (log_level_text ! nat (lr_level q))), lr_text q, [LF]]"
  have line: "log_line q = concat ?iov" by (simp add: log_line_def)
  have "writevn ?iov [Wr n] = Some (\<lparr>io_ok = True, io_tran = Some (int (length (log_line q))), io_bytes = log_line q\<rparr>, [])"
    using assms(6) by (simp add: writevn_def IOV_MAX_def Let_def line)
  then show ?thesis
    using assms by (simp add: log_request_run_def log_write_def log_writev_def reopen_def append_data_def line)
qed

text \<open>
  After the file could not be opened again nothing is ever written: the descriptor stays \<open>-1\<close> and
  every later line is refused.
\<close>

theorem log_stops_after_failed_reopen:
  assumes "\<not> lf_open lf" "\<forall>q \<in> set qs. LOG_LEVEL_TRACE \<le> lr_level q \<and> lr_level q \<le> LOG_LEVEL_FATAL"
  shows "log_requests qs lf = Some lf"
  using assms
proof (induction qs)
  case (Cons q qs)
  have "log_request_run q lf = Some (Some (-1), lf)"
    using Cons.prems by (simp add: log_request_run_def log_write_def log_writev_def reopen_def)
  with Cons show ?case by simp
qed simp

definition info_line :: log_request where
  "info_line = \<lparr>lr_stamp = ''2013-11-25 10:00:00'', lr_usec = 12345, lr_tid = ''7'', lr_level = 2, lr_text = ''started'', lr_ok = True, lr_wr = [Wr 100]\<rparr>"

definition small_log :: logfile where
  "small_log = \<lparr>lf_open = True, lf_name = ''p.log'', lf_rbsize = 20, lf_data = []\<rparr>"

lemma info_line_length: "length (log_line info_line) = 47"
proof -
  have "length (milli_text 12345) = 6" by (simp add: milli_text_def dec_nat.simps)
  then show ?thesis by (simp add: log_line_def info_line_def log_head_def log_level_text_def)
qed

theorem log_file_bounded_witness:
  "\<exists>lf. log_requests [info_line, info_line, info_line] small_log = Some lf \<and> length (lf_data lf) \<le> 20 + 47"
proof -
  have run: "\<exists>t lf'. log_request_run info_line lf = Some (t, lf') \<and> lf_open lf'" if "lf_open lf" for lf
    using log_line_written [OF that, of info_line 100] info_line_length by (simp add: that log_levels info_line_def)
  have many: "\<exists>lf'. log_requests (replicate n info_line) lf = Some lf'" if "lf_open lf" for n lf
    using that
  proof (induction n arbitrary: lf)
    case (Suc n)
    from run [OF Suc.prems] obtain t lf' where "log_request_run info_line lf = Some (t, lf')" "lf_open lf'" by blast
    with Suc.IH show ?case by simp
  qed simp
  have "\<exists>lf. log_requests [info_line, info_line, info_line] small_log = Some lf"
    using many [of small_log 3] by (simp add: numeral_3_eq_3 small_log_def)
  then obtain lf where "log_requests [info_line, info_line, info_line] small_log = Some lf" by blast
  with log_file_bounded [OF this, of 47] info_line_length show ?thesis by (auto simp: small_log_def)
qed

theorem log_stops_after_failed_reopen_witness:
  "log_requests [info_line, info_line] (snd (reopen False (small_log\<lparr>lf_data := replicate 30 (CHR ''x'')\<rparr>))) = Some (small_log\<lparr>lf_open := False, lf_data := replicate 30 (CHR ''x'')\<rparr>)"
  by (subst log_stops_after_failed_reopen) (simp_all add: reopen_def small_log_def info_line_def log_levels)

end
