(* ===== verification/Main_Program.thy ===== *)
theory Main_Program
  imports Server Base_String Log_File
begin

text \<open>
  The two programs' main functions: \<open>core/main.cpp\<close>, whose reading of the settings is in Config,
  and \<open>logsrv/main.cpp\<close>. What \<open>getopt_long\<close> gives is a parameter: the characters it returns with
  their arguments, up to the end of the options.
\<close>

section \<open>Command lines\<close>

type_synonym opt = "char \<times> bytes"

text \<open>The loop of \<open>parse_cmdline\<close>; \<open>ipver\<close> is 0 until a version of the protocol has been named.\<close>

fun core_options :: "opt list \<Rightarrow> int \<Rightarrow> bool \<Rightarrow> bool \<Rightarrow> bytes \<Rightarrow> (bool \<times> bool \<times> bytes) option" where
  "core_options [] ipver is_daemon is_ipv4 fifo_path = Some (is_daemon, is_ipv4, fifo_path)"
| "core_options ((c, arg) # os) ipver is_daemon is_ipv4 fifo_path =
     (if c = CHR ''d'' then core_options os ipver True is_ipv4 fifo_path
      else if c = CHR ''f'' then core_options os ipver is_daemon is_ipv4 arg
      else if c = CHR ''4'' \<or> c = CHR ''6'' then
        (if ipver \<noteq> 0 then None
         else core_options os (if c = CHR ''4'' then 1 else 2) is_daemon (c = CHR ''4'') fifo_path)
      else if c = CHR ''?'' \<or> c = CHR ''h'' \<or> c = CHR ''v'' then None
      else core_options os ipver is_daemon is_ipv4 fifo_path)"

definition parse_cmdline :: "opt list \<Rightarrow> (bool \<times> bool \<times> bytes) option" where
  "parse_cmdline os = (case core_options os 0 False True [] of
      None \<Rightarrow> None
    | Some (is_daemon, is_ipv4, fifo_path) \<Rightarrow> if fifo_path = [] then None else Some (is_daemon, is_ipv4, fifo_path))"

record log_conf =
  lc_daemon :: bool
  lc_log_file :: bytes
  lc_fifo_path :: bytes
  lc_rbsize :: nat

definition new_log_conf :: log_conf where
  "new_log_conf = \<lparr>lc_daemon = False, lc_log_file = [], lc_fifo_path = [], lc_rbsize = 1024 * 1024\<rparr>"

fun log_options :: "opt list \<Rightarrow> log_conf \<Rightarrow> log_conf option" where
  "log_options [] conf = Some conf"
| "log_options ((c, arg) # os) conf =
     (if c = CHR ''d'' then log_options os (conf\<lparr>lc_daemon := True\<rparr>)
      else if c = CHR ''o'' then log_options os (conf\<lparr>lc_log_file := arg\<rparr>)
      else if c = CHR ''f'' then log_options os (conf\<lparr>lc_fifo_path := arg\<rparr>)
      else if c = CHR ''s'' then (case base_strtoul arg 10 False of
          (False, _) \<Rightarrow> None
        | (True, n) \<Rightarrow> log_options os (conf\<lparr>lc_rbsize := n\<rparr>))
      else if c \<in> {CHR '':'', CHR ''?'', CHR ''h'', CHR ''v''} then None
      else log_options os conf)"

definition log_parse_cmdline :: "opt list \<Rightarrow> log_conf option" where
  "log_parse_cmdline os = (case log_options os new_log_conf of
      None \<Rightarrow> None
    | Some conf \<Rightarrow> if lc_log_file conf = [] then None else if lc_fifo_path conf = [] then None else Some conf)"

text \<open>The argument of the last option of a kind, empty when there is none.\<close>

definition last_arg :: "char \<Rightarrow> opt list \<Rightarrow> bytes \<Rightarrow> bytes" where
  "last_arg c os d = foldl (\<lambda>a (k, arg). if k = c then arg else a) d os"

definition has_opt :: "char \<Rightarrow> opt list \<Rightarrow> bool" where
  "has_opt c os \<longleftrightarrow> c \<in> fst ` set os"

definition ip_opts :: "opt list \<Rightarrow> opt list" where
  "ip_opts os = filter (\<lambda>o1. fst o1 = CHR ''4'' \<or> fst o1 = CHR ''6'') os"

definition stop_opt :: "opt list \<Rightarrow> bool" where
  "stop_opt os \<longleftrightarrow> has_opt (CHR ''?'') os \<or> has_opt (CHR ''h'') os \<or> has_opt (CHR ''v'') os"

lemmas opt_defs = last_arg_def has_opt_def ip_opts_def stop_opt_def

lemma core_options_named:
  "ipver \<noteq> 0 \<Longrightarrow> core_options os ipver d v4 f =
     (if stop_opt os \<or> ip_opts os \<noteq> [] then None else Some (d \<or> has_opt (CHR ''d'') os, v4, last_arg (CHR ''f'') os f))"
proof (induction os arbitrary: d f)
  case (Cons a os)
  obtain c arg where a: "a = (c, arg)" by (cases a)
  show ?case using Cons by (auto simp: a opt_defs)
qed (simp add: opt_defs)

lemma core_options_result:
  "core_options os 0 d True f =
     (if stop_opt os \<or> length (ip_opts os) > 1 then None
      else Some (d \<or> has_opt (CHR ''d'') os, \<not> has_opt (CHR ''6'') os, last_arg (CHR ''f'') os f))"
proof (induction os arbitrary: d f)
  case (Cons a os)
  obtain c arg where a: "a = (c, arg)" by (cases a)
  consider "c = CHR ''4''" | "c = CHR ''6''" | "c \<noteq> CHR ''4''" "c \<noteq> CHR ''6''" by blast
  then show ?case
  proof cases
    case 3
    then show ?thesis using Cons by (auto simp: a opt_defs)
  qed (auto simp: a core_options_named opt_defs filter_empty_conv)
qed (simp add: opt_defs)

text \<open>Which command lines the proxy takes, and what they mean.\<close>

theorem parse_cmdline_spec:
  "parse_cmdline os =
     (if stop_opt os \<or> length (ip_opts os) > 1 \<or> last_arg (CHR ''f'') os [] = [] then None
      else Some (has_opt (CHR ''d'') os, \<not> has_opt (CHR ''6'') os, last_arg (CHR ''f'') os []))"
  by (simp add: parse_cmdline_def core_options_result)

section \<open>Files and signals\<close>

text \<open>
  \<open>get_file_data\<close>: the reads that follow, each a block or an error; after the last one the file
  is at its end. An error ends the loop as the end of the file does.
\<close>

fun read_blocks :: "bytes option list \<Rightarrow> bytes \<Rightarrow> bytes" where
  "read_blocks [] data = data"
| "read_blocks (None # rs) data = data"
| "read_blocks (Some buf # rs) data = (if buf = [] then data else read_blocks rs (data @ buf))"

definition get_file_data :: "bool \<Rightarrow> bytes option list \<Rightarrow> bytes \<Rightarrow> bool \<times> bytes" where
  "get_file_data found blocks data = (if found then (True, read_blocks blocks data) else (False, data))"

lemma get_file_data_whole:
  "[] \<notin> set bs \<Longrightarrow> get_file_data True (map Some bs) data = (True, data @ concat bs)"
proof -
  have "[] \<notin> set bs \<Longrightarrow> read_blocks (map Some bs) d = d @ concat bs" for d
    by (induction bs arbitrary: d) auto
  then show "[] \<notin> set bs \<Longrightarrow> get_file_data True (map Some bs) data = (True, data @ concat bs)" by (simp add: get_file_data_def)
qed

lemma get_file_data_hides_error:
  "get_file_data True [Some ''<cross-domain'', None, Some ''-policy>''] [] = (True, ''<cross-domain'')"
  by (simp add: get_file_data_def)

definition SIGHUP :: int where "SIGHUP = 1"
definition SIGINT :: int where "SIGINT = 2"
definition SIGTERM :: int where "SIGTERM = 15"
definition SA_RESTART :: "32 word" where "SA_RESTART = 0x10000000"

text \<open>Which handlers are installed, with the flags of \<open>sigaction\<close>, and whether SIGPIPE is blocked.\<close>

record signals =
  sg_pipe_blocked :: bool
  sg_int :: "32 word option"
  sg_term :: "32 word option"
  sg_hup :: "32 word option"

definition no_signals :: signals where
  "no_signals = \<lparr>sg_pipe_blocked = False, sg_int = None, sg_term = None, sg_hup = None\<rparr>"

text \<open>The flags of the first two handlers are those the structure has in memory, \<open>junk\<close>.\<close>

definition init_signals :: "32 word \<Rightarrow> bool list \<Rightarrow> signals \<Rightarrow> bool \<times> signals \<times> bool list" where
  "init_signals junk oks sg =
     (case attempts 1 oks of (False, r) \<Rightarrow> (False, sg, r) | (True, r) \<Rightarrow> let sg = sg\<lparr>sg_pipe_blocked := True\<rparr> in
     (case attempts 1 r of (False, r) \<Rightarrow> (False, sg, r) | (True, r) \<Rightarrow> let sg = sg\<lparr>sg_int := Some junk\<rparr> in
     (case attempts 1 r of (False, r) \<Rightarrow> (False, sg, r) | (True, r) \<Rightarrow> let sg = sg\<lparr>sg_term := Some junk\<rparr> in
     (case attempts 1 r of (False, r) \<Rightarrow> (False, sg, r) | (True, r) \<Rightarrow> (True, sg\<lparr>sg_hup := Some SA_RESTART\<rparr>, r)))))"

text \<open>
  \<open>handle_signal\<close>: the first result says that the event loop is told to end. A signal comes with the
  files as they are then and the value of the variable that \<open>set\<close> does not initialise.
\<close>

type_synonym main_signal = "int \<times> (bytes \<Rightarrow> bytes option) \<times> 32 word"

definition handle_signal :: "(bytes \<Rightarrow> nat option) \<Rightarrow> bytes \<Rightarrow> main_signal \<Rightarrow> server \<Rightarrow> bool \<times> server" where
  "handle_signal resolve name m s = (case m of (sig, files, junk) \<Rightarrow>
     if sig = SIGTERM \<or> sig = SIGINT then (True, s)
     else if sig = SIGHUP then (False, s\<lparr>sv_conf := reconfigure resolve files name junk (sv_conf s)\<rparr>)
     else (False, s))"

fun serve :: "(bytes \<Rightarrow> nat option) \<Rightarrow> bytes \<Rightarrow> main_signal list \<Rightarrow> server \<Rightarrow> server" where
  "serve resolve name [] s = s"
| "serve resolve name (m # ms) s = (case handle_signal resolve name m s of
      (True, s) \<Rightarrow> s | (False, s) \<Rightarrow> serve resolve name ms s)"

section \<open>The main function of the proxy\<close>

record main_state =
  mn_daemon :: bool
  mn_log :: bool
  mn_threads :: bool
  mn_name :: bytes
  mn_cross :: bytes
  mn_sig :: signals
  mn_server :: server

record main_env =
  me_resolve :: "bytes \<Rightarrow> nat option"
  me_files :: "bytes \<Rightarrow> bytes option"
  me_link :: "bytes option"
  me_chdir :: bool
  me_junk :: "32 word"
  me_flags :: "32 word"
  me_cross :: "bool \<times> bytes option list"
  me_server :: server_env
  me_signals :: "main_signal list"

text \<open>
  How \<open>main\<close> ends: by returning, or by \<open>pthread_exit\<close>, which ends the main thread only and
  lets its destructors run.
\<close>

datatype main_end = Main_return int | Thread_exit

text \<open>The settings, the policy file and the signals; the server comes after them.\<close>

definition main_settings :: "main_env \<Rightarrow> bool list \<Rightarrow> main_state \<Rightarrow> bool \<times> main_state \<times> bool list" where
  "main_settings env oks p =
     (case configure (me_resolve env) (me_files env) (me_link env) (me_chdir env) (me_junk env) (sv_conf (mn_server p)) of
       (ok, name, c) \<Rightarrow> let p = p\<lparr>mn_name := name, mn_server := (mn_server p)\<lparr>sv_conf := c\<rparr>\<rparr> in
       if \<not> ok then (False, p, oks)
       else (case get_file_data (fst (me_cross env)) (snd (me_cross env)) (mn_cross p) of
         (ok, d) \<Rightarrow> let p = p\<lparr>mn_cross := d\<rparr> in
         if \<not> ok then (False, p, oks)
         else (case init_signals (me_flags env) oks (mn_sig p) of (ok, sg, r) \<Rightarrow> (ok, p\<lparr>mn_sig := sg\<rparr>, r))))"

text \<open>What runs with the locks of the TLS library set up, which are given back at the end.\<close>

definition main_body :: "main_env \<Rightarrow> bool list \<Rightarrow> main_state \<Rightarrow> (main_end \<times> main_state) option" where
  "main_body env oks p =
     (case main_settings env oks p of
       (False, p, _) \<Rightarrow> Some (Main_return 1, p\<lparr>mn_threads := False\<rparr>)
     | (True, p, _) \<Rightarrow> (case server_init (me_server env) (mn_server p) of
           None \<Rightarrow> None
         | Some (False, s) \<Rightarrow> Some (Main_return 1, p\<lparr>mn_server := s, mn_threads := False\<rparr>)
         | Some (True, s) \<Rightarrow> Some (Thread_exit,
             p\<lparr>mn_server := server_end (serve (me_resolve env) (mn_name p) (me_signals env) s), mn_threads := False\<rparr>)))"

text \<open>\<open>env\<close> depends on the version of the protocol through the resolver of the server.\<close>

definition main_program :: "(bool \<Rightarrow> main_env) \<Rightarrow> opt list \<Rightarrow> bool list \<Rightarrow> main_state \<Rightarrow> (main_end \<times> main_state) option" where
  "main_program env os oks p = (case parse_cmdline os of
      None \<Rightarrow> Some (Main_return 1, p)
    | Some (is_daemon, is_ipv4, fifo_path) \<Rightarrow> (case attempts (if is_daemon then 1 else 0) oks of
        (False, r) \<Rightarrow> Some (Main_return 1, p)
      | (True, r) \<Rightarrow> let p = p\<lparr>mn_daemon := is_daemon\<rparr> in (case attempts 1 r of
          (False, r) \<Rightarrow> Some (Main_return 1, p)
        | (True, r) \<Rightarrow> let p = p\<lparr>mn_log := True\<rparr> in (case attempts 2 r of
            (False, r) \<Rightarrow> Some (Main_return 1, p)
          | (True, r) \<Rightarrow> main_body (env is_ipv4) r (p\<lparr>mn_threads := True\<rparr>)))))"

section \<open>What the server runs on\<close>

definition signals_ready :: "signals \<Rightarrow> bool" where
  "signals_ready sg \<longleftrightarrow> sg_pipe_blocked sg \<and> sg_int sg \<noteq> None \<and> sg_term sg \<noteq> None \<and> sg_hup sg = Some SA_RESTART"

lemma init_signals_ready: "init_signals junk oks sg = (True, sg', r) \<Longrightarrow> signals_ready sg'"
  by (auto simp: init_signals_def signals_ready_def Let_def split: prod.splits bool.splits)

lemma configure_usable: "configure resolve files link ok junk c = (True, name, c') \<Longrightarrow> config_usable c'"
  using set_all_usable by (auto simp: configure_def Let_def split: option.splits if_splits prod.splits)

lemma same_settings_usable: "same_settings s t \<Longrightarrow> config_usable (sv_conf s) \<Longrightarrow> config_usable (sv_conf t)"
  by (auto simp: same_settings_def config_usable_def ssl_usable_def Let_def)

lemma server_down_conf [simp]: "server_down (s\<lparr>sv_conf := c\<rparr>) = server_down s"
  by (simp add: server_down_def)

lemma main_settings_result:
  assumes "main_settings env oks p = (ok, q, r)" "server_down (mn_server p)"
  shows "server_down (mn_server q) \<and> mn_log q = mn_log p \<and> (ok \<longrightarrow> config_usable (sv_conf (mn_server q)) \<and> signals_ready (mn_sig q))"
proof -
  obtain ok1 name c where c: "configure (me_resolve env) (me_files env) (me_link env) (me_chdir env) (me_junk env) (sv_conf (mn_server p)) = (ok1, name, c)"
    by (metis surj_pair)
  obtain ok2 d where d: "get_file_data (fst (me_cross env)) (snd (me_cross env)) (mn_cross p) = (ok2, d)" by (metis surj_pair)
  obtain ok3 sg r' where g: "init_signals (me_flags env) oks (mn_sig p) = (ok3, sg, r')" by (metis surj_pair)
  have "ok1 \<longrightarrow> config_usable c" using c by (auto dest: configure_usable)
  moreover have "ok3 \<longrightarrow> signals_ready sg" using g by (auto dest: init_signals_ready)
  ultimately show ?thesis using assms c d g by (auto simp: main_settings_def Let_def split: if_splits)
qed

definition main_ended :: "main_env \<Rightarrow> main_end \<Rightarrow> main_state \<Rightarrow> bool" where
  "main_ended env e q \<longleftrightarrow> \<not> mn_threads q \<and> (case e of
     Main_return n \<Rightarrow> n = 1 \<and> server_down (mn_server q)
   | Thread_exit \<Rightarrow> mn_log q \<and> signals_ready (mn_sig q) \<and> (\<exists>s. server_up s \<and> config_usable (sv_conf s) \<and>
       mn_server q = server_end (serve (me_resolve env) (mn_name q) (me_signals env) s)))"

lemma main_body_ended:
  assumes "server_down (mn_server p)" "mn_log p"
  shows "\<exists>e q. main_body env oks p = Some (e, q) \<and> main_ended env e q"
proof -
  obtain ok p1 r where m: "main_settings env oks p = (ok, p1, r)" by (metis surj_pair)
  note set = main_settings_result [OF m assms(1)]
  obtain ok2 s where i: "server_init (me_server env) (mn_server p1) = Some (ok2, s)" "if ok2 then server_up s else server_down s"
    using server_init_cases set by blast
  have s: "config_usable (sv_conf (mn_server p1)) \<Longrightarrow> config_usable (sv_conf s)" by (rule same_settings_usable [OF server_init_settings [OF i(1)]])
  show ?thesis
  proof (cases "ok \<and> ok2")
    case True
    then show ?thesis using m i set s assms(2) by (auto simp: main_body_def main_ended_def)
  next
    case False
    then show ?thesis using m i set by (cases ok) (auto simp: main_body_def main_ended_def)
  qed
qed

text \<open>
  C8: the main function ends: with 1 when something is missing, and the server is down then; otherwise
  the server has run, on settings that were accepted and with the signals set up.
\<close>

theorem server_runs_on_accepted_settings:
  assumes "server_down (mn_server p)" "\<not> mn_threads p"
  shows "\<exists>e q. main_program env os oks p = Some (e, q) \<and> main_ended (env (\<not> has_opt (CHR ''6'') os)) e q"
proof -
  let ?env = "env (\<not> has_opt (CHR ''6'') os)"
  have early: "main_ended ?env (Main_return 1) p'" if "mn_server p' = mn_server p" "\<not> mn_threads p'" for p'
    using assms(1) that by (simp add: main_ended_def)
  show ?thesis
  proof (cases "parse_cmdline os")
    case None
    then show ?thesis using early [of p] assms(2) by (simp add: main_program_def)
  next
    case (Some cl)
    obtain d v f where cl: "cl = (d, v, f)" by (metis prod_cases3)
    then have v: "env v = ?env" using Some by (auto simp: parse_cmdline_def core_options_result split: if_splits)
    obtain b1 r1 where 1: "attempts (if d then 1 else 0) oks = (b1, r1)" by (metis surj_pair)
    obtain b2 r2 where 2: "attempts 1 r1 = (b2, r2)" by (metis surj_pair)
    obtain b3 r3 where 3: "attempts 2 r2 = (b3, r3)" by (metis surj_pair)
    let ?p = "p\<lparr>mn_daemon := d, mn_log := True, mn_threads := True\<rparr>"
    obtain e q where b: "main_body ?env r3 ?p = Some (e, q)" "main_ended ?env e q"
      using main_body_ended [of ?p ?env r3] assms(1) by auto
    show ?thesis using b early assms(2) 1 2 3 Some cl v
      by (cases b1; cases b2; cases b3) (auto simp: main_program_def)
  qed
qed

definition idle_main :: main_state where
  "idle_main = \<lparr>mn_daemon = False, mn_log = False, mn_threads = False, mn_name = [], mn_cross = [], mn_sig = no_signals,
     mn_server = idle_server blank_config\<rparr>"

definition some_env :: main_env where
  "some_env = \<lparr>me_resolve = (\<lambda>_. Some 2), me_files = (\<lambda>_. None), me_link = Some ''/opt/proxy/bin'', me_chdir = True, me_junk = 0,
     me_flags = 0, me_cross = (True, []), me_server = \<lparr>se_cores = 2, se_resolve = (\<lambda>_ _. None)\<rparr>, me_signals = []\<rparr>"

theorem server_runs_on_accepted_settings_witness:
  "\<exists>e q. main_program (\<lambda>_. some_env) [(CHR ''f'', ''/tmp/log'')] [] idle_main = Some (e, q) \<and> main_ended some_env e q"
  by (rule server_runs_on_accepted_settings) (simp_all add: idle_main_def idle_server_down)

section \<open>The main function of the log server\<close>

text \<open>
  \<open>lm_file\<close> is the file when it could be opened, \<open>lm_daemon_ok\<close> the result of \<open>daemon\<close>,
  \<open>lm_thrown\<close> whether an exception leaves the part from the reactor on. The guard has closed the
  file by the time the handler of the exception writes to it: there is no result then.
\<close>

record log_env =
  lm_file :: "logfile option"
  lm_daemon_ok :: bool
  lm_thrown :: bool

definition log_main :: "log_env \<Rightarrow> opt list \<Rightarrow> (int \<times> logfile option) option" where
  "log_main env os = (case log_parse_cmdline os of
      None \<Rightarrow> Some (1, None)
    | Some conf \<Rightarrow> (case lm_file env of
        None \<Rightarrow> Some (1, None)
      | Some lf \<Rightarrow> let lf = log_set_rbsize (lc_rbsize conf) lf in
          if lc_daemon conf \<and> \<not> lm_daemon_ok env then Some (1, Some (log_close lf))
          else if lm_thrown env then None
          else Some (0, Some (log_close lf))))"

definition last_size :: "opt list \<Rightarrow> nat \<Rightarrow> nat" where
  "last_size os d = foldl (\<lambda>a (k, arg). if k = CHR ''s'' then snd (base_strtoul arg 10 False) else a) d os"

definition bad_size :: "opt list \<Rightarrow> bool" where
  "bad_size os \<longleftrightarrow> (\<exists>(k, arg) \<in> set os. k = CHR ''s'' \<and> \<not> fst (base_strtoul arg 10 False))"

lemma log_options_result:
  "log_options os c =
     (if bad_size os \<or> has_opt (CHR '':'') os \<or> stop_opt os then None
      else Some \<lparr>lc_daemon = lc_daemon c \<or> has_opt (CHR ''d'') os, lc_log_file = last_arg (CHR ''o'') os (lc_log_file c),
        lc_fifo_path = last_arg (CHR ''f'') os (lc_fifo_path c), lc_rbsize = last_size os (lc_rbsize c)\<rparr>)"
proof (induction os arbitrary: c)
  case (Cons a os)
  obtain k arg where a: "a = (k, arg)" by (cases a)
  show ?case
  proof (cases "k = CHR ''s''")
    case True
    obtain ok n where n: "base_strtoul arg 10 False = (ok, n)" by (cases "base_strtoul arg 10 False")
    show ?thesis using Cons True n by (cases ok) (simp_all add: a opt_defs last_size_def bad_size_def)
  next
    case False
    then show ?thesis using Cons by (auto simp: a opt_defs last_size_def bad_size_def)
  qed
qed (simp add: opt_defs last_size_def bad_size_def)

text \<open>Which command lines the log server takes, and what they mean.\<close>

theorem log_parse_cmdline_spec:
  "log_parse_cmdline os =
     (if bad_size os \<or> has_opt (CHR '':'') os \<or> stop_opt os \<or> last_arg (CHR ''o'') os [] = [] \<or> last_arg (CHR ''f'') os [] = [] then None
      else Some \<lparr>lc_daemon = has_opt (CHR ''d'') os, lc_log_file = last_arg (CHR ''o'') os [],
        lc_fifo_path = last_arg (CHR ''f'') os [], lc_rbsize = last_size os (1024 * 1024)\<rparr>)"
  by (simp add: log_parse_cmdline_def log_options_result new_log_conf_def)

text \<open>An exception, such as the one for a fifo that cannot be opened, is reported to the closed file.\<close>

theorem log_main_reports_to_closed_file:
  assumes "lm_thrown env" "log_parse_cmdline os = Some conf" "lm_file env = Some lf" "\<not> lc_daemon conf"
  shows "log_main env os = None"
  using assms by (simp add: log_main_def Let_def)

theorem log_main_reports_to_closed_file_witness:
  "log_main \<lparr>lm_file = Some \<lparr>lf_open = True, lf_name = ''l'', lf_rbsize = DEFAULT_RBSIZE, lf_data = []\<rparr>, lm_daemon_ok = True, lm_thrown = True\<rparr>
     [(CHR ''o'', ''l''), (CHR ''f'', ''f'')] = None"
  by (rule log_main_reports_to_closed_file [where conf = "\<lparr>lc_daemon = False, lc_log_file = ''l'', lc_fifo_path = ''f'', lc_rbsize = 1024 * 1024\<rparr>"])
    (simp_all add: log_parse_cmdline_def new_log_conf_def)

end
