(* ===== verification/Reactor.thy ===== *)
theory Reactor
  imports Flow_Report "HOL-Library.Multiset"
begin

text \<open>
  The event loop of the log server, \<open>logsrv/event.h\<close>, \<open>logsrv/select_reactor.h\<close> and
  \<open>logsrv/select_reactor.cpp\<close>. What a handler does with the reactor and the rest of the program is
  a parameter.
\<close>

section \<open>Events in a heap\<close>

text \<open>\<open>re_fun\<close> says that the function is not null, \<open>re_arg\<close> tells events apart.\<close>

record revent =
  re_fd :: nat
  re_read :: bool
  re_write :: bool
  re_fun :: bool
  re_arg :: nat

record reactor =
  sr_rset :: "nat set"
  sr_wset :: "nat set"
  sr_heap :: "revent list"
  sr_signals :: "(nat \<times> nat) list"
  sr_sig_event :: bool
  sr_pipe :: nat
  sr_stop :: bool

text \<open>
  \<open>push_heap\<close> of the standard library moves the last element up; \<open>make_heap\<close> is modelled as the
  elements pushed one by one. The order is that of the descriptors.
\<close>

definition swap_at :: "nat \<Rightarrow> nat \<Rightarrow> 'a list \<Rightarrow> 'a list" where
  "swap_at i j xs = xs[i := xs ! j, j := xs ! i]"

function sift_up :: "nat \<Rightarrow> revent list \<Rightarrow> revent list" where
  "sift_up i h = (if i = 0 then h
     else let p = (i - 1) div 2 in
       if re_fd (h ! p) < re_fd (h ! i) then sift_up p (swap_at p i h) else h)"
  by pat_completeness auto

termination sift_up
  by (relation "measure fst") auto

declare sift_up.simps [simp del]

definition push_heap :: "revent list \<Rightarrow> revent list" where
  "push_heap h = sift_up (length h - 1) h"

definition make_heap :: "revent list \<Rightarrow> revent list" where
  "make_heap h = foldl (\<lambda>acc e. push_heap (acc @ [e])) [] h"

definition max_fd :: "reactor \<Rightarrow> int" where
  "max_fd r = (case sr_heap r of [] \<Rightarrow> -1 | e # _ \<Rightarrow> int (re_fd e))"

section \<open>Operations\<close>

text \<open>The constructor makes a pipe for signals and its reading end not blocking, in three calls.\<close>

definition new_reactor :: "nat \<Rightarrow> bool list \<Rightarrow> reactor option" where
  "new_reactor pipe_fd oks = (case attempts 3 oks of
      (False, _) \<Rightarrow> None
    | (True, _) \<Rightarrow> Some \<lparr>sr_rset = {}, sr_wset = {}, sr_heap = [], sr_signals = [], sr_sig_event = False, sr_pipe = pipe_fd, sr_stop = False\<rparr>)"

definition reactor_add :: "revent \<Rightarrow> reactor \<Rightarrow> reactor" where
  "reactor_add e r = r\<lparr>sr_rset := (if re_read e then insert (re_fd e) (sr_rset r) else sr_rset r),
     sr_wset := (if re_write e then insert (re_fd e) (sr_wset r) else sr_wset r),
     sr_heap := push_heap (sr_heap r @ [e])\<rparr>"

fun erase_fd :: "nat \<Rightarrow> revent list \<Rightarrow> revent list" where
  "erase_fd fd [] = []"
| "erase_fd fd (e # es) = (if re_fd e = fd then es else e # erase_fd fd es)"

definition reactor_del :: "revent \<Rightarrow> reactor \<Rightarrow> reactor" where
  "reactor_del e r = (if re_fd e \<notin> re_fd ` set (sr_heap r) then r
     else r\<lparr>sr_rset := (if re_read e then sr_rset r - {re_fd e} else sr_rset r),
       sr_wset := (if re_write e then sr_wset r - {re_fd e} else sr_wset r),
       sr_heap := make_heap (erase_fd (re_fd e) (sr_heap r))\<rparr>)"

definition reactor_stop :: "reactor \<Rightarrow> reactor" where
  "reactor_stop r = r\<lparr>sr_stop := True\<rparr>"

text \<open>
  One round of \<open>run\<close> after \<open>select\<close>: the number of events is read once; the handlers are called
  by index. No result when the index is behind the end of the vector. \<open>call\<close> is the handler.
\<close>

fun round_loop :: "(revent \<Rightarrow> bool \<times> bool \<Rightarrow> reactor \<times> 'c \<Rightarrow> reactor \<times> 'c) \<Rightarrow> nat set \<Rightarrow> nat set \<Rightarrow> nat \<Rightarrow> nat \<Rightarrow> reactor \<times> 'c \<Rightarrow> (reactor \<times> 'c) option" where
  "round_loop call rset wset 0 i st = Some st"
| "round_loop call rset wset (Suc k) i st =
     (if length (sr_heap (fst st)) \<le> i then None
      else let e = sr_heap (fst st) ! i; flag = (re_fd e \<in> rset, re_fd e \<in> wset);
               st' = (if (fst flag \<or> snd flag) \<and> re_fun e then call e flag st else st)
        in if sr_stop (fst st') then Some st' else round_loop call rset wset k (Suc i) st')"

definition reactor_round :: "(revent \<Rightarrow> bool \<times> bool \<Rightarrow> reactor \<times> 'c \<Rightarrow> reactor \<times> 'c) \<Rightarrow> nat set \<Rightarrow> nat set \<Rightarrow> reactor \<times> 'c \<Rightarrow> (reactor \<times> 'c) option" where
  "reactor_round call rset wset st = round_loop call rset wset (length (sr_heap (fst st))) 0 st"

text \<open>\<open>run\<close>: what \<open>select\<close> returns in each round, \<open>None\<close> for an error; \<open>intr\<close> says that it was a signal.\<close>

datatype select_outcome = Ready "nat set" "nat set" | Select_error bool

fun reactor_run :: "(revent \<Rightarrow> bool \<times> bool \<Rightarrow> reactor \<times> 'c \<Rightarrow> reactor \<times> 'c) \<Rightarrow> select_outcome list \<Rightarrow> reactor \<times> 'c \<Rightarrow> (reactor \<times> 'c) option" where
  "reactor_run call [] st = Some st"
| "reactor_run call (out # outs) st = (if sr_stop (fst st) then Some st
     else (case out of
         Ready rs ws \<Rightarrow> (case reactor_round call (rs \<inter> sr_rset (fst st)) (ws \<inter> sr_wset (fst st)) st of
             None \<Rightarrow> None | Some st \<Rightarrow> reactor_run call outs st)
       | Select_error intr \<Rightarrow> (if intr then reactor_run call outs st else Some st)))"

text \<open>
  Signals: the first one adds the event of the pipe; a handler that is there already is replaced.
  \<open>ok\<close> is the outcome of the call that installs it. The map is kept sorted.
\<close>

definition signal_event :: "reactor \<Rightarrow> revent" where
  "signal_event r = \<lparr>re_fd = sr_pipe r, re_read = True, re_write = False, re_fun = True, re_arg = 0\<rparr>"

definition add_signal :: "bool \<Rightarrow> nat \<Rightarrow> nat \<Rightarrow> reactor \<Rightarrow> bool \<times> reactor" where
  "add_signal ok sig fn r = (case map_of (sr_signals r) sig of
      Some _ \<Rightarrow> (True, r\<lparr>sr_signals := map (\<lambda>(s, f). (s, if s = sig then fn else f)) (sr_signals r)\<rparr>)
    | None \<Rightarrow> if \<not> ok then (False, r)
        else (let r = (if sr_sig_event r then r else (reactor_add (signal_event r) r)\<lparr>sr_sig_event := True\<rparr>)
          in (True, r\<lparr>sr_signals := insort_key fst (sig, fn) (sr_signals r)\<rparr>)))"

definition del_signal :: "bool \<Rightarrow> nat \<Rightarrow> reactor \<Rightarrow> bool \<times> reactor" where
  "del_signal ok sig r = (if map_of (sr_signals r) sig = None then (False, r)
     else if \<not> ok then (False, r)
     else (True, r\<lparr>sr_signals := filter (\<lambda>(s, f). s \<noteq> sig) (sr_signals r)\<rparr>))"

text \<open>
  \<open>handle_pipe_read\<close>: the numbers in the pipe are counted, then each registered function is called
  as often as its signal was caught. The result is the list of calls.
\<close>

definition NSIG :: nat where "NSIG = 65"

definition signal_calls :: "nat list \<Rightarrow> reactor \<Rightarrow> (nat \<times> nat) list" where
  "signal_calls caught r = concat (map (\<lambda>(sig, fn). replicate (count_list (filter (\<lambda>s. s < NSIG) caught) sig) (sig, fn)) (sr_signals r))"

section \<open>The heap\<close>

lemma length_sift_up [simp]: "length (sift_up i h) = length h"
  by (induction i h rule: sift_up.induct) (subst sift_up.simps, auto simp: Let_def swap_at_def)

lemma mset_swap_at: "i < length xs \<Longrightarrow> j < length xs \<Longrightarrow> mset (swap_at i j xs) = mset xs"
  unfolding swap_at_def by (rule mset_swap) 

lemma mset_sift_up: "i < length h \<Longrightarrow> mset (sift_up i h) = mset h"
proof (induction i h rule: sift_up.induct)
  case (1 i h)
  show ?case
  proof (cases "i = 0 \<or> \<not> re_fd (h ! ((i - 1) div 2)) < re_fd (h ! i)")
    case True
    then show ?thesis by (subst sift_up.simps) (auto simp: Let_def)
  next
    case False
    let ?p = "(i - 1) div 2"
    have p: "?p < length h" using 1(2) by simp
    have "mset (sift_up ?p (swap_at ?p i h)) = mset (swap_at ?p i h)"
      by (rule 1(1)) (use False p in \<open>auto simp: swap_at_def\<close>)
    then show ?thesis using False mset_swap_at [OF p 1(2)] by (subst sift_up.simps) (auto simp: Let_def)
  qed
qed

definition front_max :: "revent list \<Rightarrow> bool" where
  "front_max h \<longleftrightarrow> (\<forall>k < length h. re_fd (h ! k) \<le> re_fd (h ! 0))"

lemma sift_up_front:
  assumes "i < length h" "\<forall>k < length h. k \<noteq> i \<longrightarrow> re_fd (h ! k) \<le> M" "if i = 0 then M \<le> re_fd (h ! 0) else re_fd (h ! 0) = M"
  shows "front_max (sift_up i h)"
  using assms
proof (induction i h rule: sift_up.induct)
  case (1 i h)
  let ?p = "(i - 1) div 2"
  show ?case
  proof (cases "i = 0")
    case True
    then have "re_fd (h ! k) \<le> re_fd (h ! 0)" if "k < length h" for k
      using 1(3,4) that by (cases "k = 0") (auto intro: le_trans)
    then show ?thesis using True by (subst sift_up.simps) (simp add: front_max_def)
  next
    case i: False
    then have p: "?p < i" by simp
    show ?thesis
    proof (cases "re_fd (h ! ?p) < re_fd (h ! i)")
      case False
      have "re_fd (h ! ?p) \<le> M" using 1(2,3) p by simp
      then have hi: "re_fd (h ! i) \<le> M" using False by simp
      have "re_fd (h ! k) \<le> re_fd (h ! 0)" if "k < length h" for k
        using 1(3,4) i that hi by (cases "k = i") auto
      then show ?thesis using False i by (subst sift_up.simps) (simp add: front_max_def Let_def)
    next
      case True
      let ?h = "swap_at ?p i h"
      have nth: "?h ! k = (if k = i then h ! ?p else if k = ?p then h ! i else h ! k)" if "k < length h" for k
        using 1(2) p that by (auto simp: swap_at_def nth_list_update)
      have "front_max (sift_up ?p ?h)"
      proof (rule 1(1) [OF i refl True])
        show "?p < length ?h" using 1(2) p by (simp add: swap_at_def)
        show "\<forall>k < length ?h. k \<noteq> ?p \<longrightarrow> re_fd (?h ! k) \<le> M"
        proof (intro allI impI)
          fix k assume "k < length ?h" "k \<noteq> ?p"
          then have "k < length h" by (simp add: swap_at_def)
          with \<open>k \<noteq> ?p\<close> show "re_fd (?h ! k) \<le> M" using 1(2,3) p nth by auto
        qed
        have "0 < length h" using 1(2) by linarith
        then show "if ?p = 0 then M \<le> re_fd (?h ! 0) else re_fd (?h ! 0) = M"
          using nth [of 0] 1(4) i True by auto
      qed
      then show ?thesis using True i by (subst sift_up.simps) (simp add: Let_def)
    qed
  qed
qed

lemma push_heap_front: "front_max h \<Longrightarrow> front_max (push_heap (h @ [e]))"
proof -
  assume f: "front_max h"
  show ?thesis
  proof (cases "h = []")
    case True
    then show ?thesis by (simp add: push_heap_def front_max_def sift_up.simps [of 0])
  next
    case False
    then show ?thesis using f unfolding push_heap_def
      by (intro sift_up_front [where M = "re_fd (h ! 0)"]) (auto simp: front_max_def nth_append)
  qed
qed

lemma mset_push_heap: "mset (push_heap (h @ [e])) = mset h + {#e#}"
  by (simp add: push_heap_def mset_sift_up)

lemma make_heap_fold:
  "front_max acc \<Longrightarrow> front_max (foldl (\<lambda>acc e. push_heap (acc @ [e])) acc h) \<and>
   mset (foldl (\<lambda>acc e. push_heap (acc @ [e])) acc h) = mset acc + mset h"
  by (induction h arbitrary: acc) (simp_all add: push_heap_front mset_push_heap)

lemma make_heap: "front_max (make_heap h)" "mset (make_heap h) = mset h"
  using make_heap_fold [of "[]" h] by (simp_all add: make_heap_def front_max_def)

text \<open>The reactor's sets hold the descriptors of its events, each of which has one of its own.\<close>

definition reactor_ok :: "reactor \<Rightarrow> bool" where
  "reactor_ok r \<longleftrightarrow> front_max (sr_heap r) \<and> distinct (map re_fd (sr_heap r))
     \<and> sr_rset r = re_fd ` {e \<in> set (sr_heap r). re_read e} \<and> sr_wset r = re_fd ` {e \<in> set (sr_heap r). re_write e}"

inductive reactor_reach :: "reactor \<Rightarrow> bool" where
  reach_new: "new_reactor fd oks = Some r \<Longrightarrow> reactor_reach r"
| reach_add: "reactor_reach r \<Longrightarrow> re_fd e \<notin> re_fd ` set (sr_heap r) \<Longrightarrow> reactor_reach (reactor_add e r)"
| reach_del: "reactor_reach r \<Longrightarrow> e \<in> set (sr_heap r) \<Longrightarrow> reactor_reach (reactor_del e r)"

lemma set_push_heap [simp]: "set (push_heap (h @ [e])) = insert e (set h)"
  by (metis mset_push_heap set_mset_mset set_mset_add_mset_insert add_mset_add_single)

lemma set_make_heap [simp]: "set (make_heap h) = set h"
  by (metis make_heap(2) set_mset_mset)

lemma distinct_map_mset: "mset xs = mset ys \<Longrightarrow> distinct (map f xs) = distinct (map f ys)"
  by (metis mset_eq_imp_distinct_iff mset_map)

lemma erase_fd_set: "distinct (map re_fd h) \<Longrightarrow> set (erase_fd fd h) = {e \<in> set h. re_fd e \<noteq> fd}"
proof (induction h)
  case (Cons e h)
  show ?case
  proof (cases "re_fd e = fd")
    case True
    then have "fd \<notin> re_fd ` set h" using Cons.prems by auto
    then have "re_fd x \<noteq> fd" if "x \<in> set h" for x using that by (metis imageI)
    with True show ?thesis by auto
  next
    case False
    with Cons show ?thesis by auto
  qed
qed simp

lemma erase_fd_distinct: "distinct (map re_fd h) \<Longrightarrow> distinct (map re_fd (erase_fd fd h))"
proof (induction h)
  case (Cons e h)
  then show ?case using erase_fd_set [of h fd] by auto
qed simp

lemma add_ok: "reactor_ok r \<Longrightarrow> re_fd e \<notin> re_fd ` set (sr_heap r) \<Longrightarrow> reactor_ok (reactor_add e r)"
proof -
  assume ok: "reactor_ok r" and new: "re_fd e \<notin> re_fd ` set (sr_heap r)"
  have "distinct (map re_fd (push_heap (sr_heap r @ [e]))) = distinct (map re_fd (e # sr_heap r))"
    by (rule distinct_map_mset) (simp add: mset_push_heap)
  then show ?thesis using ok new
    by (auto simp: reactor_ok_def reactor_add_def push_heap_front)
qed

lemma del_ok: "reactor_ok r \<Longrightarrow> e \<in> set (sr_heap r) \<Longrightarrow> reactor_ok (reactor_del e r)"
proof -
  assume ok: "reactor_ok r" and e: "e \<in> set (sr_heap r)"
  let ?h = "erase_fd (re_fd e) (sr_heap r)"
  have d: "distinct (map re_fd (sr_heap r))" using ok by (simp add: reactor_ok_def)
  have only: "x = e" if "x \<in> set (sr_heap r)" "re_fd x = re_fd e" for x using d e that by (auto simp: distinct_map inj_on_def)
  have "distinct (map re_fd (make_heap ?h)) = distinct (map re_fd ?h)" by (rule distinct_map_mset) (rule make_heap(2))
  with erase_fd_distinct [OF d] have "distinct (map re_fd (make_heap ?h))" by simp
  moreover have "re_fd ` {x \<in> set ?h. P x} = re_fd ` {x \<in> set (sr_heap r). P x} - {re_fd e}" for P
    using erase_fd_set [OF d] by auto
  moreover have "re_fd e \<notin> re_fd ` {x \<in> set (sr_heap r). P x}" if "\<not> P e" for P using only that by auto
  ultimately show ?thesis using ok e
    by (simp add: reactor_ok_def reactor_del_def make_heap(1))
qed

lemma reach_ok: "reactor_reach r \<Longrightarrow> reactor_ok r"
proof (induction rule: reactor_reach.induct)
  case (reach_new fd oks r)
  then show ?case by (auto simp: new_reactor_def reactor_ok_def front_max_def split: prod.splits bool.splits)
qed (simp_all add: add_ok del_ok)


definition rd_event :: "nat \<Rightarrow> revent" where
  "rd_event fd = \<lparr>re_fd = fd, re_read = True, re_write = False, re_fun = True, re_arg = 0\<rparr>"

definition three_events :: reactor where
  "three_events = reactor_add (rd_event 6) (reactor_add (rd_event 9) (reactor_add (rd_event 5)
     \<lparr>sr_rset = {}, sr_wset = {}, sr_heap = [], sr_signals = [], sr_sig_event = False, sr_pipe = 3, sr_stop = False\<rparr>))"

lemma three_events_heap: "sr_heap three_events = [rd_event 9, rd_event 5, rd_event 6]" "sr_rset three_events = {5, 6, 9}" "\<not> sr_stop three_events"
  by (auto simp: three_events_def reactor_add_def push_heap_def sift_up.simps Let_def rd_event_def swap_at_def)

lemma three_events_reach: "reactor_reach three_events"
  unfolding three_events_def
  by (intro reach_add reach_new [where fd = 3 and oks = "[]"])
    (auto simp: reactor_add_def push_heap_def sift_up.simps Let_def rd_event_def swap_at_def new_reactor_def)


section \<open>A round in which a client ends\<close>

lemma round_quiet:
  assumes "\<forall>j. i \<le> j \<and> j < length (sr_heap (fst st)) \<longrightarrow> \<not> (re_fd (sr_heap (fst st) ! j) \<in> rset \<or> re_fd (sr_heap (fst st) ! j) \<in> wset)"
    and "length (sr_heap (fst st)) < i + k" "i \<le> length (sr_heap (fst st))" "\<not> sr_stop (fst st)"
  shows "round_loop call rset wset k i st = None"
  using assms
proof (induction k arbitrary: i)
  case (Suc k)
  then show ?case by (cases "length (sr_heap (fst st)) = i") (auto simp: Let_def)
qed simp

text \<open>
  The number of events is read before the round: when the handler of the one event that is
  ready takes its event away, as a client does that has ended, the loop goes on to an index
  behind the end of the vector.
\<close>

theorem ended_client_overruns:
  assumes "reactor_reach r" "\<not> sr_stop r" "e \<in> set (sr_heap r)" "re_fun e" "e \<noteq> last (sr_heap r)"
    and "\<And>flag c. call e flag (r, c) = (reactor_del e r, c' c)"
  shows "reactor_round call {re_fd e} {} (r, c) = None"
proof -
  let ?h = "sr_heap r"
  have ok: "reactor_ok r" by (rule reach_ok [OF assms(1)])
  then have d: "distinct (map re_fd ?h)" by (simp add: reactor_ok_def)
  obtain k where k: "k < length ?h" "?h ! k = e" using assms(3) by (metis in_set_conv_nth)
  have others: "re_fd (?h ! j) \<noteq> re_fd e" if "j < length ?h" "j \<noteq> k" for j
    using d k that by (metis distinct_conv_nth length_map nth_map)
  have reach: "round_loop call {re_fd e} {} (length ?h - i) i (r, c) = round_loop call {re_fd e} {} (length ?h - k) k (r, c)" if "i \<le> k" for i
    using that
  proof (induction "k - i" arbitrary: i)
    case (Suc n)
    then have "i < k" by simp
    then have "length ?h - i = Suc (length ?h - Suc i)" using k(1) by simp
    then have "round_loop call {re_fd e} {} (length ?h - i) i (r, c) = round_loop call {re_fd e} {} (length ?h - Suc i) (Suc i) (r, c)"
      using others [of i] \<open>i < k\<close> k(1) assms(2) by (simp add: Let_def)
    with Suc.hyps(1) [of "Suc i"] Suc.hyps(2) \<open>i < k\<close> show ?case by simp
  qed simp
  let ?r = "reactor_del e r"
  have len: "length (sr_heap ?r) = length ?h - 1"
  proof -
    have "length (make_heap (erase_fd (re_fd e) ?h)) = length (erase_fd (re_fd e) ?h)"
      by (metis make_heap(2) size_mset)
    moreover have "length (erase_fd fd h) = length h - 1" if "fd \<in> re_fd ` set h" for fd h
      using that by (induction h) (auto simp: Suc_pred split: if_splits, metis Suc_pred length_pos_if_in_set)
    ultimately show ?thesis using assms(3) by (simp add: reactor_del_def)
  qed
  have gone: "re_fd x \<noteq> re_fd e" if "x \<in> set (sr_heap ?r)" for x
    using that erase_fd_set [OF d] assms(3) by (auto simp: reactor_del_def)
  have "length ?h - k = Suc (length ?h - Suc k)" using k(1) by simp
  then have "round_loop call {re_fd e} {} (length ?h - k) k (r, c) = round_loop call {re_fd e} {} (length ?h - Suc k) (Suc k) (?r, c' c)"
    using k assms(2,4,6) assms(3) by (simp add: Let_def reactor_del_def)
  moreover have "round_loop call {re_fd e} {} (length ?h - Suc k) (Suc k) (?r, c' c) = None"
  proof (rule round_quiet)
    have "k \<noteq> length ?h - 1" using k assms(5) by (metis last_conv_nth list.size(3) not_less_zero)
    then have "Suc k < length ?h" using k(1) by simp
    then show "length (sr_heap (fst (?r, c' c))) < Suc k + (length ?h - Suc k)" "Suc k \<le> length (sr_heap (fst (?r, c' c)))"
      using len by simp_all
    show "\<not> sr_stop (fst (?r, c' c))" using assms(2) by (simp add: reactor_del_def)
    show "\<forall>j. Suc k \<le> j \<and> j < length (sr_heap (fst (?r, c' c))) \<longrightarrow>
      \<not> (re_fd (sr_heap (fst (?r, c' c)) ! j) \<in> {re_fd e} \<or> re_fd (sr_heap (fst (?r, c' c)) ! j) \<in> {})"
      using gone by simp
  qed
  ultimately show ?thesis using reach [of 0] by (simp add: reactor_round_def)
qed

theorem ended_client_overruns_witness:
  "reactor_round (\<lambda>e flag (r, c). (reactor_del e r, c)) {9} {} (three_events, ()) = None"
  using ended_client_overruns [OF three_events_reach, of "rd_event 9" "\<lambda>e flag (r, c). (reactor_del e r, c)" "\<lambda>c. c" "()"] three_events_heap
  by (simp add: rd_event_def)

text \<open>
  Each caught signal that is registered is passed on exactly once, none that is not.
\<close>

lemma signal_calls_count:
  assumes "distinct (map fst (sr_signals r))" "(sig, fn) \<in> set (sr_signals r)" "sig < NSIG"
  shows "count_list (signal_calls caught r) (sig, fn) = count_list caught sig"
proof -
  have rep: "count_list (replicate n x) y = (if x = y then n else 0)" for n and x y :: "nat \<times> nat"
    by (induction n) auto
  have app: "count_list (xs @ ys) y = count_list xs y + count_list ys y" for xs ys and y :: "nat \<times> nat"
    by (induction xs) auto
  have filt: "count_list (filter (\<lambda>s. s < NSIG) xs) sig = count_list xs sig" for xs
    using assms(3) by (induction xs) auto
  have none: "(sig, fn) \<notin> set ss \<Longrightarrow> count_list (concat (map (\<lambda>(s, f). replicate (g s) (s, f)) ss)) (sig, fn) = 0" for ss and g :: "nat \<Rightarrow> nat"
    by (induction ss) (auto simp: app rep)
  have "distinct ss \<Longrightarrow> (sig, fn) \<in> set ss \<Longrightarrow> count_list (concat (map (\<lambda>(s, f). replicate (g s) (s, f)) ss)) (sig, fn) = g sig" for ss and g :: "nat \<Rightarrow> nat"
    by (induction ss) (auto simp: app rep none)
  with assms(1,2) show ?thesis unfolding signal_calls_def by (simp add: distinct_map filt)
qed

end
