(* ===== verification/Log_Server.thy ===== *)
theory Log_Server
  imports Log_File
begin

text \<open>
  The reading side of the log server, \<open>logsrv/fifo_srv.h\<close> and \<open>logsrv/fifo_srv.cpp\<close>: messages of a
  length and that many bytes, read from a pipe in pieces of any size, and what the acceptor and
  a client do with a message. \<open>on_msg\<close> is the virtual member; it has no result when an exception
  leaves it. \<open>alloc\<close> says whether memory of a size can be had.
\<close>

section \<open>The state of a reader\<close>

datatype fb_state = head | body

text \<open>Where \<open>fm_.data\<close> points to: the length itself, the buffer in the object, allocated memory.\<close>

datatype fb_place = In_len | In_fast | In_heap

text \<open>\<open>fb_got\<close> are the \<open>tran_\<close> bytes read so far of the \<open>total_\<close> that are due.\<close>

record fifo_base =
  fb_state :: fb_state
  fb_total :: nat
  fb_got :: bytes
  fb_len :: nat
  fb_place :: fb_place

definition FAST_BUF_SIZE :: nat where "FAST_BUF_SIZE = 64 * 1024"

definition new_fifo_base :: fifo_base where
  "new_fifo_base = \<lparr>fb_state = head, fb_total = 8, fb_got = [], fb_len = 0, fb_place = In_len\<rparr>"

definition to_head :: "fifo_base \<Rightarrow> fifo_base" where
  "to_head b = b\<lparr>fb_state := head, fb_total := 8, fb_got := [], fb_place := In_len\<rparr>"

text \<open>
  \<open>to_body\<close>: the sizes are set before the memory is allocated. When that fails the exception
  leaves the state and the place as they were.
\<close>

definition to_body :: "(nat \<Rightarrow> bool) \<Rightarrow> fifo_base \<Rightarrow> bool \<times> fifo_base" where
  "to_body alloc b = (let b = b\<lparr>fb_total := fb_len b, fb_got := []\<rparr> in
     if fb_len b \<le> FAST_BUF_SIZE then (True, b\<lparr>fb_place := In_fast, fb_state := body\<rparr>)
     else if alloc (fb_len b) then (True, b\<lparr>fb_place := In_heap, fb_state := body\<rparr>)
     else (False, b))"

definition fb_room :: "fifo_base \<Rightarrow> nat" where
  "fb_room b = fb_total b - length (fb_got b)"

definition capacity :: "fifo_base \<Rightarrow> nat" where
  "capacity b = (case fb_place b of In_len \<Rightarrow> 8 | In_fast \<Rightarrow> FAST_BUF_SIZE | In_heap \<Rightarrow> fb_total b)"

section \<open>Reading\<close>

text \<open>
  How \<open>async_read_msg\<close> ends: nothing is there, \<open>on_error\<close> was called, an exception left it, or a
  read wrote behind the memory it was given.
\<close>

datatype fb_end = Waits | On_error bool | Thrown | Overrun

text \<open>After a read that completed what was due.\<close>

definition fb_complete :: "(nat \<Rightarrow> bool) \<Rightarrow> (bytes \<Rightarrow> 'c \<Rightarrow> 'c option) \<Rightarrow> fifo_base \<times> 'c \<Rightarrow> bool \<times> fifo_base \<times> 'c" where
  "fb_complete alloc on_msg st = (case st of (b, c) \<Rightarrow> (case fb_state b of
      head \<Rightarrow> (case to_body alloc (b\<lparr>fb_len := le_val (fb_got b)\<rparr>) of (ok, b) \<Rightarrow> (ok, b, c))
    | body \<Rightarrow> (case on_msg (fb_got b) c of None \<Rightarrow> (False, b, c) | Some c \<Rightarrow> (True, to_head b, c))))"

text \<open>One read that delivers some bytes, no more than were asked for.\<close>

definition fb_read :: "(nat \<Rightarrow> bool) \<Rightarrow> (bytes \<Rightarrow> 'c \<Rightarrow> 'c option) \<Rightarrow> bytes \<Rightarrow> fifo_base \<times> 'c \<Rightarrow> fb_end option \<times> fifo_base \<times> 'c" where
  "fb_read alloc on_msg bs st = (case st of (b, c) \<Rightarrow>
     let b = b\<lparr>fb_got := fb_got b @ bs\<rparr> in
     if capacity b < length (fb_got b) then (Some Overrun, b, c)
     else if length (fb_got b) = fb_total b then
       (case fb_complete alloc on_msg (b, c) of (ok, st) \<Rightarrow> (if ok then None else Some Thrown, st))
     else (None, b, c))"

text \<open>
  The loop. A read of no bytes returns zero, as does one at the end of the pipe. What a read
  did not take stays for the next one.
\<close>

function async_read_msg :: "(nat \<Rightarrow> bool) \<Rightarrow> (bytes \<Rightarrow> 'c \<Rightarrow> 'c option) \<Rightarrow> rd list \<Rightarrow> fifo_base \<times> 'c \<Rightarrow> fb_end \<times> fifo_base \<times> 'c" where
  "async_read_msg alloc on_msg rds st =
     (if fb_room (fst st) = 0 then (On_error True, st)
      else (case rds of
          [] \<Rightarrow> (Waits, st)
        | Rd_eof # _ \<Rightarrow> (On_error True, st)
        | Rd_error # _ \<Rightarrow> (On_error False, st)
        | Rd bs # rest \<Rightarrow>
            (if bs = [] then async_read_msg alloc on_msg rest st
             else (case fb_read alloc on_msg (take (fb_room (fst st)) bs) st of
                 (Some e, st) \<Rightarrow> (e, st)
               | (None, st') \<Rightarrow> async_read_msg alloc on_msg (Rd (drop (fb_room (fst st)) bs) # rest) st'))))"
  by pat_completeness auto

fun rd_size :: "rd list \<Rightarrow> nat" where
  "rd_size [] = 0"
| "rd_size (Rd bs # rds) = Suc (length bs + rd_size rds)"
| "rd_size (_ # rds) = Suc (rd_size rds)"

termination async_read_msg
  by (relation "measure (\<lambda>(alloc, on_msg, rds, st). rd_size rds)") auto

declare async_read_msg.simps [simp del]

section \<open>The acceptor and its clients\<close>

text \<open>
  \<open>fifo_acceptor::on_message\<close>: the data are the name of a client's pipe, read as a C string; a
  client is made for it, or an exception leaves the constructor. \<open>opens\<close> says which pipes can be
  opened.
\<close>

definition acceptor_on_message :: "(bytes \<Rightarrow> bool) \<Rightarrow> bytes \<Rightarrow> bytes list \<Rightarrow> bytes list option" where
  "acceptor_on_message opens data clients = (let name = cstr data in if opens name then Some (clients @ [name]) else None)"

text \<open>
  \<open>fifo_client::on_message\<close>: a message of at least the size of \<open>log_msg\<close> is written to the log. The
  declaration of that type is not in the repository: its size, that of the header and the way
  to read level, time and thread are parameters. No result when the level is none.
\<close>

record log_layout =
  ly_msg_size :: nat
  ly_header_size :: nat
  ly_level :: "bytes \<Rightarrow> int"
  ly_stamp :: "bytes \<Rightarrow> bytes"
  ly_usec :: "bytes \<Rightarrow> nat"
  ly_tid :: "bytes \<Rightarrow> bytes"

definition client_on_message :: "log_layout \<Rightarrow> bool \<Rightarrow> wr list \<Rightarrow> bytes \<Rightarrow> logfile \<Rightarrow> logfile option" where
  "client_on_message ly ok ws data lf = (if length data < ly_msg_size ly then Some lf
     else (let hdr = take (ly_header_size ly) data; text = drop (ly_header_size ly) data in
       case log_write (ly_stamp ly hdr) (ly_usec ly hdr) (ly_tid ly hdr) (ly_level ly hdr) text ok ws lf of
         None \<Rightarrow> None | Some (_, lf) \<Rightarrow> Some lf))"

section \<open>Byte by byte\<close>

text \<open>The reader fed with one byte after another, as a reference.\<close>

fun feed :: "(nat \<Rightarrow> bool) \<Rightarrow> (bytes \<Rightarrow> 'c \<Rightarrow> 'c option) \<Rightarrow> bytes \<Rightarrow> fifo_base \<times> 'c \<Rightarrow> fb_end \<times> fifo_base \<times> 'c" where
  "feed alloc on_msg [] st = (if fb_room (fst st) = 0 then (On_error True, st) else (Waits, st))"
| "feed alloc on_msg (x # xs) st = (if fb_room (fst st) = 0 then (On_error True, st)
     else (case fb_read alloc on_msg [x] st of
         (Some e, st) \<Rightarrow> (e, st)
       | (None, st) \<Rightarrow> feed alloc on_msg xs st))"

text \<open>A reader whose memory is large enough for what is due.\<close>

definition fb_fits :: "fifo_base \<Rightarrow> bool" where
  "fb_fits b \<longleftrightarrow> fb_total b \<le> capacity b"

lemma capacity_got [simp]: "capacity (b\<lparr>fb_got := x\<rparr>) = capacity b"
  by (simp add: capacity_def split: fb_place.split)

lemma fits_got [simp]: "fb_fits (b\<lparr>fb_got := x\<rparr>) = fb_fits b"
  by (simp add: fb_fits_def)

lemma feed_part:
  assumes "fb_fits (fst st)" "length bs < fb_room (fst st)"
  shows "feed alloc on_msg (bs @ xs) st = feed alloc on_msg xs ((fst st)\<lparr>fb_got := fb_got (fst st) @ bs\<rparr>, snd st)"
  using assms
proof (induction bs arbitrary: st)
  case (Cons x bs)
  obtain b c where st: "st = (b, c)" by fastforce
  let ?b = "b\<lparr>fb_got := fb_got b @ [x]\<rparr>"
  have fits: "fb_fits ?b" using Cons.prems(1) st by simp
  have less: "Suc (length (fb_got b)) < fb_total b" using Cons.prems(2) st by (simp add: fb_room_def)
  then have "fb_read alloc on_msg [x] (b, c) = (None, ?b, c)"
    using Cons.prems(1) st by (simp add: fb_read_def fb_room_def fb_fits_def Let_def)
  then have "feed alloc on_msg ((x # bs) @ xs) st = feed alloc on_msg (bs @ xs) (?b, c)"
    using less st by (simp add: fb_room_def)
  also have "\<dots> = feed alloc on_msg xs (?b\<lparr>fb_got := fb_got ?b @ bs\<rparr>, c)"
    using Cons.IH [of "(?b, c)"] fits Cons.prems(2) st by (simp add: fb_room_def)
  finally show ?case using st by simp
qed (cases st, simp)

lemma feed_whole:
  assumes "fb_fits (fst st)" "length bs = fb_room (fst st)" "bs \<noteq> []"
  shows "feed alloc on_msg (bs @ xs) st = (case fb_read alloc on_msg bs st of
      (Some e, st') \<Rightarrow> (e, st') | (None, st') \<Rightarrow> feed alloc on_msg xs st')"
proof -
  obtain ys y where bs: "bs = ys @ [y]" using assms(3) by (metis append_butlast_last_id)
  obtain b c where st: "st = (b, c)" by fastforce
  let ?b = "b\<lparr>fb_got := fb_got b @ ys\<rparr>"
  have "feed alloc on_msg (ys @ y # xs) st = feed alloc on_msg (y # xs) (?b, c)"
    using feed_part [of st ys alloc on_msg "y # xs"] assms(1,2) bs st by simp
  moreover have "fb_read alloc on_msg [y] (?b, c) = fb_read alloc on_msg bs (b, c)"
    using bs by (simp add: fb_read_def Let_def)
  moreover have "fb_room ?b \<noteq> 0" using assms(2) bs st by (simp add: fb_room_def)
  ultimately show ?thesis using bs st by simp
qed

lemma fits_to_body: "to_body alloc b = (True, b') \<Longrightarrow> fb_fits b'"
  by (auto simp: to_body_def fb_fits_def capacity_def Let_def split: if_splits)

lemma fits_read:
  assumes "fb_read alloc on_msg bs (b, c) = (None, b', c')" "fb_fits b"
  shows "fb_fits b'"
proof (cases "length (fb_got b @ bs) = fb_total b")
  case True
  then show ?thesis using assms
    by (auto simp: fb_read_def Let_def fb_complete_def capacity_def fb_fits_def to_head_def to_body_def
        split: if_splits fb_state.splits option.splits prod.splits)
next
  case False
  then show ?thesis using assms by (auto simp: fb_read_def Let_def split: if_splits)
qed

text \<open>The sizes of the reads make no difference.\<close>

fun rd_plain :: "rd list \<Rightarrow> bool" where
  "rd_plain [] = True"
| "rd_plain (Rd bs # rds) = rd_plain rds"
| "rd_plain _ = False"

lemma async_read_feed:
  assumes "rd_plain rds" "fb_fits (fst st)"
  shows "async_read_msg alloc on_msg rds st = feed alloc on_msg (rd_stream rds) st"
  using assms
proof (induction alloc on_msg rds st rule: async_read_msg.induct)
  case (1 alloc on_msg rds st)
  show ?case
  proof (cases "fb_room (fst st) = 0")
    case True
    then show ?thesis by (subst async_read_msg.simps) (cases "rd_stream rds"; simp)
  next
    case room: False
    show ?thesis
    proof (cases rds)
      case Nil
      then show ?thesis using room by (subst async_read_msg.simps) simp
    next
      case (Cons d rest)
      then obtain bs where d: "d = Rd bs" using "1.prems"(1) by (cases d) auto
      let ?n = "fb_room (fst st)"
      show ?thesis
      proof (cases "bs = []")
        case True
        then show ?thesis using room Cons d 1 by (subst async_read_msg.simps) simp
      next
        case False
        obtain e st' where rd: "fb_read alloc on_msg (take ?n bs) st = (e, st')" by (metis surj_pair)
        have rest: "rd_plain (Rd (drop ?n bs) # rest)" using "1.prems"(1) Cons d by simp
        have ih: "async_read_msg alloc on_msg (Rd (drop ?n bs) # rest) st' = feed alloc on_msg (drop ?n bs @ rd_stream rest) st'"
          if "e = None"
        proof -
          have "fb_fits (fst st')" using fits_read [of alloc on_msg "take ?n bs" "fst st" "snd st" "fst st'" "snd st'"] rd that "1.prems"(2) by simp
          from "1.IH"(2) [OF room Cons d False rd [symmetric] that rest this] show ?thesis by simp
        qed
        have lhs: "async_read_msg alloc on_msg rds st = (case e of Some e \<Rightarrow> (e, st') | None \<Rightarrow> feed alloc on_msg (drop ?n bs @ rd_stream rest) st')"
          using room Cons d False rd ih by (subst async_read_msg.simps) (simp split: option.split)
        show ?thesis
        proof (cases "?n \<le> length bs")
          case True
          then have "feed alloc on_msg (take ?n bs @ (drop ?n bs @ rd_stream rest)) st =
              (case e of Some e \<Rightarrow> (e, st') | None \<Rightarrow> feed alloc on_msg (drop ?n bs @ rd_stream rest) st')"
            using feed_whole [OF "1.prems"(2), of "take ?n bs" alloc on_msg] room False rd by (simp split: option.split)
          moreover have "take ?n bs @ (drop ?n bs @ rd_stream rest) = bs @ rd_stream rest" by (simp flip: append_assoc)
          ultimately show ?thesis using lhs Cons d by simp
        next
          case small: False
          then have "length (fb_got (fst st)) + length bs < fb_total (fst st)" using room by (simp add: fb_room_def)
          then have "fb_read alloc on_msg bs st = (None, (fst st)\<lparr>fb_got := fb_got (fst st) @ bs\<rparr>, snd st)"
            using "1.prems"(2) by (cases st) (simp add: fb_read_def fb_room_def fb_fits_def Let_def)
          then have "e = None" "st' = ((fst st)\<lparr>fb_got := fb_got (fst st) @ bs\<rparr>, snd st)" using rd small by simp_all
          then show ?thesis
            using lhs feed_part [OF "1.prems"(2), of bs alloc on_msg "rd_stream rest"] small Cons d by simp
        qed
      qed
    qed
  qed
qed

section \<open>Messages\<close>

text \<open>What the members see of a list of messages, until one throws.\<close>

fun deliver_all :: "(bytes \<Rightarrow> 'c \<Rightarrow> 'c option) \<Rightarrow> bytes list \<Rightarrow> 'c \<Rightarrow> 'c option" where
  "deliver_all on_msg [] c = Some c"
| "deliver_all on_msg (m # ms) c = (case on_msg m c of None \<Rightarrow> None | Some c \<Rightarrow> deliver_all on_msg ms c)"

definition frame :: "bytes \<Rightarrow> bytes" where
  "frame data = concat (msg_vectors data)"

definition at_head :: "fifo_base \<Rightarrow> bool" where
  "at_head b \<longleftrightarrow> fb_state b = head \<and> fb_total b = 8 \<and> fb_got b = [] \<and> fb_place b = In_len"

lemma at_head_facts:
  "at_head b \<Longrightarrow> fb_fits b" "at_head b \<Longrightarrow> fb_room b = 8" "at_head (to_head b)" "at_head new_fifo_base"
  by (simp_all add: at_head_def fb_fits_def capacity_def fb_room_def to_head_def new_fifo_base_def)

lemma feed_frame:
  assumes "at_head b" "0 < length m" "length m < 2 ^ 64" "length m \<le> FAST_BUF_SIZE \<or> alloc (length m)" "on_msg m c = Some c'"
  obtains b' where "at_head b'" "feed alloc on_msg (frame m @ xs) (b, c) = feed alloc on_msg xs (b', c')"
proof -
  let ?l = "le_bytes 8 (length m)"
  obtain b1 where b1: "to_body alloc (b\<lparr>fb_got := ?l, fb_len := length m\<rparr>) = (True, b1)"
      "fb_state b1 = body" "fb_total b1 = length m" "fb_got b1 = []"
    using assms(4) by (cases "length m \<le> FAST_BUF_SIZE") (simp_all add: to_body_def Let_def)
  have len: "le_val ?l = length m" using assms(3) by simp
  have "fb_read alloc on_msg ?l (b, c) = (None, b1, c)"
    using assms(1) b1(1) len by (simp add: fb_read_def at_head_def capacity_def fb_complete_def Let_def)
  then have 1: "feed alloc on_msg (?l @ m @ xs) (b, c) = feed alloc on_msg (m @ xs) (b1, c)"
    using feed_whole [of "(b, c)" ?l alloc on_msg "m @ xs"] at_head_facts(1,2) [OF assms(1)] by (simp add: list_eq_iff_nth_eq)
  have fits: "fb_fits b1" by (rule fits_to_body [OF b1(1)])
  then have "fb_read alloc on_msg m (b1, c) = (None, to_head (b1\<lparr>fb_got := m\<rparr>), c')"
    using b1 assms(5) by (simp add: fb_read_def fb_fits_def fb_complete_def Let_def)
  then have "feed alloc on_msg (m @ xs) (b1, c) = feed alloc on_msg xs (to_head (b1\<lparr>fb_got := m\<rparr>), c')"
    using feed_whole [of "(b1, c)" m alloc on_msg xs] fits b1 assms(2) by (simp add: fb_room_def)
  with 1 show ?thesis using that [OF at_head_facts(3)] by (simp add: frame_def msg_vectors_def)
qed

lemma feed_frames:
  assumes "at_head b" "\<forall>m \<in> set ms. 0 < length m \<and> length m < 2 ^ 64 \<and> (length m \<le> FAST_BUF_SIZE \<or> alloc (length m))"
    and "deliver_all on_msg ms c = Some c'"
  shows "\<exists>b'. at_head b' \<and> feed alloc on_msg (concat (map frame ms)) (b, c) = (Waits, b', c')"
  using assms
proof (induction ms arbitrary: b c)
  case Nil
  then show ?case using at_head_facts(2) [OF Nil.prems(1)] by simp
next
  case (Cons m ms)
  obtain c1 where c1: "on_msg m c = Some c1" "deliver_all on_msg ms c1 = Some c'" using Cons.prems(3) by (auto split: option.splits)
  obtain b1 where "at_head b1" "feed alloc on_msg (frame m @ concat (map frame ms)) (b, c) = feed alloc on_msg (concat (map frame ms)) (b1, c1)"
    using feed_frame [where on_msg = on_msg and m = m and c = c and alloc = alloc and xs = "concat (map frame ms)", OF Cons.prems(1) _ _ _ c1(1)] Cons.prems(2) by auto
  with Cons.IH [OF this(1) _ c1(2)] Cons.prems(2) show ?case by simp
qed

text \<open>
  C19: whatever the sizes of the reads, the server gets exactly the messages that were written to a
  pipe, each whole and in order, as long as none is empty and none throws.
\<close>

theorem fifo_messages_delivered:
  assumes "rd_plain rds" "rd_stream rds = concat (map frame ms)"
    and "\<forall>m \<in> set ms. 0 < length m \<and> length m < 2 ^ 64 \<and> (length m \<le> FAST_BUF_SIZE \<or> alloc (length m))"
    and "deliver_all on_msg ms c = Some c'"
  shows "\<exists>b'. async_read_msg alloc on_msg rds (new_fifo_base, c) = (Waits, b', c')"
  using feed_frames [OF at_head_facts(4) assms(3,4)] async_read_feed [OF assms(1), of "(new_fifo_base, c)" alloc on_msg]
    at_head_facts(1,4) assms(2) by auto

definition collect :: "bytes \<Rightarrow> bytes list \<Rightarrow> bytes list option" where
  "collect m ms = Some (ms @ [m])"

theorem fifo_messages_delivered_witness:
  "\<exists>b'. async_read_msg (\<lambda>_. False) collect
     [Rd (take 3 (frame ''ab'' @ frame ''c'')), Rd (drop 3 (frame ''ab'' @ frame ''c''))] (new_fifo_base, []) = (Waits, b', [''ab'', ''c''])"
proof (rule fifo_messages_delivered [where ms = "[''ab'', ''c'']"])
  show "rd_stream [Rd (take 3 (frame ''ab'' @ frame ''c'')), Rd (drop 3 (frame ''ab'' @ frame ''c''))] = concat (map frame [''ab'', ''c''])"
    by (simp only: rd_stream.simps append_Nil2 append_take_drop_id list.map concat.simps)
qed (simp_all add: collect_def FAST_BUF_SIZE_def)

section \<open>What stops the server\<close>

text \<open>
  An exception from \<open>on_message\<close> leaves the reader with a complete message: every later read is
  one of no bytes, which looks like the end of the pipe. The acceptor, which only prints that,
  takes no further client: one name that cannot be opened is enough.
\<close>

lemma full_reader_stuck:
  "fb_room b = 0 \<Longrightarrow> async_read_msg alloc on_msg rds (b, c) = (On_error True, b, c)"
  by (subst async_read_msg.simps) simp

lemma feed_throws:
  assumes "at_head b" "0 < length m" "length m \<le> FAST_BUF_SIZE" "on_msg m c = None"
  shows "\<exists>b'. fb_room b' = 0 \<and> feed alloc on_msg (frame m @ xs) (b, c) = (Thrown, b', c)"
proof -
  let ?l = "le_bytes 8 (length m)"
  have "length m < 2 ^ 64" using assms(3) by (simp add: FAST_BUF_SIZE_def)
  then have len: "le_val ?l = length m" by simp
  obtain b1 where b1: "to_body alloc (b\<lparr>fb_got := ?l, fb_len := length m\<rparr>) = (True, b1)"
      "fb_state b1 = body" "fb_total b1 = length m" "fb_got b1 = []"
    using assms(3) by (auto simp: to_body_def Let_def)
  have "fb_read alloc on_msg ?l (b, c) = (None, b1, c)"
    using assms(1) b1(1) len by (simp add: fb_read_def at_head_def capacity_def fb_complete_def Let_def)
  then have 1: "feed alloc on_msg (?l @ m @ xs) (b, c) = feed alloc on_msg (m @ xs) (b1, c)"
    using feed_whole [of "(b, c)" ?l alloc on_msg "m @ xs"] at_head_facts(1,2) [OF assms(1)] by (simp add: list_eq_iff_nth_eq)
  have fits: "fb_fits b1" by (rule fits_to_body [OF b1(1)])
  then have "fb_read alloc on_msg m (b1, c) = (Some Thrown, b1\<lparr>fb_got := m\<rparr>, c)"
    using b1 assms(4) by (simp add: fb_read_def fb_fits_def fb_complete_def Let_def)
  then have "feed alloc on_msg (m @ xs) (b1, c) = (Thrown, b1\<lparr>fb_got := m\<rparr>, c)"
    using feed_whole [of "(b1, c)" m alloc on_msg xs] fits b1 assms(2) by (simp add: fb_room_def)
  with 1 b1(3) show ?thesis by (auto simp: frame_def msg_vectors_def fb_room_def intro!: exI [of _ "b1\<lparr>fb_got := m\<rparr>"])
qed

text \<open>
  C20: a name whose pipe cannot be opened stops the acceptor: its message stays in the reader, and
  every later read, whatever there is to read, ends in an error.
\<close>

theorem bad_name_stops_acceptor:
  assumes "rd_plain rds" "rd_stream rds = frame m @ rest" "0 < length m" "length m \<le> FAST_BUF_SIZE" "\<not> opens (cstr m)"
  shows "\<exists>b. async_read_msg alloc (acceptor_on_message opens) rds (new_fifo_base, clients) = (Thrown, b, clients)
     \<and> (\<forall>later. async_read_msg alloc (acceptor_on_message opens) later (b, clients) = (On_error True, b, clients))"
proof -
  have throws: "acceptor_on_message opens m clients = None" using assms(5) by (simp add: acceptor_on_message_def)
  obtain b where "fb_room b = 0" "feed alloc (acceptor_on_message opens) (frame m @ rest) (new_fifo_base, clients) = (Thrown, b, clients)"
    using feed_throws [where on_msg = "acceptor_on_message opens" and m = m and c = clients and xs = rest and alloc = alloc, OF at_head_facts(4) assms(3,4) throws] by blast
  moreover from this(2) have "async_read_msg alloc (acceptor_on_message opens) rds (new_fifo_base, clients) = (Thrown, b, clients)"
    using async_read_feed [OF assms(1), of "(new_fifo_base, clients)" alloc "acceptor_on_message opens"] at_head_facts(1,4) assms(2) by simp
  ultimately show ?thesis by (intro exI [of _ b] conjI allI full_reader_stuck)
qed

theorem bad_name_stops_acceptor_witness:
  "\<exists>b. async_read_msg (\<lambda>_. True) (acceptor_on_message (\<lambda>_. False)) [Rd (frame ''/tmp/fifo/1'')] (new_fifo_base, []) = (Thrown, b, [])"
  using bad_name_stops_acceptor [of "[Rd (frame ''/tmp/fifo/1'')]" "''/tmp/fifo/1''" "[]" "\<lambda>_. False" "\<lambda>_. True" "[]"]
  by (auto simp: FAST_BUF_SIZE_def)

text \<open>
  When memory for a long message cannot be had the sizes are set already but the place is still
  the length itself, eight bytes: the next bytes are written over what is behind it.
\<close>

theorem failed_allocation_overruns:
  assumes "at_head b" "FAST_BUF_SIZE < n" "n < 2 ^ 64" "\<not> alloc n" "8 < length bs" "length bs \<le> n"
  shows "\<exists>b1 b2. async_read_msg alloc on_msg [Rd (le_bytes 8 n)] (b, c) = (Thrown, b1, c)
     \<and> async_read_msg alloc on_msg [Rd bs] (b1, c) = (Overrun, b2, c)"
proof -
  let ?l = "le_bytes 8 n"
  let ?b1 = "b\<lparr>fb_got := [], fb_len := n, fb_total := n\<rparr>"
  have len: "le_val ?l = n" using assms(3) by simp
  have "fb_read alloc on_msg ?l (b, c) = (Some Thrown, ?b1, c)"
    using assms(1,2,4) len by (cases b) (simp add: fb_read_def at_head_def capacity_def fb_complete_def to_body_def Let_def)
  moreover have "fb_room b = 8" by (rule at_head_facts(2) [OF assms(1)])
  moreover have "?l \<noteq> []" by (simp add: list_eq_iff_nth_eq)
  ultimately have 1: "async_read_msg alloc on_msg [Rd ?l] (b, c) = (Thrown, ?b1, c)"
    by (subst async_read_msg.simps) simp
  have "fb_read alloc on_msg bs (?b1, c) = (Some Overrun, ?b1\<lparr>fb_got := bs\<rparr>, c)"
    using assms(1,5) by (simp add: fb_read_def at_head_def capacity_def Let_def)
  moreover have "fb_room ?b1 = n" by (simp add: fb_room_def)
  moreover have "bs \<noteq> []" "n \<noteq> 0" using assms(2,5) by (auto simp: FAST_BUF_SIZE_def)
  ultimately have "async_read_msg alloc on_msg [Rd bs] (?b1, c) = (Overrun, ?b1\<lparr>fb_got := bs\<rparr>, c)"
    using assms(6) by (subst async_read_msg.simps) simp
  with 1 show ?thesis by blast
qed

theorem failed_allocation_overruns_witness:
  "\<exists>b1 b2. async_read_msg (\<lambda>n. n < 2 ^ 40) collect [Rd (le_bytes 8 (2 ^ 63))] (new_fifo_base, []) = (Thrown, b1, [])
     \<and> async_read_msg (\<lambda>n. n < 2 ^ 40) collect [Rd ''overwritten''] (b1, []) = (Overrun, b2, [])"
  by (rule failed_allocation_overruns) (simp_all add: at_head_facts FAST_BUF_SIZE_def)

text \<open>An empty message ends a client, since the read of its body is one of no bytes.\<close>

lemma empty_message_ends_reader:
  assumes "at_head b"
  shows "\<exists>b'. async_read_msg alloc on_msg [Rd (frame [])] (b, c) = (On_error True, b', c)"
proof -
  let ?l = "le_bytes 8 0"
  obtain b1 where b1: "to_body alloc (b\<lparr>fb_got := ?l, fb_len := 0\<rparr>) = (True, b1)" "fb_total b1 = 0"
    by (auto simp: to_body_def Let_def)
  have "fb_read alloc on_msg ?l (b, c) = (None, b1, c)"
    using assms b1(1) by (simp add: fb_read_def at_head_def capacity_def fb_complete_def Let_def)
  then have "feed alloc on_msg (?l @ []) (b, c) = feed alloc on_msg [] (b1, c)"
    using feed_whole [of "(b, c)" ?l alloc on_msg "[]"] at_head_facts(1,2) [OF assms] by (simp add: list_eq_iff_nth_eq)
  then show ?thesis
    using async_read_feed [of "[Rd (frame [])]" "(b, c)" alloc on_msg] at_head_facts(1) [OF assms] b1(2)
    by (simp add: frame_def msg_vectors_def fb_room_def)
qed

end
