(* ===== verification/Ssl_Conn.thy ===== *)
theory Ssl_Conn
  imports Proxy_State
begin

text \<open>
  Connections over TLS, \<open>core/ssl_conn.h\<close>, \<open>core/ssl_conn.cpp\<close> and \<open>connection::add_event\<close>: the
  handlers that are members of the connection and are exchanged while it is handshaking,
  reading, writing and shutting down. The answers of OpenSSL are arguments; the handlers of
  the class \<open>connection\<close> are the calls they make on the overridden operations, whose number and
  order is left open.
\<close>

section \<open>The state\<close>

datatype handler = Handshake_handler | Empty_handler | Conn_handle_read | Conn_handle_write
  | Read_handler | Write_handler | Shutdown_handler

text \<open>
  The outcome of a call: \<open>Ssl_done n\<close> is a positive result \<open>n + 1\<close>, the others are what
  \<open>SSL_get_error\<close> says of a result that is not positive.
\<close>

datatype ssl_result = Ssl_done nat | Want_read | Want_write | Zero_return | Ssl_failed

record ssl_conn =
  sl_read :: handler
  sl_write :: handler
  sl_old_read :: "handler option"
  sl_old_write :: "handler option"
  sl_shutdown :: flags
  sl_flag :: flags
  sl_no_reneg :: bool
  sl_mode :: flags
  sl_quiet :: bool
  sl_rd_timeout :: bool
  sl_wr_timeout :: bool
  sl_active :: "bool list"
  sl_deleted :: bool
  sl_thrown :: bool

definition MASK_BIT_SSL_NO_WAIT :: flags where "MASK_BIT_SSL_NO_WAIT = 0x01"
definition MASK_BIT_SSL_NO_SENT :: flags where "MASK_BIT_SSL_NO_SENT = 0x02"
definition MASK_BIT_SSL_NO_ALL :: flags where "MASK_BIT_SSL_NO_ALL = 0x03"

text \<open>The shutdown bits of OpenSSL and the event bits of libevent.\<close>

definition SSL_SENT_SHUTDOWN :: flags where "SSL_SENT_SHUTDOWN = 1"
definition SSL_RECEIVED_SHUTDOWN :: flags where "SSL_RECEIVED_SHUTDOWN = 2"
definition EV_TIMEOUT :: "16 word" where "EV_TIMEOUT = 1"
definition EV_READ :: "16 word" where "EV_READ = 2"
definition EV_WRITE :: "16 word" where "EV_WRITE = 4"

lemmas ssl_masks = MASK_BIT_SSL_NO_WAIT_def MASK_BIT_SSL_NO_SENT_def MASK_BIT_SSL_NO_ALL_def
  SSL_SENT_SHUTDOWN_def SSL_RECEIVED_SHUTDOWN_def EV_TIMEOUT_def EV_READ_def EV_WRITE_def

text \<open>
  The constructor: \<open>SSL_new\<close> and \<open>SSL_set_fd\<close> may fail, then there is an exception and no
  connection. The flags are those of a new connection.
\<close>

definition new_ssl_conn :: "bool \<Rightarrow> bool \<Rightarrow> ssl_conn option" where
  "new_ssl_conn ssl_new set_fd = (if \<not> ssl_new then None else if \<not> set_fd then None
     else Some \<lparr>sl_read = Handshake_handler, sl_write = Empty_handler, sl_old_read = None, sl_old_write = None,
       sl_shutdown = 0, sl_flag = set_flag MASK_BIT_CONNECTED MASK_BIT_SSL, sl_no_reneg = False, sl_mode = 0, sl_quiet = False,
       sl_rd_timeout = False, sl_wr_timeout = False, sl_active = [], sl_deleted = False, sl_thrown = False\<rparr>)"

section \<open>Operations\<close>

definition do_handshake :: "ssl_result \<Rightarrow> ssl_conn \<Rightarrow> op_code \<times> ssl_conn" where
  "do_handshake r s = (case r of
      Ssl_done _ \<Rightarrow> (OP_SIZE 0, s\<lparr>sl_no_reneg := True\<rparr>)
    | Want_read \<Rightarrow> (OP_AGAIN, s\<lparr>sl_read := Handshake_handler, sl_write := Empty_handler\<rparr>)
    | Want_write \<Rightarrow> (OP_AGAIN, s\<lparr>sl_read := Empty_handler, sl_write := Handshake_handler\<rparr>)
    | Zero_return \<Rightarrow> (OP_CLOSE, s)
    | Ssl_failed \<Rightarrow> (OP_ERROR, s))"

definition active_event :: "bool \<Rightarrow> ssl_conn \<Rightarrow> ssl_conn" where
  "active_event is_read s = s\<lparr>sl_active := sl_active s @ [is_read]\<rparr>"

definition ssl_recv :: "ssl_result \<Rightarrow> ssl_conn \<Rightarrow> op_code \<times> ssl_conn" where
  "ssl_recv r s = (case r of
      Ssl_done n \<Rightarrow> (OP_SIZE (Suc n), (case sl_old_write s of None \<Rightarrow> s
          | Some h \<Rightarrow> active_event False (s\<lparr>sl_write := h, sl_old_write := None\<rparr>)))
    | Want_read \<Rightarrow> (OP_AGAIN, s)
    | Want_write \<Rightarrow> (OP_AGAIN, if sl_old_write s = None
          then s\<lparr>sl_old_write := Some (sl_write s), sl_write := Write_handler\<rparr> else s)
    | Zero_return \<Rightarrow> (OP_CLOSE, s)
    | Ssl_failed \<Rightarrow> (OP_ERROR, s\<lparr>sl_shutdown := MASK_BIT_SSL_NO_ALL\<rparr>))"

definition ssl_send :: "ssl_result \<Rightarrow> ssl_conn \<Rightarrow> op_code \<times> ssl_conn" where
  "ssl_send r s = (case r of
      Ssl_done n \<Rightarrow> (OP_SIZE (Suc n), (case sl_old_read s of None \<Rightarrow> s
          | Some h \<Rightarrow> active_event True (s\<lparr>sl_read := h, sl_old_read := None\<rparr>)))
    | Want_write \<Rightarrow> (OP_AGAIN, s)
    | Want_read \<Rightarrow> (OP_AGAIN, if sl_old_read s = None
          then s\<lparr>sl_old_read := Some (sl_read s), sl_read := Read_handler\<rparr> else s)
    | Zero_return \<Rightarrow> (OP_CLOSE, s)
    | Ssl_failed \<Rightarrow> (OP_ERROR, s\<lparr>sl_shutdown := MASK_BIT_SSL_NO_ALL\<rparr>))"

text \<open>\<open>add_event\<close> with a time-out; \<open>False\<close> is the exception.\<close>

definition add_event :: "bool \<Rightarrow> bool \<Rightarrow> ssl_conn \<Rightarrow> bool \<times> ssl_conn" where
  "add_event ok is_read s =
     (if is_read \<and> has_flag (sl_flag s) MASK_BIT_RD then
        (if ok then (True, s\<lparr>sl_rd_timeout := True\<rparr>) else (False, s\<lparr>sl_flag := clear_flag (sl_flag s) MASK_BIT_RD\<rparr>))
      else if has_flag (sl_flag s) MASK_BIT_WR then
        (if ok then (True, s\<lparr>sl_wr_timeout := True\<rparr>) else (False, s\<lparr>sl_flag := clear_flag (sl_flag s) MASK_BIT_WR\<rparr>))
      else (True, s))"

text \<open>
  \<open>do_shutdown\<close>: the bits that are already set, those of the errors seen before, and the call.
  The answer of \<open>SSL_shutdown\<close> may depend on whether the shutdown is quiet.
\<close>

definition shutdown_mode :: "bool \<Rightarrow> ssl_conn \<Rightarrow> ssl_conn" where
  "shutdown_mode is_timeout s = (if is_timeout then s\<lparr>sl_mode := or SSL_RECEIVED_SHUTDOWN SSL_SENT_SHUTDOWN, sl_quiet := True\<rparr>
     else let m = sl_mode s;
              m = (if has_flag (sl_shutdown s) MASK_BIT_SSL_NO_WAIT then or m SSL_RECEIVED_SHUTDOWN else m);
              m = (if has_flag (sl_shutdown s) MASK_BIT_SSL_NO_SENT then or m SSL_SENT_SHUTDOWN else m)
          in s\<lparr>sl_mode := m, sl_quiet := sl_quiet s \<or> has_flag (sl_shutdown s) MASK_BIT_SSL_NO_ALL\<rparr>)"

definition shutdown_waits :: "ssl_conn \<Rightarrow> ssl_conn" where
  "shutdown_waits s = s\<lparr>sl_read := Shutdown_handler, sl_write := Shutdown_handler\<rparr>"

definition do_shutdown :: "bool \<Rightarrow> (bool \<Rightarrow> ssl_result) \<Rightarrow> bool \<Rightarrow> ssl_conn \<Rightarrow> op_code option \<times> ssl_conn" where
  "do_shutdown is_timeout ssl_shutdown ok s0 = (let s = shutdown_mode is_timeout s0 in (case ssl_shutdown (sl_quiet s) of
      Ssl_done _ \<Rightarrow> (Some (OP_SIZE 0), s)
    | Zero_return \<Rightarrow> (Some OP_CLOSE, s)
    | Want_read \<Rightarrow> (case add_event ok True (shutdown_waits s) of (added, s) \<Rightarrow> (if added then Some OP_AGAIN else None, s))
    | Want_write \<Rightarrow> (Some OP_AGAIN, shutdown_waits s)
    | Ssl_failed \<Rightarrow> (Some OP_ERROR, s)))"

definition ssl_shut :: "bool \<Rightarrow> (bool \<Rightarrow> ssl_result) \<Rightarrow> bool \<Rightarrow> ssl_conn \<Rightarrow> ssl_conn" where
  "ssl_shut is_timeout ssl_shutdown ok s = (case do_shutdown is_timeout ssl_shutdown ok s of
      (None, s) \<Rightarrow> s\<lparr>sl_thrown := True\<rparr>
    | (Some r, s) \<Rightarrow> if r \<noteq> OP_AGAIN then s\<lparr>sl_deleted := True\<rparr> else s)"

definition ssl_close :: "(bool \<Rightarrow> ssl_result) \<Rightarrow> bool \<Rightarrow> ssl_conn \<Rightarrow> ssl_conn" where
  "ssl_close ssl_shutdown ok s = ssl_shut False ssl_shutdown ok s"

section \<open>Handlers\<close>

text \<open>
  What the library answers while one event is handled, and the calls the handlers of the base
  class make on the connection, until it is deleted or an exception leaves.
\<close>

datatype conn_call = Call_recv ssl_result | Call_send ssl_result | Call_close

record ssl_env =
  en_handshake :: ssl_result
  en_shutdown :: "bool \<Rightarrow> ssl_result"
  en_add_ok :: bool
  en_calls :: "conn_call list"

definition do_call :: "ssl_env \<Rightarrow> conn_call \<Rightarrow> ssl_conn \<Rightarrow> ssl_conn" where
  "do_call e c s = (case c of
      Call_recv r \<Rightarrow> snd (ssl_recv r s)
    | Call_send r \<Rightarrow> snd (ssl_send r s)
    | Call_close \<Rightarrow> ssl_close (en_shutdown e) (en_add_ok e) s)"

fun run_calls :: "ssl_env \<Rightarrow> conn_call list \<Rightarrow> ssl_conn \<Rightarrow> ssl_conn" where
  "run_calls e [] s = s"
| "run_calls e (c # cs) s = (if sl_deleted s \<or> sl_thrown s then s else run_calls e cs (do_call e c s))"

definition handshake :: "ssl_env \<Rightarrow> ssl_conn \<Rightarrow> ssl_conn" where
  "handshake e s = (case do_handshake (en_handshake e) s of
      (OP_SIZE _, s) \<Rightarrow> run_calls e (en_calls e) (s\<lparr>sl_read := Conn_handle_read, sl_write := Conn_handle_write\<rparr>)
    | (OP_AGAIN, s) \<Rightarrow> s
    | (_, s) \<Rightarrow> ssl_shut False (en_shutdown e) (en_add_ok e) (s\<lparr>sl_shutdown := set_flag (sl_shutdown s) MASK_BIT_SSL_NO_WAIT\<rparr>))"

text \<open>
  The call through the member pointer: \<open>read_handler\<close> calls the member for writing and
  \<open>write_handler\<close> that for reading. A call that does not return has no value.
\<close>

partial_function (option) invoke :: "handler \<Rightarrow> 16 word \<Rightarrow> ssl_env \<Rightarrow> ssl_conn \<Rightarrow> ssl_conn option" where
  "invoke h ev e s = (case h of
      Handshake_handler \<Rightarrow> Some (handshake e s)
    | Empty_handler \<Rightarrow> Some s
    | Conn_handle_read \<Rightarrow> Some (run_calls e (en_calls e) s)
    | Conn_handle_write \<Rightarrow> Some (run_calls e (en_calls e) s)
    | Read_handler \<Rightarrow> invoke (sl_write s) EV_READ e s
    | Write_handler \<Rightarrow> invoke (sl_read s) EV_WRITE e s
    | Shutdown_handler \<Rightarrow> Some (ssl_shut (and ev EV_TIMEOUT \<noteq> 0) (en_shutdown e) (en_add_ok e) s))"

text \<open>The two callbacks given to the event library.\<close>

definition on_read_event :: "16 word \<Rightarrow> ssl_env \<Rightarrow> ssl_conn \<Rightarrow> ssl_conn option" where
  "on_read_event ev e s = (if and ev EV_READ = 0 then Some s else invoke (sl_read s) ev e s)"

definition on_write_event :: "16 word \<Rightarrow> ssl_env \<Rightarrow> ssl_conn \<Rightarrow> ssl_conn option" where
  "on_write_event ev e s = (if and ev EV_WRITE = 0 then Some s else invoke (sl_write s) ev e s)"

text \<open>
  What happens to a connection: events, and calls from its partner or the timing wheel.
\<close>

datatype ssl_event = On_read "16 word" ssl_env | On_write "16 word" ssl_env | On_call conn_call ssl_env

fun ssl_run :: "ssl_event \<Rightarrow> ssl_conn \<Rightarrow> ssl_conn option" where
  "ssl_run (On_read ev e) s = on_read_event ev e s"
| "ssl_run (On_write ev e) s = on_write_event ev e s"
| "ssl_run (On_call c e) s = Some (do_call e c s)"

fun ssl_runs :: "ssl_event list \<Rightarrow> ssl_conn \<Rightarrow> ssl_conn option" where
  "ssl_runs [] s = Some s"
| "ssl_runs (v # vs) s = (case ssl_run v s of None \<Rightarrow> None | Some s \<Rightarrow> ssl_runs vs s)"

inductive ssl_reachable :: "ssl_conn \<Rightarrow> bool" where
  ssl_init: "new_ssl_conn ssl_new set_fd = Some s \<Longrightarrow> ssl_reachable s"
| ssl_attach: "ssl_reachable s \<Longrightarrow> ssl_reachable (s\<lparr>sl_flag := f\<rparr>)"
| ssl_event: "ssl_reachable s \<Longrightarrow> \<not> sl_deleted s \<Longrightarrow> \<not> sl_thrown s \<Longrightarrow> ssl_run v s = Some s' \<Longrightarrow> ssl_reachable s'"

section \<open>Which handler may stand where\<close>

definition read_slot :: "handler \<Rightarrow> bool" where
  "read_slot h \<longleftrightarrow> h \<in> {Handshake_handler, Empty_handler, Conn_handle_read, Read_handler, Shutdown_handler}"

definition write_slot :: "handler \<Rightarrow> bool" where
  "write_slot h \<longleftrightarrow> h \<in> {Handshake_handler, Empty_handler, Conn_handle_write, Write_handler, Shutdown_handler}"

definition slots_ok :: "ssl_conn \<Rightarrow> bool" where
  "slots_ok s \<longleftrightarrow> read_slot (sl_read s) \<and> write_slot (sl_write s)
     \<and> (case sl_old_read s of None \<Rightarrow> sl_read s \<noteq> Read_handler | Some h \<Rightarrow> read_slot h \<and> h \<noteq> Read_handler)
     \<and> (case sl_old_write s of None \<Rightarrow> sl_write s \<noteq> Write_handler | Some h \<Rightarrow> write_slot h \<and> h \<noteq> Write_handler)"

lemmas slot_defs = slots_ok_def read_slot_def write_slot_def

lemma slots_recv: "slots_ok s \<Longrightarrow> slots_ok (snd (ssl_recv r s))"
  by (cases r; cases "sl_old_write s"; auto simp: ssl_recv_def active_event_def slot_defs split: option.splits)

lemma slots_send: "slots_ok s \<Longrightarrow> slots_ok (snd (ssl_send r s))"
  by (cases r; cases "sl_old_read s"; auto simp: ssl_send_def active_event_def slot_defs split: option.splits)

lemma slots_fields [simp]:
  "slots_ok (s\<lparr>sl_mode := m\<rparr>) = slots_ok s" "slots_ok (s\<lparr>sl_quiet := b\<rparr>) = slots_ok s"
  "slots_ok (s\<lparr>sl_flag := f\<rparr>) = slots_ok s" "slots_ok (s\<lparr>sl_shutdown := f\<rparr>) = slots_ok s"
  "slots_ok (s\<lparr>sl_rd_timeout := b\<rparr>) = slots_ok s" "slots_ok (s\<lparr>sl_wr_timeout := b\<rparr>) = slots_ok s"
  "slots_ok (s\<lparr>sl_deleted := b\<rparr>) = slots_ok s" "slots_ok (s\<lparr>sl_thrown := b\<rparr>) = slots_ok s"
  "slots_ok (s\<lparr>sl_no_reneg := b\<rparr>) = slots_ok s"
  by (simp_all add: slots_ok_def split: option.split)

lemma slots_waits: "slots_ok s \<Longrightarrow> slots_ok (shutdown_waits s)"
  by (auto simp: shutdown_waits_def slot_defs split: option.splits)

lemma slots_mode [simp]: "slots_ok (shutdown_mode b s) = slots_ok s"
  by (simp add: shutdown_mode_def Let_def)

lemma slots_add_event: "slots_ok s \<Longrightarrow> slots_ok (snd (add_event ok r s))"
  by (simp add: add_event_def)

lemma slots_do_shutdown: "slots_ok s \<Longrightarrow> slots_ok (snd (do_shutdown b sd ok s))"
  using slots_add_event [OF slots_waits, of "shutdown_mode b s" ok True]
  by (auto simp: do_shutdown_def Let_def slots_waits split: ssl_result.split prod.splits)

lemma slots_shut: "slots_ok s \<Longrightarrow> slots_ok (ssl_shut b sd ok s)"
  using slots_do_shutdown [of s b sd ok] by (auto simp: ssl_shut_def split: prod.split option.split)

lemma slots_call: "slots_ok s \<Longrightarrow> slots_ok (do_call e c s)"
  by (simp add: do_call_def ssl_close_def slots_recv slots_send slots_shut split: conn_call.split)

lemma slots_calls: "slots_ok s \<Longrightarrow> slots_ok (run_calls e cs s)"
  by (induction e cs s rule: run_calls.induct) (simp_all add: slots_call)

lemma slots_do_handshake: "slots_ok s \<Longrightarrow> slots_ok (snd (do_handshake r s))"
  by (auto simp: do_handshake_def slot_defs split: ssl_result.splits option.splits)

lemma slots_connected: "slots_ok s \<Longrightarrow> slots_ok (s\<lparr>sl_read := Conn_handle_read, sl_write := Conn_handle_write\<rparr>)"
  by (auto simp: slot_defs split: option.splits)

lemma slots_handshake: "slots_ok s \<Longrightarrow> slots_ok (handshake e s)"
  using slots_do_handshake [of s "en_handshake e"]
  by (auto simp: handshake_def slots_calls slots_connected slots_shut split: prod.split op_code.split)

lemma invoke_handler [simp]:
  "invoke Handshake_handler ev e s = Some (handshake e s)"
  "invoke Empty_handler ev e s = Some s"
  "invoke Conn_handle_read ev e s = Some (run_calls e (en_calls e) s)"
  "invoke Conn_handle_write ev e s = Some (run_calls e (en_calls e) s)"
  "invoke Shutdown_handler ev e s = Some (ssl_shut (and ev EV_TIMEOUT \<noteq> 0) (en_shutdown e) (en_add_ok e) s)"
  by (subst invoke.simps, simp)+

lemma invoke_passes_on:
  "invoke Read_handler ev e s = invoke (sl_write s) EV_READ e s"
  "invoke Write_handler ev e s = invoke (sl_read s) EV_WRITE e s"
  by (subst invoke.simps, simp)+

lemma invoke_simple:
  "h \<noteq> Read_handler \<Longrightarrow> h \<noteq> Write_handler \<Longrightarrow> invoke h ev e s \<noteq> None"
  by (cases h) simp_all

lemma invoke_loops:
  assumes "invoke h ev e s = Some s'" "h \<in> {Read_handler, Write_handler}"
  shows "\<not> (sl_read s = Read_handler \<and> sl_write s = Write_handler)"
proof -
  have "h \<in> {Read_handler, Write_handler} \<longrightarrow> \<not> (sl_read s = Read_handler \<and> sl_write s = Write_handler)"
    by (rule invoke.raw_induct [OF _ assms(1)]) (auto split: handler.splits)
  with assms(2) show ?thesis by blast
qed

definition swapped_both :: "ssl_conn \<Rightarrow> bool" where
  "swapped_both s \<longleftrightarrow> sl_read s = Read_handler \<and> sl_write s = Write_handler"

lemma swapped_never_returns: "swapped_both s \<Longrightarrow> h \<in> {Read_handler, Write_handler} \<Longrightarrow> invoke h ev e s = None"
  using invoke_loops [of h ev e s] by (cases "invoke h ev e s") (auto simp: swapped_both_def)

lemma slots_invoke_simple:
  "h \<noteq> Read_handler \<Longrightarrow> h \<noteq> Write_handler \<Longrightarrow> invoke h ev e s = Some s' \<Longrightarrow> slots_ok s \<Longrightarrow> slots_ok s'"
  by (cases h) (auto simp: slots_handshake slots_calls slots_shut)

lemma slots_invoke:
  assumes "invoke h ev e s = Some s'" "slots_ok s" "h = sl_read s \<or> h = sl_write s"
  shows "slots_ok s'"
proof -
  have not_both: "\<not> swapped_both s"
    using swapped_never_returns [of s h ev e] assms(1,3) by (auto simp: swapped_both_def)
  have r: "sl_read s \<noteq> Write_handler" and w: "sl_write s \<noteq> Read_handler"
    using assms(2) by (auto simp: slots_ok_def read_slot_def write_slot_def)
  show ?thesis
  proof (cases "h = Read_handler \<or> h = Write_handler")
    case True
    then have "(h = Read_handler \<and> invoke (sl_write s) EV_READ e s = Some s' \<and> sl_write s \<noteq> Write_handler)
        \<or> (h = Write_handler \<and> invoke (sl_read s) EV_WRITE e s = Some s' \<and> sl_read s \<noteq> Read_handler)"
    proof
      assume h: "h = Read_handler"
      with assms(3) w have "sl_read s = Read_handler" by metis
      with h assms(1) not_both show ?thesis by (simp add: swapped_both_def invoke_passes_on)
    next
      assume h: "h = Write_handler"
      with assms(3) r have "sl_write s = Write_handler" by metis
      with h assms(1) not_both show ?thesis by (simp add: swapped_both_def invoke_passes_on)
    qed
    then obtain g ev' where "invoke g ev' e s = Some s'" "g \<noteq> Read_handler" "g \<noteq> Write_handler" using r w by blast
    then show ?thesis using slots_invoke_simple assms(2) by blast
  next
    case False
    then show ?thesis using slots_invoke_simple assms(1,2) by blast
  qed
qed

lemma slots_run: "ssl_run v s = Some s' \<Longrightarrow> slots_ok s \<Longrightarrow> slots_ok s'"
  by (cases v) (auto simp: on_read_event_def on_write_event_def slots_call split: if_splits dest: slots_invoke)

lemma slots_fresh: "new_ssl_conn a b = Some s \<Longrightarrow> slots_ok s"
  by (cases a; cases b) (auto simp: new_ssl_conn_def slot_defs)

lemma slots_reachable: "ssl_reachable s \<Longrightarrow> slots_ok s"
  by (induction rule: ssl_reachable.induct) (simp_all add: slots_fresh slots_run)


definition idle_env :: ssl_env where
  "idle_env = \<lparr>en_handshake = Want_read, en_shutdown = (\<lambda>_. Ssl_done 0), en_add_ok = True, en_calls = []\<rparr>"

definition fresh_ssl :: ssl_conn where
  "fresh_ssl = \<lparr>sl_read = Handshake_handler, sl_write = Empty_handler, sl_old_read = None, sl_old_write = None,
       sl_shutdown = 0, sl_flag = set_flag MASK_BIT_CONNECTED MASK_BIT_SSL, sl_no_reneg = False, sl_mode = 0, sl_quiet = False,
       sl_rd_timeout = False, sl_wr_timeout = False, sl_active = [], sl_deleted = False, sl_thrown = False\<rparr>"

lemma reach_fresh: "ssl_reachable fresh_ssl"
  by (rule ssl_init [where ssl_new = True and set_fd = True]) (simp add: new_ssl_conn_def fresh_ssl_def)

section \<open>When an event returns\<close>

lemma slots_invoke_returns:
  assumes "slots_ok s" "\<not> swapped_both s"
  shows "invoke (sl_read s) ev e s \<noteq> None" "invoke (sl_write s) ev e s \<noteq> None"
proof -
  have w: "sl_read s = Read_handler \<Longrightarrow> invoke (sl_write s) ev e s \<noteq> None" for ev
    using assms by (intro invoke_simple) (auto simp: slots_ok_def write_slot_def swapped_both_def)
  have r: "sl_write s = Write_handler \<Longrightarrow> invoke (sl_read s) ev e s \<noteq> None" for ev
    using assms by (intro invoke_simple) (auto simp: slots_ok_def read_slot_def swapped_both_def)
  show "invoke (sl_read s) ev e s \<noteq> None"
    using w assms(1) by (cases "sl_read s = Read_handler") (auto simp: slots_ok_def read_slot_def invoke_passes_on)
  show "invoke (sl_write s) ev e s \<noteq> None"
    using r assms(1) by (cases "sl_write s = Write_handler") (auto simp: slots_ok_def write_slot_def invoke_passes_on)
qed




definition crossing_env :: ssl_env where
  "crossing_env = idle_env\<lparr>en_handshake := Ssl_done 0, en_calls := [Call_recv Want_write, Call_send Want_read]\<rparr>"

text \<open>
  The two handlers can come to stand at once: the library answers a read with "write first"
  and a write with "read first". No event for reading or writing returns from then on.
\<close>

theorem crossed_handlers_hang:
  "\<exists>s. ssl_reachable s \<and> \<not> sl_deleted s \<and> \<not> sl_thrown s
     \<and> (\<forall>e. on_read_event EV_READ e s = None \<and> on_write_event EV_WRITE e s = None)"
proof -
  let ?t = "fresh_ssl\<lparr>sl_no_reneg := True, sl_read := Read_handler, sl_write := Write_handler,
    sl_old_read := Some Conn_handle_read, sl_old_write := Some Conn_handle_write\<rparr>"
  have run: "ssl_run (On_read EV_READ crossing_env) fresh_ssl = Some ?t"
    by (simp add: on_read_event_def EV_READ_def fresh_ssl_def crossing_env_def idle_env_def handshake_def do_handshake_def
        do_call_def ssl_recv_def ssl_send_def)
  have "ssl_reachable ?t" by (rule ssl_event [OF reach_fresh _ _ run]) (simp_all add: fresh_ssl_def)
  moreover have both: "swapped_both ?t" by (simp add: swapped_both_def)
  have "on_read_event EV_READ e ?t = None" for e
    using swapped_never_returns [OF both, of Read_handler] by (simp add: on_read_event_def EV_READ_def)
  moreover have "on_write_event EV_WRITE e ?t = None" for e
    using swapped_never_returns [OF both, of Write_handler] by (simp add: on_write_event_def EV_WRITE_def)
  moreover have "\<not> sl_deleted ?t" "\<not> sl_thrown ?t" by (simp_all add: fresh_ssl_def)
  ultimately show ?thesis by blast
qed

section \<open>Reading that has to write first, and writing that has to read first\<close>

definition connected_ssl :: "ssl_conn \<Rightarrow> bool" where
  "connected_ssl s \<longleftrightarrow> sl_read s = Conn_handle_read \<and> sl_write s = Conn_handle_write \<and> sl_old_read s = None \<and> sl_old_write s = None"

text \<open>
  On a connected connection a read that has to wait until the socket can be written is
  repeated by the next event for writing; when it succeeds the handlers are as before and
  the event for writing is activated, since it may have been used up. The same holds for a
  write that has to wait until the socket can be read.
\<close>

theorem crossed_io_resumes:
  assumes "connected_ssl s" "\<not> sl_deleted s" "\<not> sl_thrown s"
    and "en_calls e = [Call_recv (Ssl_done n)]" "en_calls f = [Call_send (Ssl_done m)]"
  shows "on_write_event EV_WRITE e (snd (ssl_recv Want_write s)) = Some (active_event False s)
    \<and> on_read_event EV_READ f (snd (ssl_send Want_read s)) = Some (active_event True s)"
  using assms by (cases s) (simp add: connected_ssl_def ssl_recv_def ssl_send_def on_write_event_def on_read_event_def
      EV_WRITE_def EV_READ_def do_call_def active_event_def invoke_passes_on)

definition open_ssl :: ssl_conn where
  "open_ssl = fresh_ssl\<lparr>sl_read := Conn_handle_read, sl_write := Conn_handle_write, sl_no_reneg := True\<rparr>"

theorem crossed_io_resumes_witness:
  "\<exists>s. on_write_event EV_WRITE (idle_env\<lparr>en_calls := [Call_recv (Ssl_done 9)]\<rparr>) (snd (ssl_recv Want_write open_ssl)) = Some s \<and> sl_active s = [False]"
proof -
  have "connected_ssl open_ssl" "\<not> sl_deleted open_ssl" "\<not> sl_thrown open_ssl"
    by (simp_all add: connected_ssl_def open_ssl_def fresh_ssl_def)
  from crossed_io_resumes [OF this, of "idle_env\<lparr>en_calls := [Call_recv (Ssl_done 9)]\<rparr>" 9 "idle_env\<lparr>en_calls := [Call_send (Ssl_done 4)]\<rparr>" 4]
  show ?thesis by (simp add: active_event_def open_ssl_def fresh_ssl_def)
qed

section \<open>The end of a connection\<close>

text \<open>
  After an error of the library the connection ends at once: the shutdown is quiet, and a
  quiet shutdown succeeds without a word to the peer.
\<close>

theorem failed_io_closes:
  assumes "c = Call_recv Ssl_failed \<or> c = Call_send Ssl_failed" "en_shutdown e True = Ssl_done n"
  shows "sl_deleted s \<or> sl_thrown s \<or> sl_deleted (run_calls e [c, Call_close] s)"
  using assms by (cases s) (auto simp: do_call_def ssl_recv_def ssl_send_def ssl_close_def ssl_shut_def do_shutdown_def
      shutdown_mode_def Let_def has_flag_def ssl_masks)

theorem failed_io_closes_witness: "sl_deleted (run_calls idle_env [Call_send Ssl_failed, Call_close] open_ssl)"
  using failed_io_closes [of "Call_send Ssl_failed" idle_env 0 open_ssl] by (simp add: idle_env_def open_ssl_def fresh_ssl_def)

text \<open>
  What goes on while a connection waits for its peer to end the session: time-outs of its
  events, and calls of close by the timing wheel that the library again answers with "later".
\<close>

fun only_waits :: "ssl_event \<Rightarrow> bool" where
  "only_waits (On_read ev e) = (ev = EV_TIMEOUT)"
| "only_waits (On_write ev e) = (ev = EV_TIMEOUT)"
| "only_waits (On_call c e) = (c = Call_close \<and> en_add_ok e \<and> (en_shutdown e False = Want_read \<or> en_shutdown e False = Want_write))"

definition pending_ssl :: "ssl_conn \<Rightarrow> bool" where
  "pending_ssl s \<longleftrightarrow> sl_shutdown s = 0 \<and> \<not> sl_quiet s \<and> \<not> sl_deleted s \<and> \<not> sl_thrown s"

lemma pending_mode: "pending_ssl s \<Longrightarrow> shutdown_mode False s = s"
  by (cases s) (simp add: pending_ssl_def shutdown_mode_def has_flag_def)

lemma pending_waits: "pending_ssl s \<Longrightarrow> pending_ssl (shutdown_waits s)"
  by (simp add: pending_ssl_def shutdown_waits_def)

lemma pending_add_event: "pending_ssl s \<Longrightarrow> fst (add_event True r s) \<and> pending_ssl (snd (add_event True r s))"
  by (simp add: add_event_def pending_ssl_def)

lemma pending_step:
  assumes "only_waits v" "pending_ssl s"
  shows "\<exists>s'. ssl_run v s = Some s' \<and> pending_ssl s'"
proof (cases v)
  case (On_call c e)
  with assms have call: "c = Call_close" "en_add_ok e" "en_shutdown e False = Want_read \<or> en_shutdown e False = Want_write"
    and quiet: "sl_quiet s = False" by (simp_all add: pending_ssl_def)
  obtain added s' where add: "add_event True True (shutdown_waits s) = (added, s')" by fastforce
  with pending_add_event [OF pending_waits [OF assms(2)], of True] have "added" "pending_ssl s'" by simp_all
  then show ?thesis using On_call call assms(2) add
    by (auto simp: do_call_def ssl_close_def ssl_shut_def do_shutdown_def pending_mode quiet pending_waits)
qed (use assms in \<open>auto simp: on_read_event_def on_write_event_def EV_TIMEOUT_def EV_READ_def EV_WRITE_def\<close>)

text \<open>
  The time limit of thirty seconds on the end of a session has no effect: the callbacks drop an
  event that is only a time-out, so a connection whose peer does not answer keeps its socket
  however often the time is over and however often the wheel closes it.
\<close>

theorem shutdown_never_times_out:
  assumes "pending_ssl s" "list_all only_waits evs"
  shows "\<exists>s'. ssl_runs evs s = Some s' \<and> \<not> sl_deleted s'"
  using assms
proof (induction evs arbitrary: s)
  case Nil
  then show ?case by (simp add: pending_ssl_def)
next
  case (Cons v evs)
  then obtain s' where "ssl_run v s = Some s'" "pending_ssl s'" using pending_step by fastforce
  with Cons show ?case by simp
qed

definition mute_env :: ssl_env where
  "mute_env = idle_env\<lparr>en_shutdown := (\<lambda>_. Want_read)\<rparr>"

theorem shutdown_never_times_out_witness:
  "\<exists>s'. ssl_runs [On_call Call_close mute_env, On_read EV_TIMEOUT mute_env, On_call Call_close mute_env] open_ssl = Some s' \<and> \<not> sl_deleted s'"
  by (rule shutdown_never_times_out) (simp_all add: pending_ssl_def open_ssl_def fresh_ssl_def mute_env_def idle_env_def)

end
